(* ===== verification/Sio_Prelude.thy ===== *)
theory Sio_Prelude
  imports Main "HOL-Library.Word" "HOL-Library.Monad_Syntax"
begin

text \<open>
  Shared vocabulary of the development: the machine types of the code, the three completion
  channels of a sender, and what the components need of pointers, options and words.

  A computation of type \<open>'a option\<close> that models C++ code is undefined behaviour (a null
  dereference, an access out of bounds, a failed assertion, a self-deadlock) where it is
  \<open>None\<close>. A pointer of type \<open>'a option\<close> is \<open>nullptr\<close> where it is \<open>None\<close>, so that binding a
  pointer in a \<open>do\<close> block is its dereference.
\<close>

unbundle bit_operations_syntax

type_synonym u8 = "8 word"
type_synonym u16 = "16 word"
type_synonym u32 = "32 word"
type_synonym u64 = "64 word"
type_synonym size_t = "64 word"

type_synonym 'a ptr = "'a option"

text \<open>
  The completion channels of a sender. A receiver is completed by exactly one of them.
\<close>

datatype ('v, 'e) signal = Set_Value 'v | Set_Error 'e | Set_Stopped

named_theorems ptr_simps \<open>equations of the pointer structures\<close>
named_theorems word_nat \<open>rules that read machine words as natural numbers\<close>

lemmas [word_nat] = word_le_nat_alt word_less_nat_alt unat_sub

subsection \<open>Options as fallible computations\<close>

lemma bind_Some_iff: "Option.bind m f = Some y \<longleftrightarrow> (\<exists>x. m = Some x \<and> f x = Some y)"
  by (cases m) auto

subsection \<open>Lists\<close>

definition last_ptr :: "'a list \<Rightarrow> 'a ptr" where
  "last_ptr xs = (if xs = [] then None else Some (last xs))"

definition hd_ptr :: "'a list \<Rightarrow> 'a ptr" where
  "hd_ptr xs = (if xs = [] then None else Some (hd xs))"

lemma last_ptr_simps [simp]:
  "last_ptr [] = None"
  "last_ptr (xs @ [x]) = Some x"
  "last_ptr xs = None \<longleftrightarrow> xs = []"
  by (auto simp: last_ptr_def)

lemma hd_ptr_simps [simp]:
  "hd_ptr [] = None"
  "hd_ptr (x # xs) = Some x"
  "hd_ptr xs = None \<longleftrightarrow> xs = []"
  by (auto simp: hd_ptr_def)

lemma last_ptr_Cons [simp]: "last_ptr (x # xs) = (if xs = [] then Some x else last_ptr xs)"
  by (simp add: last_ptr_def)

lemma last_ptr_append: "last_ptr (xs @ ys) = (if ys = [] then last_ptr xs else last_ptr ys)"
  by (simp add: last_ptr_def)

lemma last_ptr_SomeD: "last_ptr xs = Some x \<Longrightarrow> \<exists>ys. xs = ys @ [x]"
  by (cases xs rule: rev_cases) auto

subsection \<open>Words\<close>

lemma unat_add_no_wrap:
  fixes a b :: "'a::len word"
  assumes "unat a + unat b < 2 ^ LENGTH('a)"
  shows "unat (a + b) = unat a + unat b"
  using assms by (simp add: unat_word_ariths)

lemma unat_less64: "unat (x :: u64) < 2 ^ 64"
  using unsigned_less [of x] by simp

end
