(* ===== verification/Log2.thy ===== *)
theory Log2
  imports Sio_Prelude
begin

text \<open>
  The binary logarithm of \<^verbatim>\<open>memory_pool.cpp\<close>: the word is smeared to the right of its highest
  bit, the isolated highest bit is multiplied by a de Bruijn constant, and the top six bits of the
  product index a table.
\<close>

definition tab64 :: "int list" where
  "tab64 = [
     63,  0, 58,  1, 59, 47, 53,  2, 60, 39, 48, 27, 54, 33, 42,  3, 61, 51, 37, 40, 49, 18,
     28, 20, 55, 30, 34, 11, 43, 14, 22,  4, 62, 57, 46, 52, 38, 26, 32, 41, 50, 36, 17, 19,
     29, 10, 13, 21, 56, 45, 25, 31, 35, 16,  9, 12, 44, 24, 15,  8, 23,  7,  6,  5]"

definition smear :: "u64 \<Rightarrow> u64" where
  "smear v0 =
     (let v1 = v0 OR drop_bit 1 v0;
          v2 = v1 OR drop_bit 2 v1;
          v3 = v2 OR drop_bit 4 v2;
          v4 = v3 OR drop_bit 8 v3;
          v5 = v4 OR drop_bit 16 v4
      in v5 OR drop_bit 32 v5)"

definition log2_64 :: "u64 \<Rightarrow> int" where
  "log2_64 value =
     (let v = smear value
      in tab64 ! unat (drop_bit 58 ((v - drop_bit 1 v) * 0x07EDD5E59A4E28C2)))"

subsection \<open>Smearing\<close>

definition covered :: "u64 \<Rightarrow> nat \<Rightarrow> nat \<Rightarrow> bool" where
  "covered v k i \<longleftrightarrow> (\<exists>j. i \<le> j \<and> j < i + k \<and> bit v j)"

lemma covered_split: "covered v (2 * k) i \<longleftrightarrow> covered v k i \<or> covered v k (k + i)"
proof
  assume "covered v (2 * k) i"
  then obtain j where "i \<le> j" "j < i + 2 * k" "bit v j" by (auto simp: covered_def)
  then show "covered v k i \<or> covered v k (k + i)"
    by (cases "j < i + k") (auto simp: covered_def intro: exI [of _ j])
next
  assume "covered v k i \<or> covered v k (k + i)"
  then show "covered v (2 * k) i"
    by (auto simp: covered_def) (metis add.commute add_lessD1 le_trans le_add2 trans_less_add2
      mult_2 add.assoc)+
qed

lemma covered_double:
  assumes "\<And>i. bit w i \<longleftrightarrow> covered v k i"
  shows "bit (w OR drop_bit k w) i \<longleftrightarrow> covered v (2 * k) i"
  by (simp add: bit_or_iff bit_drop_bit_eq assms covered_split)

lemma bit_smear: "bit (smear v) i \<longleftrightarrow> covered v 64 i"
proof -
  define w1 where "w1 = v OR drop_bit 1 v"
  define w2 where "w2 = w1 OR drop_bit 2 w1"
  define w3 where "w3 = w2 OR drop_bit 4 w2"
  define w4 where "w4 = w3 OR drop_bit 8 w3"
  define w5 where "w5 = w4 OR drop_bit 16 w4"
  have "bit v i \<longleftrightarrow> covered v 1 i" for i by (auto simp: covered_def) (metis le_less_Suc_eq)
  from covered_double [OF this] have "bit w1 i \<longleftrightarrow> covered v 2 i" for i by (simp add: w1_def)
  from covered_double [OF this] have "bit w2 i \<longleftrightarrow> covered v 4 i" for i by (simp add: w2_def)
  from covered_double [OF this] have "bit w3 i \<longleftrightarrow> covered v 8 i" for i by (simp add: w3_def)
  from covered_double [OF this] have "bit w4 i \<longleftrightarrow> covered v 16 i" for i by (simp add: w4_def)
  from covered_double [OF this] have "bit w5 i \<longleftrightarrow> covered v 32 i" for i by (simp add: w5_def)
  from covered_double [OF this] show ?thesis
    by (simp add: smear_def Let_def w1_def w2_def w3_def w4_def w5_def)
qed

text \<open>The position of the highest bit.\<close>

definition top_bit :: "u64 \<Rightarrow> nat \<Rightarrow> bool" where
  "top_bit v m \<longleftrightarrow> bit v m \<and> (\<forall>j > m. \<not> bit v j)"

lemma top_bit_exists:
  assumes "v \<noteq> 0"
  shows "\<exists>m. top_bit v m"
proof -
  from assms obtain j where "bit v j" by (auto simp: bit_eq_iff)
  moreover have "\<forall>j. bit v j \<longrightarrow> j < 64"
    using bit_imp_le_length [of v] by simp
  ultimately have "\<exists>m. bit v m \<and> (\<forall>j. bit v j \<longrightarrow> j \<le> m)"
    by (rule ex_has_greatest_nat [where f = "\<lambda>j. j"])
  then show ?thesis by (auto simp: top_bit_def not_le dest: leD)
qed

lemma top_bit_less: "top_bit v m \<Longrightarrow> m < 64"
  using bit_imp_le_length [of v m] by (simp add: top_bit_def)

lemma smear_top_bit:
  assumes "top_bit v m"
  shows "smear v = mask (Suc m)"
proof (rule bit_word_eqI)
  fix i assume "i < LENGTH(64)"
  have "covered v 64 i \<longleftrightarrow> i \<le> m"
  proof
    assume "covered v 64 i"
    then obtain j where "i \<le> j" "bit v j" by (auto simp: covered_def)
    moreover from \<open>bit v j\<close> assms have "j \<le> m" by (auto simp: top_bit_def not_le [symmetric])
    ultimately show "i \<le> m" by simp
  next
    assume "i \<le> m"
    with assms top_bit_less [OF assms] show "covered v 64 i"
      by (auto simp: covered_def top_bit_def)
  qed
  then show "bit (smear v) i \<longleftrightarrow> bit (mask (Suc m) :: u64) i"
    using \<open>i < LENGTH(64)\<close> by (simp add: bit_smear bit_mask_iff less_Suc_eq_le)
qed

lemma top_bit_bounds:
  assumes "top_bit v m"
  shows "2 ^ m \<le> unat v" "unat v < 2 ^ Suc m"
proof -
  have "take_bit (Suc m) v = v"
    using assms by (auto simp: bit_eq_iff bit_take_bit_iff top_bit_def) (metis not_less_eq)
  then have "unat v = take_bit (Suc m) (unat v)"
    by (metis unsigned_take_bit_eq)
  then show "unat v < 2 ^ Suc m"
    by (metis take_bit_nat_less_exp)
  have "bit (unat v) m" using assms by (simp add: top_bit_def bit_unsigned_iff)
  then show "2 ^ m \<le> unat v"
    by (metis bit_nat_def div_less even_zero linorder_not_less bit_iff_odd odd_pos)
qed

subsection \<open>The table\<close>

lemma isolated_bit:
  assumes "m < 64"
  shows "mask (Suc m) - drop_bit 1 (mask (Suc m)) = (2 ^ m :: u64)"
proof -
  have "drop_bit 1 (mask (Suc m)) = (mask m :: u64)"
    by (rule bit_word_eqI) (use assms in \<open>auto simp: bit_drop_bit_eq bit_mask_iff\<close>)
  then show ?thesis by (simp add: mask_eq_exp_minus_1)
qed

lemma de_bruijn_table:
  "\<forall>m \<in> set [0..<64]. tab64 ! unat (drop_bit 58 ((2 ^ m :: u64) * 0x07EDD5E59A4E28C2)) = int m"
  by code_simp


lemma log2_top_bit:
  assumes "top_bit v m"
  shows "log2_64 v = int m"
proof -
  have m: "m < 64" by (rule top_bit_less [OF assms])
  then have "log2_64 v = tab64 ! unat (drop_bit 58 ((2 ^ m :: u64) * 0x07EDD5E59A4E28C2))"
    by (simp only: log2_64_def Let_def smear_top_bit [OF assms] isolated_bit)
  also from m have "\<dots> = int m" using de_bruijn_table by simp
  finally show ?thesis .
qed

lemma log2_64_bounds:
  assumes "v \<noteq> 0"
  shows "\<exists>m. log2_64 v = int m \<and> m < 64 \<and> 2 ^ m \<le> unat v \<and> unat v < 2 ^ Suc m"
  using top_bit_exists [OF assms] log2_top_bit top_bit_less top_bit_bounds by blast

lemma log2_64_zero: "log2_64 0 = 63"
  by (simp add: log2_64_def smear_def tab64_def)

lemma log2_64_eqI:
  assumes "2 ^ m \<le> unat v" "unat v < 2 ^ Suc m"
  shows "log2_64 v = int m"
proof -
  from assms(1) have "v \<noteq> 0" by auto
  then obtain k where k: "log2_64 v = int k" "2 ^ k \<le> unat v" "unat v < 2 ^ Suc k"
    using log2_64_bounds by blast
  from k(2) assms(2) have "(2 :: nat) ^ k < 2 ^ Suc m" by (rule le_less_trans)
  then have "k < Suc m" by (rule power_less_imp_less_exp [rotated]) simp
  moreover from k(3) assms(1) have "(2 :: nat) ^ m < 2 ^ Suc k" by (rule le_less_trans [rotated])
  then have "m < Suc k" by (rule power_less_imp_less_exp [rotated]) simp
  ultimately show ?thesis using k(1) by simp
qed

lemma log2_64_range: "0 \<le> log2_64 v \<and> log2_64 v < 64"
  using log2_64_bounds [of v] log2_64_zero by (cases "v = 0") auto

text \<open>C24 (log2). The multiplication by a constant and the table of \<^verbatim>\<open>log2_64\<close> compute the position of the highest bit of every
  number, which is the binary logarithm rounded down; for zero, which has none, they give 63.\<close>

theorem log2_rounds_down:
  assumes "v \<noteq> 0"
  shows "0 \<le> log2_64 v \<and> log2_64 v < 64 \<and> 2 ^ nat (log2_64 v) \<le> unat v \<and> unat v < 2 ^ Suc (nat (log2_64 v)) \<and>
    log2_64 0 = 63"
proof -
  obtain m where m: "log2_64 v = int m" "m < 64" "2 ^ m \<le> unat v" "unat v < 2 ^ Suc m"
    using log2_64_bounds [OF assms] by blast
  then show ?thesis by (simp add: log2_64_zero)
qed

theorem log2_rounds_down_witness: "2 ^ nat (log2_64 1000) \<le> unat (1000 :: u64)"
  using log2_rounds_down [of 1000] by simp

end
