(* ===== verification/Fifo_Interface.thy ===== *)
theory Fifo_Interface
  imports Sio_Prelude
begin

text \<open>
  The contract that the users of an intrusive container rely on (the item queues of \<^verbatim>\<open>zip\<close>, the
  pending allocations of the memory pool, the observers of a channel), and what follows from it
  for their loops. The containers themselves are in \<open>Intrusive_Queue\<close> and \<open>Intrusive_List\<close>.
\<close>

text \<open>
  The draining loop \<^verbatim>\<open>while (!queue.empty()) { op = queue.pop_front(); op->complete_(op); }\<close>,
  over any container: the items in the order in which they are completed, and the container
  afterwards.
\<close>

partial_function (option) drain ::
  "('s \<Rightarrow> bool) \<Rightarrow> ('s \<Rightarrow> ('a \<times> 's) option) \<Rightarrow> 's \<Rightarrow> ('a list \<times> 's) option" where
  "drain is_empty pop_front s =
     (if is_empty s then Some ([], s)
      else do {
        (x, s1) \<leftarrow> pop_front s;
        (xs, s2) \<leftarrow> drain is_empty pop_front s1;
        Some (x # xs, s2)
      })"

fun push_all :: "('a \<Rightarrow> 's \<Rightarrow> 's option) \<Rightarrow> 'a list \<Rightarrow> 's \<Rightarrow> 's option" where
  "push_all push_back [] s = Some s"
| "push_all push_back (x # xs) s = do { s1 \<leftarrow> push_back x s; push_all push_back xs s1 }"

locale fifo =
  fixes repr :: "'s \<Rightarrow> 'a list \<Rightarrow> bool"
    and is_empty :: "'s \<Rightarrow> bool"
    and push_back :: "'a \<Rightarrow> 's \<Rightarrow> 's option"
    and pop_front :: "'s \<Rightarrow> ('a \<times> 's) option"
  assumes empty_law: "repr s xs \<Longrightarrow> is_empty s \<longleftrightarrow> xs = []"
    and push_law: "repr s xs \<Longrightarrow> x \<notin> set xs \<Longrightarrow>
      \<exists>s'. push_back x s = Some s' \<and> repr s' (xs @ [x])"
    and pop_law: "repr s (x # xs) \<Longrightarrow> \<exists>s'. pop_front s = Some (x, s') \<and> repr s' xs"
begin

lemma push_all_repr:
  "repr s xs \<Longrightarrow> distinct (xs @ ys) \<Longrightarrow>
     \<exists>s'. push_all push_back ys s = Some s' \<and> repr s' (xs @ ys)"
proof (induction ys arbitrary: s xs)
  case Nil
  then show ?case by simp
next
  case (Cons y ys)
  from Cons.prems have "repr s xs" "y \<notin> set xs" by auto
  then obtain s1 where s1: "push_back y s = Some s1" "repr s1 (xs @ [y])"
    using push_law by blast
  moreover from Cons.prems have "distinct ((xs @ [y]) @ ys)" by simp
  ultimately obtain s' where "push_all push_back ys s1 = Some s'" "repr s' ((xs @ [y]) @ ys)"
    using Cons.IH by blast
  with s1 show ?case by simp
qed

lemma drain_repr:
  "repr s xs \<Longrightarrow> \<exists>s'. drain is_empty pop_front s = Some (xs, s') \<and> repr s' []"
proof (induction xs arbitrary: s)
  case Nil
  then show ?case by (subst drain.simps) (simp add: empty_law)
next
  case (Cons x xs)
  then obtain s1 where s1: "pop_front s = Some (x, s1)" "repr s1 xs"
    using pop_law by blast
  with Cons.IH obtain s' where "drain is_empty pop_front s1 = Some (xs, s')" "repr s' []"
    by blast
  with s1 Cons.prems show ?case by (subst drain.simps) (simp add: empty_law)
qed

text \<open>First in, first out: what is pushed is drained, in that order, after what was there.\<close>

lemma push_drain:
  assumes "repr s xs" "distinct (xs @ ys)"
  shows "\<exists>s1 s2. push_all push_back ys s = Some s1 \<and>
     drain is_empty pop_front s1 = Some (xs @ ys, s2) \<and> repr s2 []"
  using push_all_repr [OF assms] drain_repr by blast

end

text \<open>A container that also removes a given item from anywhere in the sequence.\<close>

locale fifo_erase = fifo repr is_empty push_back pop_front
  for repr :: "'s \<Rightarrow> 'a list \<Rightarrow> bool"
    and is_empty :: "'s \<Rightarrow> bool"
    and push_back :: "'a \<Rightarrow> 's \<Rightarrow> 's option"
    and pop_front :: "'s \<Rightarrow> ('a \<times> 's) option" +
  fixes erase :: "'a \<Rightarrow> 's \<Rightarrow> 's option"
  assumes erase_law: "repr s xs \<Longrightarrow> x \<in> set xs \<Longrightarrow>
    \<exists>s'. erase x s = Some s' \<and> repr s' (remove1 x xs)"
begin

text \<open>An erased item is never drained: a cancelled operation is not completed again.\<close>

lemma erase_drain:
  assumes "repr s xs" "x \<in> set xs" "distinct xs"
  shows "\<exists>s1 s2. erase x s = Some s1 \<and>
     drain is_empty pop_front s1 = Some (remove1 x xs, s2) \<and> x \<notin> set (remove1 x xs)"
proof -
  from assms obtain s1 where "erase x s = Some s1" "repr s1 (remove1 x xs)"
    using erase_law by blast
  moreover then obtain s2 where "drain is_empty pop_front s1 = Some (remove1 x xs, s2)"
    using drain_repr by blast
  moreover from assms have "x \<notin> set (remove1 x xs)" by simp
  ultimately show ?thesis by blast
qed

text \<open>Pushing and erasing an item at the end leaves the sequence as it was.\<close>

lemma push_erase:
  assumes "repr s xs" "x \<notin> set xs"
  shows "\<exists>s1 s2. push_back x s = Some s1 \<and> erase x s1 = Some s2 \<and> repr s2 xs"
proof -
  from assms obtain s1 where s1: "push_back x s = Some s1" "repr s1 (xs @ [x])"
    using push_law by blast
  then obtain s2 where "erase x s1 = Some s2" "repr s2 (remove1 x (xs @ [x]))"
    using erase_law by fastforce
  with s1 assms show ?thesis by (auto simp: remove1_append)
qed

end

end
