(* ===== verification/Intrusive_Queue.thy ===== *)
theory Intrusive_Queue
  imports Fifo_Interface
begin

text \<open>
  The singly linked queue of \<^verbatim>\<open>intrusive_queue.hpp\<close>. An item is identified by its address; the
  link field \<^verbatim>\<open>Item::*Next\<close> of all items is one map from addresses to pointers, since the links
  live in the items and not in the queue. A queue operation takes and returns that map together
  with the queue's two fields, and is \<open>None\<close> where the code dereferences a null pointer.
\<close>

subsection \<open>State\<close>

type_synonym 'a links = "'a \<Rightarrow> 'a ptr"

record 'a iqueue =
  q_head :: "'a ptr"
  q_tail :: "'a ptr"

definition iq_init :: "'a iqueue" where
  "iq_init = \<lparr>q_head = None, q_tail = None\<rparr>"

text \<open>
  The move constructor exchanges both fields of the source with null: the result is the new
  queue and what is left of the old one. Move assignment swaps with a by-value argument.
\<close>

definition iq_move :: "'a iqueue \<Rightarrow> 'a iqueue \<times> 'a iqueue" where
  "iq_move other =
     (\<lparr>q_head = q_head other, q_tail = q_tail other\<rparr>, other\<lparr>q_head := None, q_tail := None\<rparr>)"

definition iq_assign :: "'a iqueue \<Rightarrow> 'a iqueue \<Rightarrow> 'a iqueue" where
  "iq_assign this other = this\<lparr>q_head := q_head other, q_tail := q_tail other\<rparr>"

subsection \<open>Operations\<close>

definition iq_empty :: "'a iqueue \<Rightarrow> bool" where
  "iq_empty q \<longleftrightarrow> q_head q = None"

definition iq_front :: "'a iqueue \<Rightarrow> 'a ptr" where
  "iq_front q = q_head q"

definition iq_pop_front :: "'a links \<times> 'a iqueue \<Rightarrow> ('a \<times> 'a links \<times> 'a iqueue) option" where
  "iq_pop_front s = (case s of (nxt, q) \<Rightarrow> do {
     item \<leftarrow> q_head q;
     let q1 = q\<lparr>q_head := nxt item\<rparr>;
     let q2 = (if nxt item = None then q1\<lparr>q_tail := None\<rparr> else q1);
     Some (item, nxt, q2)
   })"

definition iq_push_front :: "'a \<Rightarrow> 'a links \<times> 'a iqueue \<Rightarrow> ('a links \<times> 'a iqueue) option" where
  "iq_push_front item s = (case s of (nxt, q) \<Rightarrow>
     let nxt1 = nxt(item := q_head q);
         q1 = q\<lparr>q_head := Some item\<rparr>;
         q2 = (if q_tail q1 = None then q1\<lparr>q_tail := Some item\<rparr> else q1)
     in Some (nxt1, q2))"

definition iq_push_back :: "'a \<Rightarrow> 'a links \<times> 'a iqueue \<Rightarrow> ('a links \<times> 'a iqueue) option" where
  "iq_push_back item s = (case s of (nxt, q) \<Rightarrow>
     let nxt1 = nxt(item := None);
         (nxt2, q1) = (case q_tail q of
             None \<Rightarrow> (nxt1, q\<lparr>q_head := Some item\<rparr>)
           | Some t \<Rightarrow> (nxt1(t := Some item), q))
     in Some (nxt2, q1\<lparr>q_tail := Some item\<rparr>))"

text \<open>
  \<^verbatim>\<open>append\<close> and \<^verbatim>\<open>prepend\<close> take the other queue by value, so what happens to it after its two
  fields have been read is not visible to the caller.
\<close>

definition iq_append :: "'a iqueue \<Rightarrow> 'a links \<times> 'a iqueue \<Rightarrow> ('a links \<times> 'a iqueue) option" where
  "iq_append other s = (case s of (nxt, q) \<Rightarrow>
     if iq_empty other then Some (nxt, q)
     else do {
       (nxt1, q1) \<leftarrow>
         (if iq_empty q then Some (nxt, q\<lparr>q_head := q_head other\<rparr>)
          else do { t \<leftarrow> q_tail q; Some (nxt(t := q_head other), q) });
       Some (nxt1, q1\<lparr>q_tail := q_tail other\<rparr>)
     })"

definition iq_prepend :: "'a iqueue \<Rightarrow> 'a links \<times> 'a iqueue \<Rightarrow> ('a links \<times> 'a iqueue) option" where
  "iq_prepend other s = (case s of (nxt, q) \<Rightarrow>
     if iq_empty other then Some (nxt, q)
     else do {
       ot \<leftarrow> q_tail other;
       let nxt1 = nxt(ot := q_head q);
       let q1 = q\<lparr>q_head := q_head other\<rparr>;
       Some (nxt1, if q_tail q1 = None then q1\<lparr>q_tail := q_tail other\<rparr> else q1)
     })"

text \<open>
  \<^verbatim>\<open>make_reversed\<close> walks a null-terminated chain and turns its links around. The walk need not
  end on a cyclic chain, so the loop is a partial function.
\<close>

partial_function (option) reverse_loop ::
  "'a links \<Rightarrow> 'a ptr \<Rightarrow> 'a ptr \<Rightarrow> ('a links \<times> 'a ptr) option" where
  "reverse_loop nxt list new_head =
     (case list of
        None \<Rightarrow> Some (nxt, new_head)
      | Some x \<Rightarrow> reverse_loop (nxt(x := new_head)) (nxt x) (Some x))"

definition iq_make_reversed :: "'a links \<Rightarrow> 'a ptr \<Rightarrow> ('a links \<times> 'a iqueue) option" where
  "iq_make_reversed nxt list = do {
     (nxt1, new_head) \<leftarrow> reverse_loop nxt list None;
     Some (nxt1, \<lparr>q_head = new_head, q_tail = list\<rparr>)
   }"

subsection \<open>Abstraction: the list of items reached from a pointer\<close>

fun chain :: "'a links \<Rightarrow> 'a ptr \<Rightarrow> 'a list \<Rightarrow> bool" where
  "chain nxt p [] \<longleftrightarrow> p = None"
| "chain nxt p (x # xs) \<longleftrightarrow> p = Some x \<and> chain nxt (nxt x) xs"

text \<open>A segment ends at a given pointer instead of null.\<close>

fun segment :: "'a links \<Rightarrow> 'a ptr \<Rightarrow> 'a list \<Rightarrow> 'a ptr \<Rightarrow> bool" where
  "segment nxt p [] e \<longleftrightarrow> p = e"
| "segment nxt p (x # xs) e \<longleftrightarrow> p = Some x \<and> segment nxt (nxt x) xs e"

lemma chain_segment: "chain nxt p xs \<longleftrightarrow> segment nxt p xs None"
  by (induction xs arbitrary: p) auto

lemma segment_append [ptr_simps]:
  "segment nxt p (xs @ ys) e \<longleftrightarrow> (\<exists>m. segment nxt p xs m \<and> segment nxt m ys e)"
  by (induction xs arbitrary: p) auto

lemma segment_upd [simp]:
  "x \<notin> set xs \<Longrightarrow> segment (nxt(x := v)) p xs e \<longleftrightarrow> segment nxt p xs e"
  by (induction xs arbitrary: p) auto

lemma chain_upd [simp]: "x \<notin> set xs \<Longrightarrow> chain (nxt(x := v)) p xs \<longleftrightarrow> chain nxt p xs"
  by (simp add: chain_segment)

lemma segment_cong:
  "\<forall>x\<in>set xs. nxt x = nxt' x \<Longrightarrow> segment nxt p xs e \<longleftrightarrow> segment nxt' p xs e"
  by (induction xs arbitrary: p) auto

lemma chain_None [simp]: "chain nxt None xs \<longleftrightarrow> xs = []"
  by (cases xs) auto

lemma chain_Some: "chain nxt (Some x) xs \<longleftrightarrow> (\<exists>ys. xs = x # ys \<and> chain nxt (nxt x) ys)"
  by (cases xs) auto

lemma chain_hd: "chain nxt p xs \<Longrightarrow> p = hd_ptr xs"
  by (cases xs) auto

lemma chain_snoc:
  "chain nxt p (xs @ [x]) \<longleftrightarrow> segment nxt p xs (Some x) \<and> nxt x = None"
  by (auto simp: chain_segment ptr_simps)

lemma chain_link:
  assumes "chain nxt p (xs @ [x])" "distinct (xs @ [x])" "set ys \<inter> set (xs @ [x]) = {}"
    "chain nxt q ys"
  shows "chain (nxt(x := q)) p (xs @ x # ys)"
proof -
  have "x \<notin> set ys" using assms(3) by auto
  with assms show ?thesis
    by (auto simp: chain_segment ptr_simps)
qed

definition queue_repr :: "'a links \<times> 'a iqueue \<Rightarrow> 'a list \<Rightarrow> bool" where
  "queue_repr s xs \<longleftrightarrow>
     chain (fst s) (q_head (snd s)) xs \<and> q_tail (snd s) = last_ptr xs \<and> distinct xs"

lemma queue_repr_init: "queue_repr (nxt, iq_init) []"
  by (simp add: queue_repr_def iq_init_def)

lemma queue_repr_move: "queue_repr (nxt, fst (iq_move q)) xs \<longleftrightarrow> queue_repr (nxt, q) xs"
  by (simp add: queue_repr_def iq_move_def)

lemma queue_repr_assign: "queue_repr (nxt, iq_assign this q) xs \<longleftrightarrow> queue_repr (nxt, q) xs"
  by (simp add: queue_repr_def iq_assign_def)

lemma iq_empty_repr: "queue_repr s xs \<Longrightarrow> iq_empty (snd s) \<longleftrightarrow> xs = []"
  by (cases xs) (auto simp: queue_repr_def iq_empty_def)

lemma iq_front_repr: "queue_repr s xs \<Longrightarrow> iq_front (snd s) = hd_ptr xs"
  by (auto simp: queue_repr_def iq_front_def dest: chain_hd)


subsection \<open>Every operation implements its list operation\<close>

lemma iq_pop_front_repr:
  assumes "queue_repr s (x # xs)"
  shows "\<exists>s'. iq_pop_front s = Some (x, s') \<and> queue_repr s' xs"
proof (cases s)
  case (Pair nxt q)
  with assms show ?thesis
    by (cases xs)
      (auto simp: queue_repr_def iq_pop_front_def Let_def last_ptr_Cons chain_Some)
qed

lemma iq_pop_front_null: "q_head q = None \<Longrightarrow> iq_pop_front (nxt, q) = None"
  by (simp add: iq_pop_front_def)

lemma iq_push_front_repr:
  assumes "queue_repr s xs" "x \<notin> set xs"
  shows "\<exists>s'. iq_push_front x s = Some s' \<and> queue_repr s' (x # xs)"
proof (cases s)
  case (Pair nxt q)
  with assms show ?thesis
    by (auto simp: queue_repr_def iq_push_front_def Let_def last_ptr_Cons)
qed

lemma iq_push_back_repr:
  assumes "queue_repr s xs" "x \<notin> set xs"
  shows "\<exists>s'. iq_push_back x s = Some s' \<and> queue_repr s' (xs @ [x])"
proof (cases s)
  case (Pair nxt q)
  show ?thesis
  proof (cases xs rule: rev_cases)
    case Nil
    with assms Pair show ?thesis
      by (auto simp: queue_repr_def iq_push_back_def Let_def)
  next
    case (snoc ys y)
    with assms Pair show ?thesis
      by (auto simp: queue_repr_def iq_push_back_def Let_def chain_segment ptr_simps last_ptr_append)
  qed
qed

lemma iq_append_repr:
  assumes "queue_repr (nxt, q) xs" "queue_repr (nxt, other) ys" "set xs \<inter> set ys = {}"
  shows "\<exists>s'. iq_append other (nxt, q) = Some s' \<and> queue_repr s' (xs @ ys)"
proof (cases xs rule: rev_cases)
  case Nil
  with assms show ?thesis
    by (cases ys) (auto simp: queue_repr_def iq_append_def iq_empty_def)
next
  case (snoc zs z)
  show ?thesis
  proof (cases "ys = []")
    case True
    with assms show ?thesis
      by (auto simp: queue_repr_def iq_append_def iq_empty_def)
  next
    case False
    with assms snoc have *: "chain nxt (q_head q) (zs @ [z])" "distinct (zs @ [z])"
      "set ys \<inter> set (zs @ [z]) = {}" "chain nxt (q_head other) ys" "q_tail q = Some z"
      "q_head other \<noteq> None" "q_head q \<noteq> None"
      by (auto simp: queue_repr_def dest: chain_hd)
    with assms snoc False chain_link [OF *(1-4)] show ?thesis
      by (auto simp: queue_repr_def iq_append_def iq_empty_def last_ptr_append)
  qed
qed

lemma iq_prepend_repr:
  assumes "queue_repr (nxt, q) xs" "queue_repr (nxt, other) ys" "set xs \<inter> set ys = {}"
  shows "\<exists>s'. iq_prepend other (nxt, q) = Some s' \<and> queue_repr s' (ys @ xs)"
proof (cases ys rule: rev_cases)
  case Nil
  with assms show ?thesis
    by (auto simp: queue_repr_def iq_prepend_def iq_empty_def)
next
  case (snoc zs z)
  with assms have *: "chain nxt (q_head other) (zs @ [z])" "distinct (zs @ [z])"
    "set xs \<inter> set (zs @ [z]) = {}" "chain nxt (q_head q) xs" "q_tail other = Some z"
    "q_head other \<noteq> None"
    by (auto simp: queue_repr_def dest: chain_hd)
  with assms snoc chain_link [OF *(1-4)] show ?thesis
    by (auto simp: queue_repr_def iq_prepend_def iq_empty_def last_ptr_append Let_def)
qed

text \<open>
  \<^verbatim>\<open>make_reversed\<close>: on a null-terminated chain the loop returns, and the result is the queue of
  the items in reverse order.
\<close>

lemma reverse_loop_chain:
  assumes "chain nxt list xs" "chain nxt acc ys" "distinct xs" "set xs \<inter> set ys = {}"
  shows "\<exists>nxt' h. reverse_loop nxt list acc = Some (nxt', h) \<and> chain nxt' h (rev xs @ ys)"
  using assms
proof (induction xs arbitrary: nxt list acc ys)
  case Nil
  then show ?case by (subst reverse_loop.simps) simp
next
  case (Cons x xs)
  let ?nxt = "nxt(x := acc)"
  have "chain ?nxt (nxt x) xs" "chain ?nxt (Some x) (x # ys)" "distinct xs"
    "set xs \<inter> set (x # ys) = {}"
    using Cons.prems by auto
  then obtain nxt' h where "reverse_loop ?nxt (nxt x) (Some x) = Some (nxt', h)"
    "chain nxt' h (rev xs @ x # ys)"
    using Cons.IH by blast
  with Cons.prems show ?case by (subst reverse_loop.simps) simp
qed

lemma iq_make_reversed_repr:
  assumes "chain nxt list xs" "distinct xs"
  shows "\<exists>s'. iq_make_reversed nxt list = Some s' \<and> queue_repr s' (rev xs)"
proof -
  obtain nxt' h where "reverse_loop nxt list None = Some (nxt', h)" "chain nxt' h (rev xs @ [])"
    using reverse_loop_chain [OF assms(1), of None "[]"] assms(2) by auto
  with assms show ?thesis
    by (cases xs) (auto simp: iq_make_reversed_def queue_repr_def last_ptr_def dest: chain_hd)
qed

text \<open>The queue provides the first-in first-out interface.\<close>

interpretation iq: fifo queue_repr "\<lambda>s. iq_empty (snd s)" iq_push_back iq_pop_front
  by unfold_locales (rule iq_empty_repr iq_push_back_repr iq_pop_front_repr; assumption)+

subsection \<open>What a user of the queue sees\<close>

text \<open>C23 (queue). Draining a queue gives its items in order, after items were pushed at the back in the order they were
  pushed; after another queue was appended or prepended, the items of the one after those of the
  other; and the queue made of a reversed chain gives them in reverse order.\<close>

theorem queue_operations:
  assumes "queue_repr (nxt, q) xs" "queue_repr (nxt, other) ys" "set xs \<inter> set ys = {}" "distinct (xs @ zs)"
  shows "(\<exists>s s'. push_all iq_push_back zs (nxt, q) = Some s \<and>
      drain (\<lambda>s. iq_empty (snd s)) iq_pop_front s = Some (xs @ zs, s')) \<and>
    (\<exists>s s'. iq_append other (nxt, q) = Some s \<and>
      drain (\<lambda>s. iq_empty (snd s)) iq_pop_front s = Some (xs @ ys, s')) \<and>
    (\<exists>s s'. iq_prepend other (nxt, q) = Some s \<and>
      drain (\<lambda>s. iq_empty (snd s)) iq_pop_front s = Some (ys @ xs, s')) \<and>
    (\<exists>s s'. iq_make_reversed nxt (q_head q) = Some s \<and>
      drain (\<lambda>s. iq_empty (snd s)) iq_pop_front s = Some (rev xs, s'))"
proof (intro conjI)
  show "\<exists>s s'. push_all iq_push_back zs (nxt, q) = Some s \<and>
      drain (\<lambda>s. iq_empty (snd s)) iq_pop_front s = Some (xs @ zs, s')"
    using iq.push_drain [OF assms(1,4)] by blast
  show "\<exists>s s'. iq_append other (nxt, q) = Some s \<and>
      drain (\<lambda>s. iq_empty (snd s)) iq_pop_front s = Some (xs @ ys, s')"
    using iq_append_repr [OF assms(1-3)] iq.drain_repr by blast
  show "\<exists>s s'. iq_prepend other (nxt, q) = Some s \<and>
      drain (\<lambda>s. iq_empty (snd s)) iq_pop_front s = Some (ys @ xs, s')"
    using iq_prepend_repr [OF assms(1-3)] iq.drain_repr by blast
  have "chain nxt (q_head q) xs" "distinct xs" using assms(1) by (simp_all add: queue_repr_def)
  from iq_make_reversed_repr [OF this] show "\<exists>s s'. iq_make_reversed nxt (q_head q) = Some s \<and>
      drain (\<lambda>s. iq_empty (snd s)) iq_pop_front s = Some (rev xs, s')"
    using iq.drain_repr by blast
qed

theorem queue_operations_witness:
  "\<exists>s s'. push_all iq_push_back [1, 2, 3 :: nat] (\<lambda>_. None, iq_init) = Some s \<and>
     drain (\<lambda>s. iq_empty (snd s)) iq_pop_front s = Some ([1, 2, 3], s')"
  using queue_operations [OF queue_repr_init [of "\<lambda>_. None"] queue_repr_init, of "[1, 2, 3 :: nat]"] by simp

end
