(* ===== verification/Intrusive_List.thy ===== *)
theory Intrusive_List
  imports Intrusive_Queue
begin

text \<open>
  The doubly linked list of \<^verbatim>\<open>intrusive_list.hpp\<close>, as \<open>Intrusive_Queue\<close> models the singly linked
  queue: the \<^verbatim>\<open>Next\<close> and \<^verbatim>\<open>Prev\<close> fields of all items are two maps, a list is its two fields, and
  an operation is \<open>None\<close> where the code dereferences a null pointer.
\<close>

subsection \<open>State\<close>

record 'a dlinks =
  nxt_of :: "'a links"
  prv_of :: "'a links"

record 'a ilist =
  l_head :: "'a ptr"
  l_tail :: "'a ptr"

type_synonym 'a lstate = "'a dlinks \<times> 'a ilist"

definition il_init :: "'a ilist" where
  "il_init = \<lparr>l_head = None, l_tail = None\<rparr>"

definition set_nxt :: "'a \<Rightarrow> 'a ptr \<Rightarrow> 'a dlinks \<Rightarrow> 'a dlinks" where
  "set_nxt x v h = h\<lparr>nxt_of := (nxt_of h)(x := v)\<rparr>"

definition set_prv :: "'a \<Rightarrow> 'a ptr \<Rightarrow> 'a dlinks \<Rightarrow> 'a dlinks" where
  "set_prv x v h = h\<lparr>prv_of := (prv_of h)(x := v)\<rparr>"

lemma set_links_simps [simp]:
  "nxt_of (set_nxt x v h) = (nxt_of h)(x := v)" "prv_of (set_nxt x v h) = prv_of h"
  "nxt_of (set_prv x v h) = nxt_of h" "prv_of (set_prv x v h) = (prv_of h)(x := v)"
  by (simp_all add: set_nxt_def set_prv_def)

subsection \<open>Operations\<close>

definition il_move :: "'a ilist \<Rightarrow> 'a ilist \<times> 'a ilist" where
  "il_move other =
     (\<lparr>l_head = l_head other, l_tail = l_tail other\<rparr>, other\<lparr>l_head := None, l_tail := None\<rparr>)"

definition il_assign :: "'a ilist \<Rightarrow> 'a ilist \<Rightarrow> 'a ilist" where
  "il_assign this other = this\<lparr>l_head := l_head other, l_tail := l_tail other\<rparr>"

definition il_empty :: "'a ilist \<Rightarrow> bool" where
  "il_empty l \<longleftrightarrow> l_head l = None"

definition il_front :: "'a ilist \<Rightarrow> 'a ptr" where
  "il_front l = l_head l"

definition il_pop_front :: "'a lstate \<Rightarrow> ('a \<times> 'a lstate) option" where
  "il_pop_front s = (case s of (h, l) \<Rightarrow> do {
     item \<leftarrow> l_head l;
     let l1 = l\<lparr>l_head := nxt_of h item\<rparr>;
     Some (item, case nxt_of h item of
         None \<Rightarrow> (h, l1\<lparr>l_tail := None\<rparr>)
       | Some n \<Rightarrow> (set_prv n None h, l1))
   })"

text \<open>
  \<^verbatim>\<open>push_front\<close> sets a back link only where the list was empty, and through the link of the new
  head, which is then null.
\<close>

definition il_push_front :: "'a \<Rightarrow> 'a lstate \<Rightarrow> 'a lstate option" where
  "il_push_front item s = (case s of (h, l) \<Rightarrow>
     let h1 = set_nxt item (l_head l) h;
         l1 = l\<lparr>l_head := Some item\<rparr>
     in case l_tail l1 of
          Some t \<Rightarrow> Some (h1, l1)
        | None \<Rightarrow> do {
            let l2 = l1\<lparr>l_tail := Some item\<rparr>;
            hd \<leftarrow> l_head l2;
            n \<leftarrow> nxt_of h1 hd;
            Some (set_prv n (l_head l2) h1, l2)
          })"

definition il_push_back :: "'a \<Rightarrow> 'a lstate \<Rightarrow> 'a lstate option" where
  "il_push_back item s = (case s of (h, l) \<Rightarrow>
     let h1 = set_prv item (l_tail l) (set_nxt item None h);
         (h2, l1) = (case l_tail l of
             None \<Rightarrow> (h1, l\<lparr>l_head := Some item\<rparr>)
           | Some t \<Rightarrow> (set_nxt t (Some item) h1, l))
     in Some (h2, l1\<lparr>l_tail := Some item\<rparr>))"

definition il_erase :: "'a \<Rightarrow> 'a lstate \<Rightarrow> 'a lstate option" where
  "il_erase item s = (case s of (h, l) \<Rightarrow>
     let (h1, l1) = (case prv_of h item of
             None \<Rightarrow> (h, l\<lparr>l_head := nxt_of h item\<rparr>)
           | Some p \<Rightarrow> (set_nxt p (nxt_of h item) h, l));
         (h2, l2) = (case nxt_of h1 item of
             None \<Rightarrow> (h1, l1\<lparr>l_tail := prv_of h1 item\<rparr>)
           | Some n \<Rightarrow> (set_prv n (prv_of h1 item) h1, l1))
     in Some (h2, l2))"

definition il_append :: "'a ilist \<Rightarrow> 'a lstate \<Rightarrow> 'a lstate option" where
  "il_append other s = (case s of (h, l) \<Rightarrow>
     if il_empty other then Some (h, l)
     else do {
       (h1, l1) \<leftarrow>
         (if il_empty l then Some (h, l\<lparr>l_head := l_head other\<rparr>)
          else do { t \<leftarrow> l_tail l; Some (set_nxt t (l_head other) h, l) });
       Some (h1, l1\<lparr>l_tail := l_tail other\<rparr>)
     })"

definition il_prepend :: "'a ilist \<Rightarrow> 'a lstate \<Rightarrow> 'a lstate option" where
  "il_prepend other s = (case s of (h, l) \<Rightarrow>
     if il_empty other then Some (h, l)
     else do {
       ot \<leftarrow> l_tail other;
       let h1 = set_nxt ot (l_head l) h;
       let l1 = l\<lparr>l_head := l_head other\<rparr>;
       Some (h1, if l_tail l1 = None then l1\<lparr>l_tail := l_tail other\<rparr> else l1)
     })"

text \<open>
  The forward iterator: \<^verbatim>\<open>begin\<close> points at the head, \<^verbatim>\<open>end\<close> is null, and increment reads the
  link of the current item. \<open>il_elements\<close> is what a range-based \<^verbatim>\<open>for\<close> visits.
\<close>

definition it_begin :: "'a ilist \<Rightarrow> 'a ptr" where
  "it_begin l = l_head l"

definition it_end :: "'a ilist \<Rightarrow> 'a ptr" where
  "it_end l = None"

definition it_incr :: "'a dlinks \<Rightarrow> 'a ptr \<Rightarrow> 'a ptr option" where
  "it_incr h it = do { item \<leftarrow> it; Some (nxt_of h item) }"

partial_function (option) elements_from :: "'a dlinks \<Rightarrow> 'a ptr \<Rightarrow> 'a ptr \<Rightarrow> 'a list option" where
  "elements_from h it e =
     (if it = e then Some []
      else do { x \<leftarrow> it; it1 \<leftarrow> it_incr h it; xs \<leftarrow> elements_from h it1 e; Some (x # xs) })"

definition il_elements :: "'a lstate \<Rightarrow> 'a list option" where
  "il_elements s = elements_from (fst s) (it_begin (snd s)) (it_end (snd s))"

subsection \<open>Well-formed lists\<close>

fun backlinks :: "'a links \<Rightarrow> 'a ptr \<Rightarrow> 'a list \<Rightarrow> bool" where
  "backlinks prv p [] \<longleftrightarrow> True"
| "backlinks prv p (x # xs) \<longleftrightarrow> prv x = p \<and> backlinks prv (Some x) xs"

definition fwd_repr :: "'a lstate \<Rightarrow> 'a list \<Rightarrow> bool" where
  "fwd_repr s xs \<longleftrightarrow>
     chain (nxt_of (fst s)) (l_head (snd s)) xs \<and> l_tail (snd s) = last_ptr xs \<and> distinct xs"

definition list_repr :: "'a lstate \<Rightarrow> 'a list \<Rightarrow> bool" where
  "list_repr s xs \<longleftrightarrow> fwd_repr s xs \<and> backlinks (prv_of (fst s)) None xs"

lemma backlinks_append [ptr_simps]:
  "backlinks prv p (xs @ ys) \<longleftrightarrow>
     backlinks prv p xs \<and> backlinks prv (if xs = [] then p else Some (last xs)) ys"
  by (induction xs arbitrary: p) auto

lemma backlinks_upd [simp]:
  "x \<notin> set xs \<Longrightarrow> backlinks (prv(x := v)) p xs \<longleftrightarrow> backlinks prv p xs"
  by (induction xs arbitrary: p) auto

lemma backlinks_cong:
  "\<forall>x\<in>set xs. prv x = prv' x \<Longrightarrow> backlinks prv p xs \<longleftrightarrow> backlinks prv' p xs"
  by (induction xs arbitrary: p) auto

lemma list_repr_init: "list_repr (h, il_init) []"
  by (simp add: list_repr_def fwd_repr_def il_init_def)

lemma list_repr_distinct: "list_repr s xs \<Longrightarrow> distinct xs"
  by (simp add: list_repr_def fwd_repr_def)

lemma list_repr_move: "list_repr (h, fst (il_move l)) xs \<longleftrightarrow> list_repr (h, l) xs"
  by (simp add: list_repr_def fwd_repr_def il_move_def)

lemma list_repr_assign: "list_repr (h, il_assign this l) xs \<longleftrightarrow> list_repr (h, l) xs"
  by (simp add: list_repr_def fwd_repr_def il_assign_def)

lemma il_empty_repr: "list_repr s xs \<Longrightarrow> il_empty (snd s) \<longleftrightarrow> xs = []"
  by (cases xs) (auto simp: list_repr_def fwd_repr_def il_empty_def)

lemma il_front_repr: "list_repr s xs \<Longrightarrow> il_front (snd s) = hd_ptr xs"
  by (auto simp: list_repr_def fwd_repr_def il_front_def dest: chain_hd)

text \<open>A list depends only on the links of its own items.\<close>

definition same_links :: "'a dlinks \<Rightarrow> 'a dlinks \<Rightarrow> 'a set \<Rightarrow> bool" where
  "same_links h h' A \<longleftrightarrow> (\<forall>x\<in>A. nxt_of h' x = nxt_of h x \<and> prv_of h' x = prv_of h x)"

lemma list_repr_frame:
  assumes "same_links h h' (set xs)"
  shows "list_repr (h', l) xs \<longleftrightarrow> list_repr (h, l) xs"
proof -
  have "segment (nxt_of h') (l_head l) xs None \<longleftrightarrow> segment (nxt_of h) (l_head l) xs None"
    using assms by (intro segment_cong) (auto simp: same_links_def)
  moreover have "backlinks (prv_of h') None xs \<longleftrightarrow> backlinks (prv_of h) None xs"
    using assms by (intro backlinks_cong) (auto simp: same_links_def)
  ultimately show ?thesis
    by (simp add: list_repr_def fwd_repr_def chain_segment)
qed


subsection \<open>Operations that keep the list well formed\<close>

lemmas list_repr_defs = list_repr_def fwd_repr_def chain_segment

lemma il_pop_front_repr:
  assumes "list_repr s (x # xs)"
  shows "\<exists>s'. il_pop_front s = Some (x, s') \<and> list_repr s' xs"
proof (cases s)
  case (Pair h l)
  show ?thesis
  proof (cases xs)
    case Nil
    with assms Pair show ?thesis
      by (auto simp: list_repr_defs il_pop_front_def Let_def)
  next
    case (Cons y ys)
    with assms Pair show ?thesis
      by (auto simp: list_repr_defs il_pop_front_def Let_def)
  qed
qed

lemma il_pop_front_null: "l_head l = None \<Longrightarrow> il_pop_front (h, l) = None"
  by (simp add: il_pop_front_def)

lemma il_push_back_repr:
  assumes "list_repr s xs" "x \<notin> set xs"
  shows "\<exists>s'. il_push_back x s = Some s' \<and> list_repr s' (xs @ [x])"
proof (cases s)
  case (Pair h l)
  show ?thesis
  proof (cases xs rule: rev_cases)
    case Nil
    with assms Pair show ?thesis
      by (auto simp: list_repr_defs il_push_back_def Let_def)
  next
    case (snoc ys y)
    with assms Pair show ?thesis
      by (auto simp: list_repr_defs il_push_back_def Let_def ptr_simps last_ptr_append)
  qed
qed

lemma il_erase_split:
  assumes "list_repr s (as @ x # bs)"
  shows "\<exists>s'. il_erase x s = Some s' \<and> list_repr s' (as @ bs)"
proof (cases s)
  case (Pair h l)
  show ?thesis
  proof (cases as rule: rev_cases)
    case Nil
    with assms Pair show ?thesis
      by (cases bs) (auto simp: list_repr_defs il_erase_def Let_def)
  next
    case (snoc as' a)
    with assms Pair show ?thesis
      by (cases bs)
        (auto simp: list_repr_defs il_erase_def Let_def ptr_simps last_ptr_append)
  qed
qed

lemma il_erase_repr:
  assumes "list_repr s xs" "x \<in> set xs"
  shows "\<exists>s'. il_erase x s = Some s' \<and> list_repr s' (remove1 x xs)"
proof -
  from \<open>x \<in> set xs\<close> obtain as bs where xs: "xs = as @ x # bs" "x \<notin> set as"
    by (meson split_list_first)
  with assms il_erase_split [of s as x bs] show ?thesis
    by (simp add: remove1_append)
qed

text \<open>The list provides the interface with erasure.\<close>

interpretation il: fifo_erase list_repr "\<lambda>s. il_empty (snd s)" il_push_back il_pop_front il_erase
  by unfold_locales
    (rule il_empty_repr il_push_back_repr il_pop_front_repr il_erase_repr; assumption)+

subsection \<open>Frames: which links an operation writes\<close>

lemma il_push_back_frame:
  assumes "list_repr (h, l) xs" "il_push_back x (h, l) = Some (h', l')" "A \<inter> insert x (set xs) = {}"
  shows "same_links h h' A"
  using assms
  by (cases xs rule: rev_cases)
    (auto simp: list_repr_defs il_push_back_def Let_def same_links_def)

lemma il_pop_front_frame:
  assumes "list_repr (h, l) xs" "il_pop_front (h, l) = Some (x, h', l')" "A \<inter> set xs = {}"
  shows "same_links h h' A"
proof (cases xs)
  case Nil
  with assms show ?thesis by (simp add: list_repr_defs il_pop_front_def)
next
  case (Cons y ys)
  with assms show ?thesis
    by (cases ys) (auto simp: list_repr_defs il_pop_front_def Let_def same_links_def)
qed

lemma il_erase_frame:
  assumes "list_repr (h, l) xs" "x \<in> set xs" "il_erase x (h, l) = Some (h', l')"
    "A \<inter> set xs = {}"
  shows "same_links h h' A"
proof -
  from \<open>x \<in> set xs\<close> obtain as bs where xs: "xs = as @ x # bs"
    by (meson split_list)
  with assms show ?thesis
    by (cases as rule: rev_cases; cases bs)
      (auto simp: list_repr_defs il_erase_def Let_def same_links_def ptr_simps)
qed

subsection \<open>Operations that do not\<close>

text \<open>
  \<^verbatim>\<open>push_front\<close> on an empty list dereferences the null link of the only item. On a list that is not
  empty it, \<^verbatim>\<open>append\<close> and \<^verbatim>\<open>prepend\<close> build the right forward chain, but leave back links as they
  were, so that a later \<^verbatim>\<open>erase\<close> unlinks the wrong items.
\<close>

lemma il_push_front_empty: "list_repr s [] \<Longrightarrow> il_push_front x s = None"
  by (cases s) (auto simp: list_repr_defs il_push_front_def Let_def)

lemma il_push_front_fwd:
  assumes "fwd_repr s xs" "x \<notin> set xs" "xs \<noteq> []"
  shows "\<exists>s'. il_push_front x s = Some s' \<and> fwd_repr s' (x # xs)"
proof (cases s)
  case (Pair h l)
  from assms obtain t where "last_ptr xs = Some t" by (auto simp: last_ptr_def)
  with assms Pair show ?thesis
    by (auto simp: fwd_repr_def chain_segment il_push_front_def Let_def)
qed

lemma fwd_queue_repr: "fwd_repr (h, l) xs \<longleftrightarrow>
    queue_repr (nxt_of h, \<lparr>q_head = l_head l, q_tail = l_tail l\<rparr>) xs"
  by (simp add: fwd_repr_def queue_repr_def)

lemma il_append_fwd:
  assumes "fwd_repr (h, l) xs" "fwd_repr (h, other) ys" "set xs \<inter> set ys = {}"
  shows "\<exists>s'. il_append other (h, l) = Some s' \<and> fwd_repr s' (xs @ ys)"
  using iq_append_repr [OF assms [unfolded fwd_queue_repr]] assms
  by (fastforce simp: iq_append_def il_append_def iq_empty_def il_empty_def fwd_queue_repr
      bind_Some_iff split: if_splits)

lemma il_prepend_fwd:
  assumes "fwd_repr (h, l) xs" "fwd_repr (h, other) ys" "set xs \<inter> set ys = {}"
  shows "\<exists>s'. il_prepend other (h, l) = Some s' \<and> fwd_repr s' (ys @ xs)"
  using iq_prepend_repr [OF assms [unfolded fwd_queue_repr]] assms
  by (fastforce simp: iq_prepend_def il_prepend_def iq_empty_def il_empty_def fwd_queue_repr
      bind_Some_iff Let_def split: if_splits)

text \<open>Erasing the old first item after a \<^verbatim>\<open>push_front\<close> drops the pushed item from the list.\<close>

lemma il_push_front_nonempty:
  "l_tail l \<noteq> None \<Longrightarrow>
     il_push_front x (h, l) = Some (set_nxt x (l_head l) h, l\<lparr>l_head := Some x\<rparr>)"
  by (auto simp: il_push_front_def Let_def)

lemma il_push_front_erase:
  assumes "list_repr s (y # ys)" "x \<notin> set (y # ys)"
  shows "\<exists>s1 s2. il_push_front x s = Some s1 \<and> il_erase y s1 = Some s2 \<and> fwd_repr s2 ys"
proof (cases s)
  case (Pair h l)
  let ?h = "set_nxt x (l_head l) h" and ?l = "l\<lparr>l_head := Some x\<rparr>"
  from assms Pair have "l_tail l \<noteq> None"
    by (auto simp: list_repr_defs last_ptr_def split: if_splits)
  then have push: "il_push_front x s = Some (?h, ?l)"
    using Pair by (simp add: il_push_front_nonempty)
  from assms Pair have "\<exists>s2. il_erase y (?h, ?l) = Some s2 \<and> fwd_repr s2 ys"
    by (cases ys) (auto simp: list_repr_defs il_erase_def Let_def)
  with push show ?thesis by blast
qed

subsection \<open>Iteration\<close>

lemma elements_from_chain:
  "chain (nxt_of h) p xs \<Longrightarrow> elements_from h p None = Some xs"
proof (induction xs arbitrary: p)
  case Nil
  then show ?case by (subst elements_from.simps) simp
next
  case (Cons x xs)
  then show ?case by (subst elements_from.simps) (simp add: it_incr_def)
qed

lemma il_elements_repr: "fwd_repr s xs \<Longrightarrow> il_elements s = Some xs"
  by (simp add: il_elements_def it_begin_def it_end_def fwd_repr_def elements_from_chain)

lemma list_repr_elements: "list_repr s xs \<Longrightarrow> il_elements s = Some xs"
  by (simp add: list_repr_def il_elements_repr)

subsection \<open>What a user of the list sees\<close>

text \<open>C22 (list). A well-formed list gives its items in order, whether it is iterated or drained; pushing at the back adds
  an item, and erasing an item removes it and no other, so that it is not drained. But pushing at the
  front of an empty list dereferences a null pointer, and after it the erase of the former first item
  also loses the item that was pushed.\<close>

theorem list_operations:
  assumes "list_repr s xs" "x \<notin> set xs" "y \<in> set xs" "list_repr s0 []"
  shows "il_elements s = Some xs \<and>
    (\<exists>s'. drain (\<lambda>s. il_empty (snd s)) il_pop_front s = Some (xs, s')) \<and>
    (\<exists>s'. il_push_back x s = Some s' \<and> il_elements s' = Some (xs @ [x])) \<and>
    (\<exists>s' s''. il_erase y s = Some s' \<and> il_elements s' = Some (remove1 y xs) \<and>
      drain (\<lambda>s. il_empty (snd s)) il_pop_front s' = Some (remove1 y xs, s'') \<and> y \<notin> set (remove1 y xs)) \<and>
    il_push_front x s0 = None \<and>
    (\<exists>s1 s2. il_push_front x s = Some s1 \<and> il_erase (hd xs) s1 = Some s2 \<and> il_elements s2 = Some (tl xs))"
proof -
  have d: "distinct xs" by (rule list_repr_distinct [OF assms(1)])
  obtain s' where s': "il_erase y s = Some s'" "list_repr s' (remove1 y xs)"
    using il_erase_repr [OF assms(1,3)] by blast
  obtain s'' where "drain (\<lambda>s. il_empty (snd s)) il_pop_front s' = Some (remove1 y xs, s'')"
    using il.drain_repr [OF s'(2)] by blast
  moreover obtain z zs where "xs = z # zs" using assms(3) by (cases xs) auto
  then have "\<exists>s1 s2. il_push_front x s = Some s1 \<and> il_erase (hd xs) s1 = Some s2 \<and> il_elements s2 = Some (tl xs)"
    using il_push_front_erase [of s z zs x] assms(1,2) il_elements_repr by auto
  ultimately show ?thesis
    using s' d il.drain_repr [OF assms(1)] il_push_back_repr [OF assms(1,2)] list_repr_elements
      il_push_front_empty [OF assms(4)] assms(1) by (auto simp: list_repr_elements)
qed

theorem list_operations_witness:
  "\<exists>s1 s s'. il_push_back (1 :: nat) (\<lparr>nxt_of = (\<lambda>_. None), prv_of = (\<lambda>_. None)\<rparr>, il_init) = Some s1 \<and>
     il_push_front 2 s1 = Some s \<and> il_erase 1 s = Some s' \<and> il_elements s' = Some []"
proof -
  let ?s0 = "(\<lparr>nxt_of = (\<lambda>_. None), prv_of = (\<lambda>_. None)\<rparr>, il_init) :: nat lstate"
  obtain s1 where "il_push_back 1 ?s0 = Some s1" "list_repr s1 [1]"
    using il_push_back_repr [OF list_repr_init] by fastforce
  moreover from list_operations [OF this(2) _ _ list_repr_init [of "fst ?s0"], of 2 1] obtain s s' where
    "il_push_front 2 s1 = Some s" "il_erase 1 s = Some s'" "il_elements s' = Some []" by auto
  ultimately show ?thesis by blast
qed

end
