(* ===== verification/Memory_Pool.thy ===== *)
theory Memory_Pool
  imports Log2 Intrusive_List
begin

text \<open>
  The memory pool of \<^verbatim>\<open>memory_pool.hpp\<close> and \<^verbatim>\<open>memory_pool.cpp\<close>: 32 free lists of blocks, one
  per size class, over an upstream resource, and 32 lists of allocations that wait for a block.

  An address is a 64-bit word and null is 0. The header that precedes the storage handed out is
  kept in a map from block addresses. The upstream resource is a parameter: \<^verbatim>\<open>do_allocate\<close> and
  \<^verbatim>\<open>do_deallocate\<close> are virtual. The stop token of a receiver is read as the Boolean
  \<open>stop_requested\<close>; a stop callback that is installed after stop was requested runs inside its
  own construction. Locking a mutex that the caller already holds is undefined, so it is \<open>None\<close>.
\<close>

subsection \<open>State\<close>

record memory_block =
  mb_next :: u64
  mb_index :: u64

definition sizeof_memory_block :: u64 where
  "sizeof_memory_block = 16"

definition max_align :: u64 where
  "max_align = 16"

record ('op, 'e, 'u) pool =
  upstream :: 'u
  locked :: bool
  block_lists :: "nat \<Rightarrow> u64"
  mem :: "u64 \<Rightarrow> memory_block"
  links :: "'op dlinks"
  pending :: "nat \<Rightarrow> 'op ilist"
  op_index :: "'op \<Rightarrow> u64"
  result :: "'op \<Rightarrow> u64 + 'e"
  callback :: "'op \<Rightarrow> bool"

text \<open>A completion: which operation is completed, and how.\<close>

type_synonym ('op, 'e) completion = "'op \<times> (u64, 'e) signal"

subsection \<open>The upstream resource\<close>

text \<open>
  \<^verbatim>\<open>memory_resource::allocate\<close> calls \<^verbatim>\<open>do_allocate\<close> once for the null check and once more for the
  address it returns.
\<close>

definition resource_allocate ::
  "(u64 \<Rightarrow> u64 \<Rightarrow> 'u \<Rightarrow> u64 \<times> 'u) \<Rightarrow> u64 \<Rightarrow> u64 \<Rightarrow> 'u \<Rightarrow> u64 \<times> 'u" where
  "resource_allocate do_allocate bytes alignment u =
     (let (p, u1) = do_allocate bytes alignment u
      in if p \<noteq> 0 then do_allocate bytes alignment u1 else (0, u1))"

definition resource_deallocate ::
  "(u64 \<Rightarrow> u64 \<Rightarrow> u64 \<Rightarrow> 'u \<Rightarrow> 'u) \<Rightarrow> u64 \<Rightarrow> u64 \<Rightarrow> u64 \<Rightarrow> 'u \<Rightarrow> 'u" where
  "resource_deallocate do_deallocate p bytes alignment u = do_deallocate p bytes alignment u"

text \<open>
  The size of a block of class \<open>i\<close> is the \<^verbatim>\<open>int\<close> expression \<^verbatim>\<open>1 << (i + 1)\<close>, converted to
  \<^verbatim>\<open>size_t\<close>: undefined for a shift by 32 or more, and sign-extended.
\<close>

definition block_bytes :: "nat \<Rightarrow> u64 option" where
  "block_bytes i = (if i + 1 < 32 then Some (signed (push_bit (i + 1) 1 :: u32)) else None)"

subsection \<open>Construction\<close>

definition pool_init :: "'u \<Rightarrow> ('op, 'e, 'u) pool" where
  "pool_init u = \<lparr>
     upstream = u, locked = False, block_lists = (\<lambda>_. 0),
     mem = (\<lambda>_. \<lparr>mb_next = 0, mb_index = 0\<rparr>),
     links = \<lparr>nxt_of = (\<lambda>_. None), prv_of = (\<lambda>_. None)\<rparr>, pending = (\<lambda>_. il_init),
     op_index = (\<lambda>_. 0), result = (\<lambda>_. Inl 0), callback = (\<lambda>_. False)\<rparr>"

text \<open>
  \<^verbatim>\<open>memory_pool::allocate\<close> computes the size class and throws \<^verbatim>\<open>invalid_argument\<close> for a class the
  pool has no list for. The operation that the sender is connected to stores the class.
\<close>

datatype pool_exception = Invalid_Argument

definition pool_allocate :: "size_t \<Rightarrow> size_t \<Rightarrow> pool_exception + u64" where
  "pool_allocate sz alignment =
     (let index = log2_64 (sz + sizeof_memory_block)
      in if index < 0 \<or> index \<ge> 32 then Inl Invalid_Argument else Inr (of_int index))"

definition connect_allocate ::
  "'op \<Rightarrow> u64 \<Rightarrow> ('op, 'e, 'u) pool \<Rightarrow> ('op, 'e, 'u) pool" where
  "connect_allocate op index p =
     p\<lparr>links := set_nxt op None (set_prv op None (links p)),
       op_index := (op_index p)(op := index), result := (result p)(op := Inl 0),
       callback := (callback p)(op := False)\<rparr>"

subsection \<open>Operations\<close>

definition lock :: "('op, 'e, 'u) pool \<Rightarrow> ('op, 'e, 'u) pool option" where
  "lock p = (if locked p then None else Some (p\<lparr>locked := True\<rparr>))"

definition unlock :: "('op, 'e, 'u) pool \<Rightarrow> ('op, 'e, 'u) pool" where
  "unlock p = p\<lparr>locked := False\<rparr>"

text \<open>The stop callback of a pending allocation.\<close>

definition on_receiver_stop ::
  "'op \<Rightarrow> ('op, 'e, 'u) pool \<Rightarrow> (('op, 'e, 'u) pool \<times> ('op, 'e) completion list) option" where
  "on_receiver_stop op p = do {
     p1 \<leftarrow> lock p;
     let i = unat (op_index p1 op);
     (h, l) \<leftarrow> il_erase op (links p1, pending p1 i);
     let p2 = unlock (p1\<lparr>links := h, pending := (pending p1)(i := l)\<rparr>);
     let p3 = p2\<lparr>callback := (callback p2)(op := False)\<rparr>;
     Some (p3, [(op, Set_Stopped)])
   }"

definition emplace_callback ::
  "'op \<Rightarrow> bool \<Rightarrow> ('op, 'e, 'u) pool \<Rightarrow> (('op, 'e, 'u) pool \<times> ('op, 'e) completion list) option" where
  "emplace_callback op stop_requested p =
     (let p1 = p\<lparr>callback := (callback p)(op := True)\<rparr>
      in if stop_requested then on_receiver_stop op p1 else Some (p1, []))"

definition allocate_start ::
  "(u64 \<Rightarrow> u64 \<Rightarrow> 'u \<Rightarrow> u64 \<times> 'u) \<Rightarrow> bool \<Rightarrow> 'op \<Rightarrow> ('op, 'e, 'u) pool \<Rightarrow>
     (('op, 'e, 'u) pool \<times> ('op, 'e) completion list) option" where
  "allocate_start do_allocate stop_requested op p =
     (if \<not> op_index p op < 32 then None
      else do {
        p1 \<leftarrow> lock p;
        let i = unat (op_index p1 op);
        let block_ptr = block_lists p1 i;
        (buffer, p2) \<leftarrow>
          (if block_ptr = 0 then do {
             bytes \<leftarrow> block_bytes i;
             let (b, u) = resource_allocate do_allocate bytes max_align (upstream p1);
             Some (b, p1\<lparr>upstream := u\<rparr>)
           } else Some (block_ptr, p1));
        (if buffer = 0 then do {
           (h, l) \<leftarrow> il_push_back op (links p2, pending p2 i);
           (p3, outs) \<leftarrow> emplace_callback op stop_requested
              (p2\<lparr>links := h, pending := (pending p2)(i := l)\<rparr>);
           Some (unlock p3, outs)
         } else do {
           let p3 = (if block_ptr \<noteq> 0
              then p2\<lparr>block_lists := (block_lists p2)(i := mb_next (mem p2 buffer))\<rparr>
              else p2\<lparr>mem := (mem p2)(buffer := \<lparr>mb_next = 0, mb_index = op_index p2 op\<rparr>)\<rparr>);
           Some (unlock p3, [(op, Set_Value (buffer + sizeof_memory_block))])
         })
      })"

text \<open>The function behind \<^verbatim>\<open>complete_\<close>, called without the lock.\<close>

definition complete_op ::
  "'op \<Rightarrow> ('op, 'e, 'u) pool \<Rightarrow> ('op, 'e, 'u) pool \<times> ('op, 'e) completion list" where
  "complete_op op p =
     (p\<lparr>callback := (callback p)(op := False)\<rparr>,
      [(op, case result p op of
          Inl ptr \<Rightarrow> (if ptr \<noteq> 0 then Set_Value ptr else Set_Stopped)
        | Inr e \<Rightarrow> Set_Error e)])"

text \<open>
  \<^verbatim>\<open>reclaim_memory\<close> is one critical section, and the completion of the operation it took from
  the pending list, after the lock was released. Other threads run between the two.
\<close>

definition reclaim_locked ::
  "u64 \<Rightarrow> ('op, 'e, 'u) pool \<Rightarrow> (('op, 'e, 'u) pool \<times> 'op option) option" where
  "reclaim_locked ptr p = do {
     let blockptr = ptr - sizeof_memory_block;
     let block = mem p blockptr;
     let i = unat (mb_index block);
     (if \<not> mb_index block < 32 then None else do {
       p1 \<leftarrow> lock p;
       (if \<not> il_empty (pending p1 i) then do {
          (op, h, l) \<leftarrow> il_pop_front (links p1, pending p1 i);
          let p2 = p1\<lparr>links := h, pending := (pending p1)(i := l), result := (result p1)(op := Inl ptr)\<rparr>;
          Some (unlock p2, Some op)
        } else
          Some (unlock (p1\<lparr>
            mem := (mem p1)(blockptr := block\<lparr>mb_next := block_lists p1 i\<rparr>),
            block_lists := (block_lists p1)(i := blockptr)\<rparr>), None))
     })
   }"

definition reclaim_memory ::
  "u64 \<Rightarrow> ('op, 'e, 'u) pool \<Rightarrow> (('op, 'e, 'u) pool \<times> ('op, 'e) completion list) option" where
  "reclaim_memory ptr p =
     (if ptr = 0 then Some (p, [])
      else do {
        (p1, popped) \<leftarrow> reclaim_locked ptr p;
        Some (case popped of None \<Rightarrow> (p1, []) | Some op \<Rightarrow> complete_op op p1)
      })"

text \<open>
  \<^verbatim>\<open>deallocate_operation::start\<close>: run the destructor of the object if one was given, then reclaim
  the storage; its own receiver is completed with a value, which the result records last. The
  first list holds the addresses of the objects that were destroyed.
\<close>

definition deallocate_start ::
  "bool \<Rightarrow> u64 \<Rightarrow> ('op, 'e, 'u) pool \<Rightarrow>
     (u64 list \<times> ('op, 'e, 'u) pool \<times> ('op, 'e) completion list \<times> (unit, 'e) signal) option" where
  "deallocate_start destroy ptr p = do {
     let destroyed = (if destroy then [ptr] else []);
     (p1, outs) \<leftarrow> reclaim_memory ptr p;
     Some (destroyed, p1, outs, Set_Value ())
   }"

text \<open>The destructor returns every block of every free list to the upstream resource.\<close>

partial_function (option) release_list ::
  "(u64 \<Rightarrow> u64 \<Rightarrow> u64 \<Rightarrow> 'u \<Rightarrow> 'u) \<Rightarrow> nat \<Rightarrow> (u64 \<Rightarrow> memory_block) \<Rightarrow> u64 \<Rightarrow> 'u \<Rightarrow> 'u option" where
  "release_list do_deallocate i m ptr u =
     (if ptr = 0 then Some u
      else do {
        let next = mb_next (m ptr);
        bytes \<leftarrow> block_bytes i;
        release_list do_deallocate i m next
          (resource_deallocate do_deallocate ptr bytes max_align u)
      })"

fun release_lists ::
  "(u64 \<Rightarrow> u64 \<Rightarrow> u64 \<Rightarrow> 'u \<Rightarrow> 'u) \<Rightarrow> nat list \<Rightarrow> ('op, 'e, 'u) pool \<Rightarrow> 'u \<Rightarrow> 'u option" where
  "release_lists do_deallocate [] p u = Some u"
| "release_lists do_deallocate (i # is) p u = do {
     u1 \<leftarrow> release_list do_deallocate i (mem p) (block_lists p i) u;
     release_lists do_deallocate is p u1
   }"

definition pool_destroy ::
  "(u64 \<Rightarrow> u64 \<Rightarrow> u64 \<Rightarrow> 'u \<Rightarrow> 'u) \<Rightarrow> ('op, 'e, 'u) pool \<Rightarrow> 'u option" where
  "pool_destroy do_deallocate p = release_lists do_deallocate [0..<32] p (upstream p)"


subsection \<open>Size classes\<close>

lemma pool_allocate_class:
  assumes "2 ^ i \<le> unat sz + 16" "unat sz + 16 < 2 ^ Suc i" "i < 32"
  shows "pool_allocate sz alignment = Inr (of_nat i)"
proof -
  have "(2 :: nat) ^ Suc i \<le> 2 ^ 32" using assms(3) by (intro power_increasing) auto
  then have "unat (sz + sizeof_memory_block) = unat sz + 16"
    using assms(2) by (simp add: sizeof_memory_block_def unat_word_ariths)
  with assms(1,2) have "log2_64 (sz + sizeof_memory_block) = int i"
    by (intro log2_64_eqI) simp_all
  with assms(3) show ?thesis by (simp add: pool_allocate_def)
qed

lemma block_bytes_small:
  assumes "i < 30"
  shows "block_bytes i = Some (2 ^ Suc i)"
proof -
  have "\<forall>i \<in> set [0..<30]. block_bytes i = Some (2 ^ Suc i)" by (simp add: block_bytes_def upt_rec)
  with assms show ?thesis by simp
qed

subsection \<open>What a pool holds\<close>

text \<open>
  \<open>pool_repr p F W L\<close>: outside a critical section, the free list of class \<open>i\<close> is the list of
  blocks \<open>F i\<close>, the operations waiting for a block of class \<open>i\<close> are \<open>W i\<close>, oldest first, and
  \<open>L\<close> maps each block that is handed out to its class.
\<close>

fun free_chain :: "(u64 \<Rightarrow> memory_block) \<Rightarrow> u64 \<Rightarrow> u64 list \<Rightarrow> bool" where
  "free_chain m p [] \<longleftrightarrow> p = 0"
| "free_chain m p (b # bs) \<longleftrightarrow> p = b \<and> b \<noteq> 0 \<and> free_chain m (mb_next (m b)) bs"

lemma free_chain_upd [simp]: "b \<notin> set bs \<Longrightarrow> free_chain (m(b := v)) p bs \<longleftrightarrow> free_chain m p bs"
  by (induction bs arbitrary: p) auto

lemma free_chain_null: "free_chain m 0 bs \<longleftrightarrow> bs = []"
  by (cases bs) auto

definition blocks_ok :: "('op, 'e, 'u) pool \<Rightarrow> (nat \<Rightarrow> u64 list) \<Rightarrow> (u64 \<rightharpoonup> nat) \<Rightarrow> bool" where
  "blocks_ok p F L \<longleftrightarrow>
     (\<forall>i < 32. free_chain (mem p) (block_lists p i) (F i) \<and> distinct (F i) \<and>
        (\<forall>b \<in> set (F i). mb_index (mem p b) = of_nat i \<and> L b = None)) \<and>
     (\<forall>b i. L b = Some i \<longrightarrow> b \<noteq> 0 \<and> i < 32 \<and> mb_index (mem p b) = of_nat i)"

definition waiters_ok :: "('op, 'e, 'u) pool \<Rightarrow> (nat \<Rightarrow> 'op list) \<Rightarrow> bool" where
  "waiters_ok p W \<longleftrightarrow>
     (\<forall>i < 32. list_repr (links p, pending p i) (W i) \<and>
        (\<forall>op \<in> set (W i). op_index p op = of_nat i))"

definition pool_repr ::
  "('op, 'e, 'u) pool \<Rightarrow> (nat \<Rightarrow> u64 list) \<Rightarrow> (nat \<Rightarrow> 'op list) \<Rightarrow> (u64 \<rightharpoonup> nat) \<Rightarrow> bool" where
  "pool_repr p F W L \<longleftrightarrow>
     \<not> locked p \<and> blocks_ok p F L \<and> waiters_ok p W \<and> (\<forall>i < 32. W i \<noteq> [] \<longrightarrow> F i = [])"

lemma of_nat_index_inj: "i < 32 \<Longrightarrow> j < 32 \<Longrightarrow> (of_nat i :: u64) = of_nat j \<longleftrightarrow> i = j"
  by (auto simp: word_of_nat_eq_iff take_bit_nat_eq_self_iff take_bit_nat_eq_self)

lemma unat_of_nat_index: "i < 32 \<Longrightarrow> unat (of_nat i :: u64) = i"
  by (simp add: unat_of_nat take_bit_nat_eq_self)

lemma of_nat_index_less: "i < 32 \<Longrightarrow> (of_nat i :: u64) < 32"
  by (simp add: word_less_nat_alt unat_of_nat_index)

lemmas index_simps [simp] = of_nat_index_inj unat_of_nat_index of_nat_index_less

lemma pool_repr_init: "pool_repr (pool_init u) (\<lambda>_. []) (\<lambda>_. []) Map.empty"
  by (simp add: pool_repr_def blocks_ok_def waiters_ok_def pool_init_def list_repr_init)

lemma waiters_index: "waiters_ok p W \<Longrightarrow> i < 32 \<Longrightarrow> op \<in> set (W i) \<Longrightarrow> op_index p op = of_nat i"
  unfolding waiters_ok_def by blast

lemma waiters_list: "waiters_ok p W \<Longrightarrow> i < 32 \<Longrightarrow> list_repr (links p, pending p i) (W i)"
  unfolding waiters_ok_def by blast

lemma waiters_disjoint:
  assumes "waiters_ok p W" "i < 32" "j < 32" "i \<noteq> j"
  shows "set (W i) \<inter> set (W j) = {}"
proof (rule ccontr)
  assume "set (W i) \<inter> set (W j) \<noteq> {}"
  then obtain op where op: "op \<in> set (W i)" "op \<in> set (W j)" by blast
  have "op_index p op = of_nat i" by (rule waiters_index [OF assms(1,2) op(1)])
  moreover have "op_index p op = of_nat j" by (rule waiters_index [OF assms(1,3) op(2)])
  ultimately have "(of_nat i :: u64) = of_nat j" by (simp only:)
  with assms of_nat_index_inj show False by blast
qed

text \<open>A change of one list leaves the other 31 as they are.\<close>

lemma waiters_update:
  assumes ok: "waiters_ok p W" and i: "i < 32"
    and new: "list_repr (h, l) xs" and idx: "\<forall>op \<in> set xs. op_index p op = of_nat i"
    and frame: "\<And>A. A \<inter> (set (W i) \<union> set xs) = {} \<Longrightarrow> same_links (links p) h A"
    and q: "links q = h" "pending q = (pending p)(i := l)" "op_index q = op_index p"
  shows "waiters_ok q (W(i := xs))"
  unfolding waiters_ok_def
proof (intro allI impI)
  fix j :: nat assume j: "j < 32"
  show "list_repr (links q, pending q j) ((W(i := xs)) j) \<and>
      (\<forall>op \<in> set ((W(i := xs)) j). op_index q op = of_nat j)"
  proof (cases "j = i")
    case True
    with new idx q show ?thesis by simp
  next
    case False
    have "set (W j) \<inter> set xs = {}"
    proof (rule ccontr)
      assume "set (W j) \<inter> set xs \<noteq> {}"
      then obtain op where op: "op \<in> set (W j)" "op \<in> set xs" by blast
      have "op_index p op = of_nat j" by (rule waiters_index [OF ok j op(1)])
      moreover have "op_index p op = of_nat i" using idx op(2) by blast
      ultimately have "(of_nat i :: u64) = of_nat j" by (simp only:)
      with i j False of_nat_index_inj show False by blast
    qed
    moreover have "set (W j) \<inter> set (W i) = {}"
      using waiters_disjoint [OF ok j i False] .
    ultimately have "same_links (links p) h (set (W j))"
      by (intro frame) auto
    then have "list_repr (h, pending p j) (W j)"
      using list_repr_frame waiters_list [OF ok j] by blast
    with waiters_index [OF ok j] False q show ?thesis by simp
  qed
qed

end
