(* ===== verification/Memory_Pool_Correct.thy ===== *)
theory Memory_Pool_Correct
  imports Memory_Pool
begin

text \<open>
  What the operations of the memory pool do to the free lists, the waiting allocations and the
  blocks that are handed out.
\<close>

subsection \<open>Allocation\<close>

lemma blocks_ok_cong:
  "block_lists q = block_lists p \<Longrightarrow> mem q = mem p \<Longrightarrow> blocks_ok q F L \<longleftrightarrow> blocks_ok p F L"
  by (simp add: blocks_ok_def)

lemma waiters_ok_cong:
  "links q = links p \<Longrightarrow> pending q = pending p \<Longrightarrow> op_index q = op_index p \<Longrightarrow>
     waiters_ok q W \<longleftrightarrow> waiters_ok p W"
  by (simp add: waiters_ok_def)

lemma pool_reprD:
  assumes "pool_repr p F W L" "i < 32"
  shows "\<not> locked p" "free_chain (mem p) (block_lists p i) (F i)" "distinct (F i)"
    "list_repr (links p, pending p i) (W i)" "W i \<noteq> [] \<Longrightarrow> F i = []"
    "waiters_ok p W" "blocks_ok p F L"
  using assms by (auto simp: pool_repr_def blocks_ok_def waiters_ok_def)

lemma pool_repr_live:
  "pool_repr p F W L \<Longrightarrow> L b = Some i \<Longrightarrow> b \<noteq> 0 \<and> i < 32 \<and> mb_index (mem p b) = of_nat i"
  by (auto simp: pool_repr_def blocks_ok_def)

text \<open>A free block is on one list only.\<close>

lemma blocks_disjoint:
  assumes "blocks_ok p F L" "i < 32" "j < 32" "i \<noteq> j" "b \<in> set (F i)"
  shows "b \<notin> set (F j)"
proof
  assume b: "b \<in> set (F j)"
  have "mb_index (mem p b) = of_nat i" using assms unfolding blocks_ok_def by blast
  moreover have "mb_index (mem p b) = of_nat j" using assms b unfolding blocks_ok_def by blast
  ultimately have "(of_nat i :: u64) = of_nat j" by (simp only:)
  with assms of_nat_index_inj show False by blast
qed

lemma allocate_reuse:
  assumes repr: "pool_repr p F W L" and i: "i < 32" and op: "op_index p op = of_nat i"
    and F: "F i = b # bs"
  shows "\<exists>p'. allocate_start da stop op p = Some (p', [(op, Set_Value (b + 16))]) \<and>
    pool_repr p' (F(i := bs)) W (L(b \<mapsto> i)) \<and> upstream p' = upstream p"
proof -
  let ?p = "p\<lparr>block_lists := (block_lists p)(i := mb_next (mem p b))\<rparr>"
  from pool_reprD [OF repr i] F have b: "block_lists p i = b" "b \<noteq> 0" "\<not> locked p" by auto
  have start: "allocate_start da stop op p = Some (?p, [(op, Set_Value (b + 16))])"
    using b i op by (simp add: allocate_start_def lock_def unlock_def sizeof_memory_block_def)
  have ok: "blocks_ok p F L" using repr by (simp add: pool_repr_def)
  have "blocks_ok ?p (F(i := bs)) (L(b \<mapsto> i))"
    unfolding blocks_ok_def
  proof (intro conjI allI impI)
    fix j :: nat assume j: "j < 32"
    show "free_chain (mem ?p) (block_lists ?p j) ((F(i := bs)) j)"
      using ok j i F unfolding blocks_ok_def by (cases "j = i") force+
    show "distinct ((F(i := bs)) j)"
      using ok j i F unfolding blocks_ok_def by (cases "j = i") force+
    have nb: "b \<notin> set ((F(i := bs)) j)"
      using ok j i F blocks_disjoint [OF ok i j] unfolding blocks_ok_def by (cases "j = i") force+
    show "\<forall>c \<in> set ((F(i := bs)) j). mb_index (mem ?p c) = of_nat j \<and> (L(b \<mapsto> i)) c = None"
    proof
      fix c assume c: "c \<in> set ((F(i := bs)) j)"
      then have "c \<in> set (F j)" using F by (auto split: if_splits)
      then have "mb_index (mem p c) = of_nat j \<and> L c = None"
        using ok j unfolding blocks_ok_def by blast
      with c nb show "mb_index (mem ?p c) = of_nat j \<and> (L(b \<mapsto> i)) c = None" by auto
    qed
  next
    fix c j assume c: "(L(b \<mapsto> i)) c = Some j"
    have "mb_index (mem p b) = of_nat i" using ok i F unfolding blocks_ok_def by force
    with c ok i b show "c \<noteq> 0" "j < 32" "mb_index (mem ?p c) = of_nat j"
      unfolding blocks_ok_def by (auto split: if_splits)
  qed
  moreover have "waiters_ok ?p W"
    using repr by (simp add: pool_repr_def waiters_ok_def)
  ultimately have "pool_repr ?p (F(i := bs)) W (L(b \<mapsto> i))"
    using repr F i by (auto simp: pool_repr_def)
  with start show ?thesis by auto
qed

lemma allocate_fresh:
  assumes repr: "pool_repr p F W L" and i: "i < 31" and op: "op_index p op = of_nat i"
    and F: "F i = []" and up: "resource_allocate da n 16 (upstream p) = (b, u)"
    and bytes: "block_bytes i = Some n"
    and b: "b \<noteq> 0" "L b = None" "\<forall>j < 32. b \<notin> set (F j)"
  shows "\<exists>p'. allocate_start da stop op p = Some (p', [(op, Set_Value (b + 16))]) \<and>
    pool_repr p' F W (L(b \<mapsto> i)) \<and> upstream p' = u"
proof -
  let ?p = "p\<lparr>upstream := u, mem := (mem p)(b := \<lparr>mb_next = 0, mb_index = of_nat i\<rparr>)\<rparr>"
  from i have i32: "i < 32" by simp
  from pool_reprD [OF repr i32] F have e: "block_lists p i = 0" "\<not> locked p" by auto
  have start: "allocate_start da stop op p = Some (?p, [(op, Set_Value (b + 16))])"
    using e i32 op up b bytes
    by (simp add: allocate_start_def lock_def unlock_def sizeof_memory_block_def max_align_def)
  have ok: "blocks_ok p F L" using repr by (simp add: pool_repr_def)
  have "blocks_ok ?p F (L(b \<mapsto> i))"
    unfolding blocks_ok_def
  proof (intro conjI allI impI)
    fix j :: nat assume j: "j < 32"
    show "free_chain (mem ?p) (block_lists ?p j) (F j)" "distinct (F j)"
      using ok j b unfolding blocks_ok_def by auto
    show "\<forall>c \<in> set (F j). mb_index (mem ?p c) = of_nat j \<and> (L(b \<mapsto> i)) c = None"
      using ok j b unfolding blocks_ok_def by auto
  next
    fix c j assume "(L(b \<mapsto> i)) c = Some j"
    with ok i b show "c \<noteq> 0" "j < 32" "mb_index (mem ?p c) = of_nat j"
      unfolding blocks_ok_def by (auto split: if_splits)
  qed
  moreover have "waiters_ok ?p W"
    using repr by (simp add: pool_repr_def waiters_ok_def)
  ultimately have "pool_repr ?p F W (L(b \<mapsto> i))"
    using repr F by (auto simp: pool_repr_def)
  with start show ?thesis by auto
qed

lemma allocate_wait:
  assumes repr: "pool_repr p F W L" and i: "i < 31" and op: "op_index p op = of_nat i"
    and F: "F i = []" and up: "resource_allocate da n 16 (upstream p) = (0, u)"
    and bytes: "block_bytes i = Some n" and new: "\<forall>j < 32. op \<notin> set (W j)"
  shows "\<exists>p'. allocate_start da False op p = Some (p', []) \<and>
    pool_repr p' F (W(i := W i @ [op])) L \<and> upstream p' = u \<and> callback p' op"
    and "allocate_start da True op p = None"
proof -
  from i have i32: "i < 32" by simp
  note r = pool_reprD [OF repr i32]
  have e: "block_lists p i = 0" "\<not> locked p" using r F by auto
  obtain h l where push: "il_push_back op (links p, pending p i) = Some (h, l)"
    and new_repr: "list_repr (h, l) (W i @ [op])"
    using il_push_back_repr [OF r(4)] new i32 by fastforce
  let ?p = "p\<lparr>upstream := u, links := h, pending := (pending p)(i := l),
    callback := (callback p)(op := True)\<rparr>"
  have "allocate_start da False op p = Some (?p, [])"
    using e i32 op up bytes push
    by (simp add: allocate_start_def lock_def unlock_def sizeof_memory_block_def max_align_def
        emplace_callback_def)
  moreover have "waiters_ok ?p (W(i := W i @ [op]))"
  proof (rule waiters_update [OF r(6) i32 new_repr])
    show "\<forall>a \<in> set (W i @ [op]). op_index p a = of_nat i"
      using waiters_index [OF r(6) i32] op by auto
    show "same_links (links p) h A" if "A \<inter> (set (W i) \<union> set (W i @ [op])) = {}" for A
      by (rule il_push_back_frame [OF r(4) push]) (use that in auto)
  qed simp_all
  moreover have "blocks_ok ?p F L" using r(7) by (simp add: blocks_ok_def)
  ultimately show "\<exists>p'. allocate_start da False op p = Some (p', []) \<and>
      pool_repr p' F (W(i := W i @ [op])) L \<and> upstream p' = u \<and> callback p' op"
    using repr F by (auto simp: pool_repr_def)
  show "allocate_start da True op p = None"
    using e i32 op up bytes push
    by (simp add: allocate_start_def lock_def unlock_def sizeof_memory_block_def max_align_def
        emplace_callback_def on_receiver_stop_def)
qed

subsection \<open>Stopping\<close>

lemma stop_waiting:
  assumes repr: "pool_repr p F W L" and i: "i < 32" and op: "op \<in> set (W i)"
  shows "\<exists>p'. on_receiver_stop op p = Some (p', [(op, Set_Stopped)]) \<and>
    pool_repr p' F (W(i := remove1 op (W i))) L \<and> upstream p' = upstream p \<and> \<not> callback p' op"
proof -
  note r = pool_reprD [OF repr i]
  have idx: "op_index p op = of_nat i" using waiters_index [OF r(6) i op] .
  obtain h l where er: "il_erase op (links p, pending p i) = Some (h, l)"
    and new_repr: "list_repr (h, l) (remove1 op (W i))"
    using il_erase_repr [OF r(4) op] by fastforce
  let ?p = "p\<lparr>links := h, pending := (pending p)(i := l), callback := (callback p)(op := False)\<rparr>"
  have "on_receiver_stop op p = Some (?p, [(op, Set_Stopped)])"
    using r(1) i idx er by (simp add: on_receiver_stop_def lock_def unlock_def)
  moreover have "waiters_ok ?p (W(i := remove1 op (W i)))"
  proof (rule waiters_update [OF r(6) i new_repr])
    show "\<forall>a \<in> set (remove1 op (W i)). op_index p a = of_nat i"
      using waiters_index [OF r(6) i] by (meson notin_set_remove1)
    show "same_links (links p) h A" if "A \<inter> (set (W i) \<union> set (remove1 op (W i))) = {}" for A
      by (rule il_erase_frame [OF r(4) op er]) (use that in auto)
  qed simp_all
  moreover have "blocks_ok ?p F L" using r(7) by (simp add: blocks_ok_def)
  moreover have "remove1 op (W i) \<noteq> [] \<Longrightarrow> F i = []" using r(5) by fastforce
  ultimately show ?thesis using repr by (auto simp: pool_repr_def)
qed

subsection \<open>Reclaiming a block\<close>

lemma reclaim_handoff:
  assumes repr: "pool_repr p F W L" and b: "L b = Some i" "b + 16 \<noteq> 0" and W: "W i = op # ops"
  shows "\<exists>p'. reclaim_memory (b + 16) p = Some (p', [(op, Set_Value (b + 16))]) \<and>
    pool_repr p' F (W(i := ops)) L \<and> upstream p' = upstream p \<and> \<not> callback p' op"
proof -
  from pool_repr_live [OF repr b(1)] have i: "i < 32" and idx: "mb_index (mem p b) = of_nat i"
    by auto
  note r = pool_reprD [OF repr i]
  have ne: "\<not> il_empty (pending p i)" using il_empty_repr [OF r(4)] W by simp
  obtain h l where pop: "il_pop_front (links p, pending p i) = Some (op, h, l)"
    and new_repr: "list_repr (h, l) ops"
    using il_pop_front_repr [OF r(4) [unfolded W]] by fastforce
  let ?p = "p\<lparr>links := h, pending := (pending p)(i := l),
    result := (result p)(op := Inl (b + 16)), callback := (callback p)(op := False)\<rparr>"
  have "reclaim_memory (b + 16) p = Some (?p, [(op, Set_Value (b + 16))])"
    using r(1) i idx ne pop b(2)
    by (simp add: reclaim_memory_def reclaim_locked_def lock_def unlock_def complete_op_def
        sizeof_memory_block_def)
  moreover have "waiters_ok ?p (W(i := ops))"
  proof (rule waiters_update [OF r(6) i new_repr])
    show "\<forall>a \<in> set ops. op_index p a = of_nat i"
      using waiters_index [OF r(6) i] W by auto
    show "same_links (links p) h A" if "A \<inter> (set (W i) \<union> set ops) = {}" for A
      by (rule il_pop_front_frame [OF r(4) pop]) (use that in auto)
  qed simp_all
  moreover have "blocks_ok ?p F L" using r(7) by (simp add: blocks_ok_def)
  moreover have "F i = []" using r(5) W by simp
  ultimately show ?thesis using repr by (auto simp: pool_repr_def)
qed

lemma reclaim_free:
  assumes repr: "pool_repr p F W L" and b: "L b = Some i" "b + 16 \<noteq> 0" and W: "W i = []"
  shows "\<exists>p'. reclaim_memory (b + 16) p = Some (p', []) \<and>
    pool_repr p' (F(i := b # F i)) W (L(b := None)) \<and> upstream p' = upstream p"
proof -
  from pool_repr_live [OF repr b(1)] have i: "i < 32" and b0: "b \<noteq> 0"
    and idx: "mb_index (mem p b) = of_nat i" by auto
  note r = pool_reprD [OF repr i]
  have emp: "il_empty (pending p i)" using il_empty_repr [OF r(4)] W by simp
  let ?p = "p\<lparr>mem := (mem p)(b := (mem p b)\<lparr>mb_next := block_lists p i\<rparr>),
    block_lists := (block_lists p)(i := b)\<rparr>"
  have "reclaim_memory (b + 16) p = Some (?p, [])"
    using r(1) i idx emp b(2)
    by (simp add: reclaim_memory_def reclaim_locked_def lock_def unlock_def sizeof_memory_block_def)
  moreover have "blocks_ok ?p (F(i := b # F i)) (L(b := None))"
    unfolding blocks_ok_def
  proof (intro conjI allI impI)
    fix j :: nat assume j: "j < 32"
    have nb: "b \<notin> set (F j)" using r(7) j b unfolding blocks_ok_def by fastforce
    show "free_chain (mem ?p) (block_lists ?p j) ((F(i := b # F i)) j)"
      "distinct ((F(i := b # F i)) j)"
      using r(2,3,7) j b0 nb unfolding blocks_ok_def by auto
    show "\<forall>c \<in> set ((F(i := b # F i)) j).
        mb_index (mem ?p c) = of_nat j \<and> (L(b := None)) c = None"
      using r(7) j idx nb unfolding blocks_ok_def by auto
  next
    fix c j assume "(L(b := None)) c = Some j"
    then show "c \<noteq> 0" "j < 32" "mb_index (mem ?p c) = of_nat j"
      using r(7) unfolding blocks_ok_def by (auto split: if_splits)
  qed
  moreover have "waiters_ok ?p W" using r(6) by (simp add: waiters_ok_def)
  ultimately show ?thesis using repr W by (auto simp: pool_repr_def)
qed

lemma reclaim_null: "reclaim_memory 0 p = Some (p, [])"
  by (simp add: reclaim_memory_def)

end
