(* ===== verification/Memory_Pool_Sizes.thy ===== *)
theory Memory_Pool_Sizes
  imports Memory_Pool
begin

text \<open>
  The size classes of the memory pool: what \<^verbatim>\<open>allocate\<close> computes, and what the classes ask the
  upstream resource for.
\<close>

lemma pool_allocate_bounds:
  assumes "pool_allocate sz al = Inr index" "unat sz + 16 < 2 ^ 64"
  shows "\<exists>i < 32. index = of_nat i \<and> 2 ^ i \<le> unat sz + 16 \<and> unat sz + 16 < 2 ^ Suc i"
proof -
  let ?v = "sz + sizeof_memory_block"
  have v: "unat ?v = unat sz + 16"
    using assms(2) by (simp add: sizeof_memory_block_def unat_word_ariths)
  then have "?v \<noteq> 0" by (metis add_is_0 unat_0 zero_neq_numeral)
  then obtain k where k: "log2_64 ?v = int k" "2 ^ k \<le> unat ?v" "unat ?v < 2 ^ Suc k"
    using log2_64_bounds by blast
  with assms(1) have "k < 32" "index = of_nat k"
    by (auto simp: pool_allocate_def Let_def split: if_splits)
  with k v show ?thesis by auto
qed

lemma block_bytes_values:
  "i < 30 \<Longrightarrow> block_bytes i = Some (2 ^ Suc i)"
  "block_bytes 30 = Some 0xFFFFFFFF80000000"
  "block_bytes 31 = None"
  by (simp_all add: block_bytes_small) (simp_all add: block_bytes_def)

lemma unat_power_small:
  assumes "i < 30"
  shows "unat (2 ^ Suc i :: u64) = 2 ^ Suc i"
proof -
  have "\<forall>i \<in> set [0..<30]. unat (2 ^ Suc i :: u64) = 2 ^ Suc i" by (simp add: upt_rec)
  with assms show ?thesis by simp
qed

lemma block_bytes_hold:
  assumes "pool_allocate sz al = Inr index" "unat sz + 16 < 2 ^ 64"
  shows "case block_bytes (unat index) of
      Some n \<Rightarrow> unat sz + 16 < unat n \<and> (unat index < 30 \<longrightarrow> unat n \<le> 2 * (unat sz + 16))
    | None \<Rightarrow> 2 ^ 31 \<le> unat sz + 16"
proof -
  obtain i where i: "i < 32" "index = of_nat i" "2 ^ i \<le> unat sz + 16" "unat sz + 16 < 2 ^ Suc i"
    using pool_allocate_bounds [OF assms] by blast
  then have u: "unat index = i" by simp
  consider "i < 30" | "i = 30" | "i = 31" using i(1) by linarith
  then show ?thesis
  proof cases
    case 1
    with i u unat_power_small [OF 1] show ?thesis by (simp add: block_bytes_small)
  next
    case 2
    with i u show ?thesis by (simp add: block_bytes_values)
  next
    case 3
    with i u show ?thesis by (simp add: block_bytes_values)
  qed
qed

text \<open>Every class below 31 has a size.\<close>

lemma block_bytes_pos: "i < 31 \<Longrightarrow> \<exists>n. block_bytes i = Some n \<and> 0 < n"
proof -
  assume "i < 31"
  then consider "i < 30" | "i = 30" by linarith
  then show ?thesis
  proof cases
    case 1
    have "0 < unat (2 ^ Suc i :: u64)" unfolding unat_power_small [OF 1] by simp
    with 1 show ?thesis by (metis block_bytes_values(1) unat_gt_0 word_gt_0)
  next
    case 2
    then show ?thesis by (simp add: block_bytes_values)
  qed
qed

text \<open>Remark (size_class). An allocation whose size does not wrap when the header is added gets a class whose
  blocks hold the header and the storage and, below class 30, at most twice that. Class 31, of 2 GiB
  and more, has no size at all, since \<^verbatim>\<open>1 << 32\<close> is undefined.\<close>

theorem block_large_enough:
  assumes "pool_allocate sz al = Inr index" "unat sz + 16 < 2 ^ 64"
  shows "case block_bytes (unat index) of
      Some n \<Rightarrow> unat sz + 16 < unat n \<and> (unat index < 30 \<longrightarrow> unat n \<le> 2 * (unat sz + 16))
    | None \<Rightarrow> 2 ^ 31 \<le> unat sz + 16"
  using block_bytes_hold [OF assms] .

theorem block_large_enough_witness:
  "case block_bytes 6 of Some n \<Rightarrow> 100 + 16 < unat n \<and> unat n \<le> 2 * (100 + 16) | None \<Rightarrow> False"
proof -
  have "pool_allocate 100 8 = Inr 6" by (rule pool_allocate_class [of 6, simplified]) simp_all
  from block_large_enough [OF this] show ?thesis by (simp add: block_bytes_def)
qed

text \<open>Remark (size_errors). A size within 16 bytes of the largest \<^verbatim>\<open>size_t\<close> wraps to a class whose blocks do not even hold the
  header, while a size from 4 GiB up is refused; a class of 1 GiB asks upstream for almost
  \<^verbatim>\<open>2 ^ 64\<close> bytes, since the \<^verbatim>\<open>int\<close> \<^verbatim>\<open>1 << 31\<close> is negative.\<close>

theorem size_class_errors:
  "pool_allocate (- 1) al = Inr 3 \<and> block_bytes 3 = Some 16 \<and>
   pool_allocate 0x100000000 al = Inl Invalid_Argument \<and>
   pool_allocate 0x40000000 al = Inr 30 \<and> block_bytes 30 = Some (- 0x80000000)"
proof -
  have "log2_64 15 = 3" by (rule log2_64_eqI [where m = 3, simplified]) simp_all
  moreover have "log2_64 0x100000010 = 32" by (rule log2_64_eqI [where m = 32, simplified]) simp_all
  moreover have "log2_64 0x40000010 = 30" by (rule log2_64_eqI [where m = 30, simplified]) simp_all
  ultimately show ?thesis
    by (simp add: pool_allocate_def sizeof_memory_block_def block_bytes_def)
qed

end
