(* ===== verification/Upstream_Resource.thy ===== *)
theory Upstream_Resource
  imports Memory_Pool
begin

text \<open>
  What a memory pool relies on of its upstream resource, and the resource of \<^verbatim>\<open>examples/batched_reads.cpp\<close>
  that provides it: a monotonic buffer.
\<close>

subsection \<open>The interface\<close>

text \<open>The addresses of \<open>n\<close> bytes from \<open>b\<close> on.\<close>

definition byte_range :: "u64 \<Rightarrow> u64 \<Rightarrow> nat set" where
  "byte_range b n = {unat b ..< unat b + unat n}"

lemma byte_range_first: "0 < n \<Longrightarrow> unat b \<in> byte_range b n"
  by (simp add: byte_range_def word_less_nat_alt)

text \<open>
  A resource in a valid state stays valid, and what it has handed out stays handed out; storage that it
  returns was not handed out before and does not reach to the last 16 addresses.
\<close>

locale upstream_resource =
  fixes do_allocate :: "u64 \<Rightarrow> u64 \<Rightarrow> 'u \<Rightarrow> u64 \<times> 'u"
    and valid :: "'u \<Rightarrow> bool"
    and owned :: "'u \<Rightarrow> nat set"
  assumes state_law: "valid u \<Longrightarrow> 0 < n \<Longrightarrow> do_allocate n 16 u = (b, u') \<Longrightarrow> valid u' \<and> owned u \<subseteq> owned u'"
    and block_law: "valid u \<Longrightarrow> 0 < n \<Longrightarrow> do_allocate n 16 u = (b, u') \<Longrightarrow> b \<noteq> 0 \<Longrightarrow>
      byte_range b n \<inter> owned u = {} \<and> byte_range b n \<subseteq> owned u' \<and> unat b + unat n + 16 < 2 ^ 64"
begin

text \<open>The pool's own \<^verbatim>\<open>allocate\<close>, which asks twice, keeps the laws.\<close>

lemma resource_fresh:
  assumes u: "valid u" "0 < n" and r: "resource_allocate do_allocate n 16 u = (b, u')"
  shows "valid u'" "owned u \<subseteq> owned u'" "b \<noteq> 0 \<Longrightarrow> byte_range b n \<inter> owned u = {}"
    "b \<noteq> 0 \<Longrightarrow> byte_range b n \<subseteq> owned u'" "b \<noteq> 0 \<Longrightarrow> unat b + unat n + 16 < 2 ^ 64"
proof -
  obtain c v where c: "do_allocate n 16 u = (c, v)" by (cases "do_allocate n 16 u")
  obtain d w where d: "do_allocate n 16 v = (d, w)" by (cases "do_allocate n 16 v")
  note v = state_law [OF u c]
  note w = state_law [OF v [THEN conjunct1] u(2) d] block_law [OF v [THEN conjunct1] u(2) d]
  have cases: "c = 0 \<and> b = 0 \<and> u' = v \<or> c \<noteq> 0 \<and> b = d \<and> u' = w"
    using r by (auto simp: resource_allocate_def c d split: if_splits)
  then show "valid u'" "owned u \<subseteq> owned u'" using v w by blast+
  assume "b \<noteq> 0"
  with cases have "b = d" "u' = w" by blast+
  with w(2) v \<open>b \<noteq> 0\<close> show "byte_range b n \<inter> owned u = {}" "byte_range b n \<subseteq> owned u'"
    "unat b + unat n + 16 < 2 ^ 64" by blast+
qed

text \<open>It also costs a block that nobody has.\<close>

lemma allocate_leaks:
  assumes u: "valid u" "0 < n" and r: "resource_allocate do_allocate n 16 u = (b, u')" "b \<noteq> 0"
  shows "\<exists>c. c \<noteq> 0 \<and> byte_range c n \<inter> byte_range b n = {} \<and> byte_range c n \<inter> owned u = {} \<and>
    byte_range c n \<subseteq> owned u'"
proof -
  obtain c v where c: "do_allocate n 16 u = (c, v)" by (cases "do_allocate n 16 u")
  with r have d: "do_allocate n 16 v = (b, u')" "c \<noteq> 0"
    by (auto simp: resource_allocate_def split: if_splits)
  note v = state_law [OF u c] block_law [OF u c d(2)]
  note w = state_law [OF v(1) [THEN conjunct1] u(2) d(1)] block_law [OF v(1) [THEN conjunct1] u(2) d(1) r(2)]
  show ?thesis using v w d(2) by blast
qed

end

subsection \<open>The monotonic buffer\<close>

text \<open>
  \<^verbatim>\<open>std::align\<close> moves the pointer to the next multiple of the alignment when the storage still fits behind
  it, and takes the skipped bytes from the space; otherwise it changes nothing and returns null.
\<close>

definition std_align :: "u64 \<Rightarrow> u64 \<Rightarrow> u64 \<Rightarrow> u64 \<Rightarrow> u64 \<times> u64 \<times> u64" where
  "std_align alignment sz ptr space =
     (let skip = (if ptr mod alignment = 0 then 0 else alignment - ptr mod alignment)
      in if sz \<le> space \<and> skip \<le> space - sz then (ptr + skip, ptr + skip, space - skip)
         else (0, ptr, space))"

record monotonic_resource =
  mr_buffer :: u64
  mr_size :: u64

definition monotonic_allocate :: "u64 \<Rightarrow> u64 \<Rightarrow> monotonic_resource \<Rightarrow> u64 \<times> monotonic_resource" where
  "monotonic_allocate bytes alignment s =
     (let (ptr, buf, sz) = std_align alignment bytes (mr_buffer s) (mr_size s);
          s1 = \<lparr>mr_buffer = buf, mr_size = sz\<rparr>
      in (ptr, if ptr \<noteq> 0 \<and> bytes \<le> mr_size s1
               then \<lparr>mr_buffer = mr_buffer s1 + bytes, mr_size = mr_size s1 - bytes\<rparr> else s1))"

definition monotonic_deallocate :: "u64 \<Rightarrow> u64 \<Rightarrow> u64 \<Rightarrow> monotonic_resource \<Rightarrow> monotonic_resource" where
  "monotonic_deallocate ptr bytes alignment s = s"

definition monotonic_valid :: "monotonic_resource \<Rightarrow> bool" where
  "monotonic_valid s \<longleftrightarrow> mr_buffer s \<noteq> 0 \<and> unat (mr_buffer s) + unat (mr_size s) + 16 < 2 ^ 64"

text \<open>Every address in front of the pointer has been spent.\<close>

definition monotonic_owned :: "monotonic_resource \<Rightarrow> nat set" where
  "monotonic_owned s = {..< unat (mr_buffer s)}"

lemma monotonic_allocate_step:
  assumes "monotonic_valid s" "0 < n" "monotonic_allocate n al s = (b, s')"
  shows "b = 0 \<and> s' = s \<or>
    b \<noteq> 0 \<and> unat (mr_buffer s) \<le> unat b \<and> unat (mr_buffer s') = unat b + unat n \<and>
      unat (mr_buffer s') + unat (mr_size s') = unat (mr_buffer s) + unat (mr_size s)"
proof -
  let ?skip = "if mr_buffer s mod al = 0 then 0 else al - mr_buffer s mod al"
  show ?thesis
  proof (cases "n \<le> mr_size s \<and> ?skip \<le> mr_size s - n")
    case False
    then have "std_align al n (mr_buffer s) (mr_size s) = (0, mr_buffer s, mr_size s)"
      by (simp only: std_align_def Let_def if_False)
    with assms(3) show ?thesis by (auto simp: monotonic_allocate_def)
  next
    case True
    define skip where "skip = ?skip"
    have al: "std_align al n (mr_buffer s) (mr_size s) =
        (mr_buffer s + skip, mr_buffer s + skip, mr_size s - skip)"
      using True by (simp only: std_align_def Let_def skip_def [symmetric] simp_thms if_True)
    from True have "unat n \<le> unat (mr_size s)" "unat skip \<le> unat (mr_size s) - unat n"
      using unat_sub [of n "mr_size s"] by (simp_all add: skip_def [symmetric] word_le_nat_alt)
    then have fits: "unat skip + unat n \<le> unat (mr_size s)" by linarith
    with assms(1) have b: "unat (mr_buffer s + skip) = unat (mr_buffer s) + unat skip"
      by (subst unat_add_lem [THEN iffD1]) (auto simp: monotonic_valid_def)
    then have b0: "mr_buffer s + skip \<noteq> 0"
      using assms(1) by (metis add_is_0 monotonic_valid_def unat_0 unat_eq_zero)
    have sz: "unat (mr_size s - skip) = unat (mr_size s) - unat skip"
      using fits by (subst unat_sub) (auto simp: word_le_nat_alt)
    have le: "n \<le> mr_size s - skip" using fits sz by (simp add: word_le_nat_alt)
    have s': "s' = \<lparr>mr_buffer = mr_buffer s + skip + n, mr_size = mr_size s - skip - n\<rparr>"
      "b = mr_buffer s + skip"
      using assms(3) al b0 le by (auto simp: monotonic_allocate_def)
    have "unat (mr_buffer s + skip + n) = unat (mr_buffer s) + unat skip + unat n"
      using fits assms(1) b by (subst unat_add_lem [THEN iffD1]) (auto simp: monotonic_valid_def)
    moreover have "unat (mr_size s - skip - n) = unat (mr_size s) - unat skip - unat n"
      using le sz by (subst unat_sub) auto
    ultimately show ?thesis using s' b b0 fits by simp
  qed
qed

interpretation monotonic: upstream_resource monotonic_allocate monotonic_valid monotonic_owned
proof
  fix u u' :: monotonic_resource and n b :: u64
  assume u: "monotonic_valid u" "0 < n" "monotonic_allocate n 16 u = (b, u')"
  note step = monotonic_allocate_step [OF u]
  show "monotonic_valid u' \<and> monotonic_owned u \<subseteq> monotonic_owned u'"
  proof (cases "b = 0")
    case False
    with step have "unat (mr_buffer u') = unat b + unat n" "unat (mr_buffer u) \<le> unat b" by auto
    moreover have "0 < unat n" using u(2) by (simp add: word_less_nat_alt)
    ultimately have "0 < unat (mr_buffer u')" "unat (mr_buffer u) \<le> unat (mr_buffer u')" by linarith+
    with step False u(1) show ?thesis by (auto simp: monotonic_valid_def monotonic_owned_def)
  qed (use step u(1) in auto)
  assume "b \<noteq> 0"
  with step u(1) show "byte_range b n \<inter> monotonic_owned u = {} \<and> byte_range b n \<subseteq> monotonic_owned u' \<and>
      unat b + unat n + 16 < 2 ^ 64"
    by (auto simp: monotonic_valid_def monotonic_owned_def byte_range_def)
qed

end
