(* ===== verification/Memory_Pool_Safety.thy ===== *)
theory Memory_Pool_Safety
  imports Memory_Pool_Correct Memory_Pool_Sizes Upstream_Resource
begin

text \<open>
  Every use of a memory pool by clients that follow its rules: an operation is started once, a
  pointer is given back once, and stop is requested for operations that wait. The reachable
  states keep the storage that clients hold apart, byte by byte, from each other and from the free lists.
\<close>

subsection \<open>Client steps\<close>

definition values_of :: "('op, 'e) completion list \<Rightarrow> u64 set" where
  "values_of outs = {q. \<exists>op. (op, Set_Value q) \<in> set outs}"

lemma values_of_simps [simp]:
  "values_of [] = {}" "values_of [(op, Set_Value q)] = {q}" "values_of [(op, Set_Stopped)] = {}"
  by (auto simp: values_of_def)

text \<open>
  \<open>pool_reach da u p W A\<close>: over an upstream resource that starts in state \<open>u\<close>, clients can bring
  the pool to \<open>p\<close>; the operations \<open>W\<close> wait, and clients hold the pointers \<open>A\<close>.
\<close>

inductive pool_reach ::
  "(u64 \<Rightarrow> u64 \<Rightarrow> 'u \<Rightarrow> u64 \<times> 'u) \<Rightarrow> 'u \<Rightarrow> ('op, 'e, 'u) pool \<Rightarrow> 'op set \<Rightarrow> u64 set \<Rightarrow> bool"
  for da :: "u64 \<Rightarrow> u64 \<Rightarrow> 'u \<Rightarrow> u64 \<times> 'u" and u :: 'u
where
  init: "pool_reach da u (pool_init u) {} {}"
| allocate: "pool_reach da u p W A \<Longrightarrow> op \<notin> W \<Longrightarrow> pool_allocate sz alignment = Inr index \<Longrightarrow>
    allocate_start da False op (connect_allocate op index p) = Some (p', outs) \<Longrightarrow>
    pool_reach da u p' (if outs = [] then insert op W else W) (A \<union> values_of outs)"
| deallocate: "pool_reach da u p W A \<Longrightarrow> q \<in> A \<Longrightarrow>
    deallocate_start destroy q p = Some (destroyed, p', outs, sig) \<Longrightarrow>
    pool_reach da u p' (W - fst ` set outs) (A - {q} \<union> values_of outs)"
| stop: "pool_reach da u p W A \<Longrightarrow> op \<in> W \<Longrightarrow> on_receiver_stop op p = Some (p', outs) \<Longrightarrow>
    pool_reach da u p' (W - {op}) A"

subsection \<open>The invariant\<close>

text \<open>The bytes of a block of a class, and of the storage behind a pointer with its header.\<close>

definition block_range :: "u64 \<Rightarrow> nat \<Rightarrow> nat set" where
  "block_range b i = (case block_bytes i of None \<Rightarrow> {} | Some n \<Rightarrow> byte_range b n)"

definition held_storage :: "('op, 'e, 'u) pool \<Rightarrow> u64 \<Rightarrow> nat set" where
  "held_storage p q = block_range (q - 16) (unat (mb_index (mem p (q - 16))))"

text \<open>\<open>b\<close> is a block of class \<open>i\<close>, held by a client or free.\<close>

definition of_class :: "(nat \<Rightarrow> u64 list) \<Rightarrow> (u64 \<rightharpoonup> nat) \<Rightarrow> u64 \<Rightarrow> nat \<Rightarrow> bool" where
  "of_class F L b i \<longleftrightarrow> L b = Some i \<or> i < 32 \<and> b \<in> set (F i)"

definition storage_ok :: "nat set \<Rightarrow> (nat \<Rightarrow> u64 list) \<Rightarrow> (u64 \<rightharpoonup> nat) \<Rightarrow> bool" where
  "storage_ok own F L \<longleftrightarrow>
     (\<forall>b i. of_class F L b i \<longrightarrow> i < 31 \<and> block_range b i \<subseteq> own \<and> unat b + 16 < 2 ^ 64) \<and>
     (\<forall>b i c j. of_class F L b i \<and> of_class F L c j \<and> b \<noteq> c \<longrightarrow> block_range b i \<inter> block_range c j = {})"

definition pool_inv :: "('u \<Rightarrow> bool) \<Rightarrow> ('u \<Rightarrow> nat set) \<Rightarrow> ('op, 'e, 'u) pool \<Rightarrow> 'op set \<Rightarrow> u64 set \<Rightarrow>
    (nat \<Rightarrow> u64 list) \<Rightarrow> (nat \<Rightarrow> 'op list) \<Rightarrow> (u64 \<rightharpoonup> nat) \<Rightarrow> bool" where
  "pool_inv valid owned p W A F Ws L \<longleftrightarrow>
     pool_repr p F Ws L \<and> W = (\<Union>i<32. set (Ws i)) \<and> A = (\<lambda>b. b + 16) ` dom L \<and>
     valid (upstream p) \<and> storage_ok (owned (upstream p)) F L"

lemma storage_okD:
  assumes "storage_ok own F L" "of_class F L b i"
  shows "i < 31" "block_range b i \<subseteq> own" "unat b + 16 < 2 ^ 64" "b + 16 \<noteq> 0"
proof -
  show "i < 31" "block_range b i \<subseteq> own" and u: "unat b + 16 < 2 ^ 64"
    using assms unfolding storage_ok_def by blast+
  from u have "unat (b + 16) = unat b + 16" by (simp add: unat_word_ariths)
  then show "b + 16 \<noteq> 0" by (metis add_is_0 unat_0 zero_neq_numeral)
qed

lemma storage_mono:
  assumes "storage_ok own F L" "own \<subseteq> own'" "\<And>b i. of_class F' L' b i \<Longrightarrow> of_class F L b i"
  shows "storage_ok own' F' L'"
  using assms unfolding storage_ok_def by (meson order_trans)

lemma block_range_first: "i < 31 \<Longrightarrow> unat b \<in> block_range b i"
  using block_bytes_pos [of i] byte_range_first by (auto simp: block_range_def)

lemma new_block:
  assumes "storage_ok own F L" "block_range b i \<inter> own = {}" "i < 31"
  shows "\<not> of_class F L b j"
proof
  assume b: "of_class F L b j"
  from storage_okD [OF assms(1) b] block_range_first [of j b] have "unat b \<in> own" by blast
  with block_range_first [OF assms(3), of b] assms(2) show False by blast
qed

lemma storage_add:
  assumes ok: "storage_ok own F L" and own: "own \<subseteq> own'" and i: "i < 31"
    and new: "block_range b i \<inter> own = {}" "block_range b i \<subseteq> own'" "unat b + 16 < 2 ^ 64"
  shows "storage_ok own' F (L(b \<mapsto> i))"
proof -
  have cls: "of_class F (L(b \<mapsto> i)) c j \<Longrightarrow> c = b \<and> j = i \<or> of_class F L c j \<and> c \<noteq> b" for c j
    using new_block [OF ok new(1) i, of j] by (auto simp: of_class_def split: if_splits)
  show ?thesis
    unfolding storage_ok_def
  proof (intro conjI allI impI)
    fix c j assume "of_class F (L(b \<mapsto> i)) c j"
    from cls [OF this] show "j < 31" "block_range c j \<subseteq> own'" "unat c + 16 < 2 ^ 64"
      using storage_okD [OF ok] own i new by (blast, blast, blast)
  next
    fix c j d k
    assume a: "of_class F (L(b \<mapsto> i)) c j \<and> of_class F (L(b \<mapsto> i)) d k \<and> c \<noteq> d"
    with cls [of c j] cls [of d k]
    consider "c = b" "j = i" "of_class F L d k" | "d = b" "k = i" "of_class F L c j"
      | "of_class F L c j" "of_class F L d k" by blast
    then show "block_range c j \<inter> block_range d k = {}"
    proof cases
      case 1
      with storage_okD(2) [OF ok 1(3)] new(1) show ?thesis by blast
    next
      case 2
      with storage_okD(2) [OF ok 2(3)] new(1) show ?thesis by blast
    next
      case 3
      with a ok show ?thesis unfolding storage_ok_def by blast
    qed
  qed
qed

lemma pool_inv_init: "valid u \<Longrightarrow> pool_inv valid owned (pool_init u) {} {} (\<lambda>_. []) (\<lambda>_. []) Map.empty"
  by (simp add: pool_inv_def pool_repr_init storage_ok_def of_class_def) (simp add: pool_init_def)

lemma connect_repr:
  assumes "pool_repr p F Ws L" "\<forall>i < 32. op \<notin> set (Ws i)"
  shows "pool_repr (connect_allocate op index p) F Ws L"
proof -
  let ?p = "connect_allocate op index p"
  have "waiters_ok ?p Ws"
    unfolding waiters_ok_def
  proof (intro allI impI)
    fix i :: nat assume i: "i < 32"
    have ok: "waiters_ok p Ws" using assms by (simp add: pool_repr_def)
    have "same_links (links p) (links ?p) (set (Ws i))"
      using assms(2) i by (auto simp: same_links_def connect_allocate_def)
    then have "list_repr (links ?p, pending p i) (Ws i)"
      using list_repr_frame waiters_list [OF ok i] by blast
    with waiters_index [OF ok i] assms(2) i
    show "list_repr (links ?p, pending ?p i) (Ws i) \<and>
        (\<forall>a \<in> set (Ws i). op_index ?p a = of_nat i)"
      by (auto simp: connect_allocate_def)
  qed
  moreover have "blocks_ok ?p F L"
    using assms by (simp add: pool_repr_def blocks_ok_def connect_allocate_def)
  ultimately show ?thesis using assms by (simp add: pool_repr_def connect_allocate_def)
qed

lemma connect_simps [simp]:
  "op_index (connect_allocate op index p) op = index"
  "upstream (connect_allocate op index p) = upstream p"
  by (simp_all add: connect_allocate_def)

lemma pool_allocate_index:
  assumes "pool_allocate sz al = Inr index"
  shows "\<exists>i < 32. index = of_nat i"
proof -
  let ?k = "log2_64 (sz + sizeof_memory_block)"
  from assms have k: "0 \<le> ?k" "?k < 32" "index = of_int ?k"
    by (auto simp: pool_allocate_def Let_def split: if_splits)
  then have "index = of_nat (nat ?k)" "nat ?k < 32" by simp_all
  then show ?thesis by blast
qed

lemma block_bytes_None: "i < 32 \<Longrightarrow> block_bytes i = None \<longleftrightarrow> i = 31"
  by (auto simp: block_bytes_def)

lemma UN_upd: "(\<Union>j<32. set ((f(i := xs)) j)) =
    (if i < (32 :: nat) then set xs else {}) \<union> (\<Union>j\<in>{..<32} - {i}. set (f j))"
  by (auto split: if_splits)

lemma UN_split: "i < (32 :: nat) \<Longrightarrow> (\<Union>j<32. set (f j)) = set (f i) \<union> (\<Union>j\<in>{..<32} - {i}. set (f j))"
  by auto

definition allocated :: "'op \<Rightarrow> 'op set \<Rightarrow> u64 set \<Rightarrow> ('op, 'e) completion list \<Rightarrow> bool" where
  "allocated op W A outs \<longleftrightarrow> outs = [] \<or> (\<exists>q. outs = [(op, Set_Value q)] \<and> q \<noteq> 0 \<and> q \<notin> A)"

lemma live_disjoint:
  "pool_repr p F Ws L \<Longrightarrow> i < 32 \<Longrightarrow> b \<in> set (F i) \<Longrightarrow> L b = None"
  by (auto simp: pool_repr_def blocks_ok_def)

lemma shift_image: "(\<lambda>b. b + 16) ` dom (L(b \<mapsto> i)) = (\<lambda>b. b + 16) ` dom L \<union> {b + (16 :: u64)}"
  by auto

lemma shift_notin: "L b = None \<Longrightarrow> b + 16 \<notin> (\<lambda>b. b + (16 :: u64)) ` dom L"
  by auto

lemma reuse_class:
  "F i = b # bs \<Longrightarrow> i < 32 \<Longrightarrow> of_class (F(i := bs)) (L(b \<mapsto> i)) c j \<Longrightarrow> of_class F L c j"
  by (auto simp: of_class_def split: if_splits)

lemma free_class:
  "L b = Some i \<Longrightarrow> i < 32 \<Longrightarrow> of_class (F(i := b # F i)) (L(b := None)) c j \<Longrightarrow> of_class F L c j"
  by (auto simp: of_class_def split: if_splits)

lemma allocate_step:
  assumes up: "upstream_resource da valid owned" and inv: "pool_inv valid owned p W A F Ws L"
    and op: "op \<notin> W" and i: "i < 32" "op_index p op = of_nat i"
  shows "allocate_start da False op p = None \<and> i = 31 \<or>
    (\<exists>p' outs F' Ws' L'. allocate_start da False op p = Some (p', outs) \<and> allocated op W A outs \<and>
       (outs \<noteq> [] \<longrightarrow> (\<exists>b. outs = [(op, Set_Value (b + 16))] \<and> L' = L(b \<mapsto> i) \<and> L b = None)) \<and>
       pool_inv valid owned p' (if outs = [] then insert op W else W) (A \<union> values_of outs) F' Ws' L')"
proof -
  from inv have repr: "pool_repr p F Ws L" and W: "W = (\<Union>i<32. set (Ws i))"
    and A: "A = (\<lambda>b. b + 16) ` dom L" and valid: "valid (upstream p)"
    and ok: "storage_ok (owned (upstream p)) F L"
    unfolding pool_inv_def by blast+
  show ?thesis
  proof (cases "F i")
    case (Cons b bs)
    from allocate_reuse [OF repr i Cons] obtain p' where
      p': "allocate_start da False op p = Some (p', [(op, Set_Value (b + 16))])"
        "pool_repr p' (F(i := bs)) Ws (L(b \<mapsto> i))" "upstream p' = upstream p" by blast
    have Lb: "L b = None" using live_disjoint [OF repr i(1)] Cons by simp
    have b16: "b + 16 \<noteq> 0"
      using storage_okD(4) [OF ok, of b i] Cons i(1) by (simp add: of_class_def)
    have "storage_ok (owned (upstream p)) (F(i := bs)) (L(b \<mapsto> i))"
      using storage_mono [OF ok order_refl] reuse_class [of F, OF Cons i(1)] by blast
    then have "pool_inv valid owned p' W (A \<union> {b + 16}) (F(i := bs)) Ws (L(b \<mapsto> i))"
      unfolding pool_inv_def p'(3) using p'(2) W A valid by (simp only: shift_image simp_thms)
    moreover have "allocated op W A [(op, Set_Value (b + 16))]"
      using b16 shift_notin [of L b, OF Lb] by (auto simp: allocated_def A)
    ultimately show ?thesis using p'(1) Lb by (auto simp del: Un_insert_right)
  next
    case Nil
    show ?thesis
    proof (cases "block_bytes i")
      case None
      have "block_lists p i = 0" "\<not> locked p" using pool_reprD [OF repr i(1)] Nil by auto
      with None i have "allocate_start da False op p = None"
        by (simp add: allocate_start_def lock_def)
      moreover have "i = 31" using None block_bytes_None [OF i(1)] by simp
      ultimately show ?thesis by simp
    next
      case (Some n)
      with i block_bytes_None [OF i(1)] have i31: "i < 31" by force
      have n: "0 < n" using block_bytes_pos [OF i31] Some by simp
      obtain b u' where r: "resource_allocate da n 16 (upstream p) = (b, u')"
        by (cases "resource_allocate da n 16 (upstream p)")
      note fresh = upstream_resource.resource_fresh [OF up valid n r]
      show ?thesis
      proof (cases "b = 0")
        case True
        have new: "\<forall>j < 32. op \<notin> set (Ws j)" using op W by blast
        obtain p' where p': "allocate_start da False op p = Some (p', [])"
          "pool_repr p' F (Ws(i := Ws i @ [op])) L" "upstream p' = u'"
          using allocate_wait(1) [OF repr i31 i(2) Nil r [unfolded True] Some new] by blast
        have "insert op W = (\<Union>j<32. set ((Ws(i := Ws i @ [op])) j))"
          using W i(1) by (simp only: UN_upd UN_split [OF i(1), of Ws]) simp
        moreover have "storage_ok (owned u') F L" using storage_mono [OF ok fresh(2)] by blast
        ultimately have "pool_inv valid owned p' (insert op W) A F (Ws(i := Ws i @ [op])) L"
          unfolding pool_inv_def p'(3) using p'(2) A fresh(1) by (simp only: simp_thms)
        with p'(1) show ?thesis by (auto simp: allocated_def)
      next
        case False
        have br: "block_range b i = byte_range b n" using Some by (simp add: block_range_def)
        note nb = new_block [OF ok fresh(3) [OF False, folded br] i31]
        have Lb: "L b = None" and Fb: "\<forall>j < 32. b \<notin> set (F j)"
          using nb by (cases "L b", auto simp: of_class_def)
        obtain p' where p': "allocate_start da False op p = Some (p', [(op, Set_Value (b + 16))])"
          "pool_repr p' F Ws (L(b \<mapsto> i))" "upstream p' = u'"
          using allocate_fresh [OF repr i31 i(2) Nil r Some False Lb Fb] by blast
        have ok': "storage_ok (owned u') F (L(b \<mapsto> i))"
          using storage_add [OF ok fresh(2) i31] fresh(3-5) [OF False] br by simp
        then have "pool_inv valid owned p' W (A \<union> {b + 16}) F Ws (L(b \<mapsto> i))"
          unfolding pool_inv_def p'(3) using p'(2) W A fresh(1) by (simp only: shift_image simp_thms)
        moreover have "b + 16 \<noteq> 0"
          using storage_okD(4) [OF ok', of b i] by (simp add: of_class_def)
        then have "allocated op W A [(op, Set_Value (b + 16))]"
          using shift_notin [of L b, OF Lb] by (auto simp: allocated_def A)
        ultimately show ?thesis using p'(1) Lb by (auto simp del: Un_insert_right)
      qed
    qed
  qed
qed

lemma deallocate_step:
  assumes inv: "pool_inv valid owned p W A F Ws L" and q: "q \<in> A"
  shows "\<exists>p' outs F' Ws' L'.
    deallocate_start destroy q p = Some (if destroy then [q] else [], p', outs, Set_Value ()) \<and>
    (\<forall>(op, s) \<in> set outs. op \<in> W \<and> s = Set_Value q) \<and>
    pool_inv valid owned p' (W - fst ` set outs) (A - {q} \<union> values_of outs) F' Ws' L'"
proof -
  from inv have repr: "pool_repr p F Ws L" and W: "W = (\<Union>i<32. set (Ws i))"
    and A: "A = (\<lambda>b. b + 16) ` dom L"
    and valid: "valid (upstream p)" and ok: "storage_ok (owned (upstream p)) F L"
    unfolding pool_inv_def by blast+
  from q A obtain b i where b: "q = b + 16" "L b = Some i" by blast
  then have b0: "b + 16 \<noteq> 0" using storage_okD(4) [OF ok, of b i] by (simp add: of_class_def)
  from pool_repr_live [OF repr b(2)] have i: "i < 32" by simp
  show ?thesis
  proof (cases "Ws i")
    case Nil
    from reclaim_free [OF repr b(2) b0 Nil] obtain p' where
      p': "reclaim_memory q p = Some (p', [])"
        "pool_repr p' (F(i := b # F i)) Ws (L(b := None))" "upstream p' = upstream p"
      using b by blast
    have "storage_ok (owned (upstream p)) (F(i := b # F i)) (L(b := None))"
      using storage_mono [OF ok order_refl] free_class [of L, OF b(2) i] by blast
    moreover have "A - {q} = (\<lambda>b. b + 16) ` dom (L(b := None))" using A b by auto
    ultimately have "pool_inv valid owned p' W (A - {q}) (F(i := b # F i)) Ws (L(b := None))"
      unfolding pool_inv_def p'(3) using p'(2) W valid by (simp only: simp_thms)
    with p'(1) show ?thesis by (auto simp: deallocate_start_def)
  next
    case (Cons op ops)
    from reclaim_handoff [OF repr b(2) b0 Cons] obtain p' where
      p': "reclaim_memory q p = Some (p', [(op, Set_Value q)])"
        "pool_repr p' F (Ws(i := ops)) L" "upstream p' = upstream p"
      using b by blast
    have d: "distinct (op # ops)"
      using list_repr_distinct pool_reprD(4) [OF repr i] Cons by metis
    have "op \<notin> set (Ws j)" if "j < 32" "j \<noteq> i" for j
      using waiters_disjoint [OF pool_reprD(6) [OF repr i] i that(1)] that Cons by auto
    then have "W - {op} = (\<Union>j<32. set ((Ws(i := ops)) j))"
      using W d i Cons by (simp only: UN_upd UN_split [OF i, of Ws]) auto
    moreover have same: "A - {q} \<union> {q} = A" using q by blast
    ultimately have "pool_inv valid owned p' (W - {op}) (A - {q} \<union> {q}) F (Ws(i := ops)) L"
      using p'(2,3) A inv unfolding pool_inv_def same by simp
    moreover have "op \<in> W" using W i Cons by force
    ultimately show ?thesis using p'(1) by (auto simp: deallocate_start_def simp del: Un_insert_right)
  qed
qed

lemma stop_step:
  assumes inv: "pool_inv valid owned p W A F Ws L" and op: "op \<in> W"
  shows "\<exists>p' Ws'. on_receiver_stop op p = Some (p', [(op, Set_Stopped)]) \<and>
    pool_inv valid owned p' (W - {op}) A F Ws' L"
proof -
  from inv have repr: "pool_repr p F Ws L" and W: "W = (\<Union>i<32. set (Ws i))"
    unfolding pool_inv_def by blast+
  from op W obtain i where i: "i < 32" and op': "op \<in> set (Ws i)" by blast
  from stop_waiting [OF repr i op'] obtain p' where
    p': "on_receiver_stop op p = Some (p', [(op, Set_Stopped)])"
      "pool_repr p' F (Ws(i := remove1 op (Ws i))) L" "upstream p' = upstream p" by blast
  have d: "distinct (Ws i)" using list_repr_distinct pool_reprD(4) [OF repr i] by metis
  have "op \<notin> set (Ws j)" if "j < 32" "j \<noteq> i" for j
    using waiters_disjoint [OF pool_reprD(6) [OF repr i] i that(1)] that op' by auto
  then have "W - {op} = (\<Union>j<32. set ((Ws(i := remove1 op (Ws i))) j))"
    using W d i by (simp only: UN_upd UN_split [OF i, of Ws]) auto
  then have "pool_inv valid owned p' (W - {op}) A F (Ws(i := remove1 op (Ws i))) L"
    using inv p'(2,3) by (simp add: pool_inv_def)
  with p'(1) show ?thesis by blast
qed


lemma pool_reach_inv:
  assumes "pool_reach da u p W A" "upstream_resource da valid owned" "valid u"
  shows "\<exists>F Ws L. pool_inv valid owned p W A F Ws L"
  using assms
proof (induction rule: pool_reach.induct)
  case init
  then show ?case using pool_inv_init [of valid u owned] by blast
next
  case (allocate p W A op sz alignment index p' outs)
  then obtain F Ws L where inv: "pool_inv valid owned p W A F Ws L" by blast
  obtain i where i: "i < 32" "index = of_nat i" using pool_allocate_index allocate.hyps(3) by blast
  have "pool_inv valid owned (connect_allocate op index p) W A F Ws L"
    using inv allocate.hyps(2) connect_repr [of p F Ws L op index] by (auto simp: pool_inv_def)
  from allocate_step [OF allocate.prems(1) this allocate.hyps(2) i(1)] i allocate.hyps(4)
  show ?case by fastforce
next
  case (deallocate p W A q destroy destroyed p' outs sig)
  then obtain F Ws L where "pool_inv valid owned p W A F Ws L" by blast
  from deallocate_step [OF this deallocate.hyps(2), of destroy] deallocate.hyps(3)
  show ?case by fastforce
next
  case (stop p W A op p' outs)
  then obtain F Ws L where "pool_inv valid owned p W A F Ws L" by blast
  from stop_step [OF this stop.hyps(2)] stop.hyps(3) show ?case by fastforce
qed

lemma reach_connect_inv:
  assumes "pool_reach da u p W A" "upstream_resource da valid owned" "valid u" "op \<notin> W"
  shows "\<exists>F Ws L. pool_inv valid owned (connect_allocate op index p) W A F Ws L"
proof -
  obtain F Ws L where inv: "pool_inv valid owned p W A F Ws L"
    using pool_reach_inv [OF assms(1-3)] by (elim exE)
  with assms(4) connect_repr [of p F Ws L op index]
  have "pool_inv valid owned (connect_allocate op index p) W A F Ws L" by (auto simp: pool_inv_def)
  then show ?thesis by blast
qed

lemma storage_live: "pool_repr p F Ws L \<Longrightarrow> L b = Some i \<Longrightarrow> held_storage p (b + 16) = block_range b i"
  using pool_repr_live [of p F Ws L b i] by (simp add: held_storage_def)

lemma storage_live_disjoint:
  assumes "pool_inv valid owned p W A F Ws L" "L b = Some i" "q \<in> A" "q \<noteq> b + 16"
  shows "held_storage p (b + 16) \<inter> held_storage p q = {}"
proof -
  from assms(1) have repr: "pool_repr p F Ws L" and ok: "storage_ok (owned (upstream p)) F L"
    unfolding pool_inv_def by blast+
  from assms obtain c j where c: "q = c + 16" "L c = Some j" by (auto simp: pool_inv_def)
  with assms(2,4) have "of_class F L b i" "of_class F L c j" "b \<noteq> c" by (auto simp: of_class_def)
  with ok have "block_range b i \<inter> block_range c j = {}" unfolding storage_ok_def by blast
  with c assms(2) storage_live [of p F Ws L, OF repr] show ?thesis by simp
qed

text \<open>An allocation in a reachable state, and where the storage that it hands out lies.\<close>

lemma reach_allocate:
  assumes "pool_reach da u p W A" "upstream_resource da valid owned" "valid u" "op \<notin> W"
    "pool_allocate sz al = Inr index"
  shows "allocate_start da False op (connect_allocate op index p) = None \<and> index = 31 \<or>
    (\<exists>p' outs. allocate_start da False op (connect_allocate op index p) = Some (p', outs) \<and>
       allocated op W A outs \<and>
       (outs \<noteq> [] \<longrightarrow> (\<exists>b. outs = [(op, Set_Value (b + 16))] \<and> unat index < 31 \<and>
          unat b + 16 < 2 ^ 64 \<and> held_storage p' (b + 16) = block_range b (unat index) \<and>
          (\<forall>q \<in> A. held_storage p' (b + 16) \<inter> held_storage p' q = {}))))"
proof -
  obtain F Ws L where inv: "pool_inv valid owned (connect_allocate op index p) W A F Ws L"
    using reach_connect_inv [OF assms(1-4), of index] by (elim exE)
  obtain i where i: "i < 32" "index = of_nat i" using pool_allocate_index assms(5) by blast
  let ?start = "allocate_start da False op (connect_allocate op index p)"
  have step: "?start = None \<and> i = 31 \<or>
    (\<exists>p' outs F' Ws' L'. ?start = Some (p', outs) \<and> allocated op W A outs \<and>
       (outs \<noteq> [] \<longrightarrow> (\<exists>b. outs = [(op, Set_Value (b + 16))] \<and> L' = L(b \<mapsto> i) \<and> L b = None)) \<and>
       pool_inv valid owned p' (if outs = [] then insert op W else W) (A \<union> values_of outs) F' Ws' L')"
    by (rule allocate_step [OF assms(2) inv assms(4) i(1)]) (simp add: i)
  show ?thesis
  proof (cases "?start = None")
    case True
    with step i show ?thesis by auto
  next
    case False
    with step obtain p' outs F' Ws' L' where r: "?start = Some (p', outs)" "allocated op W A outs"
      "outs \<noteq> [] \<longrightarrow> (\<exists>b. outs = [(op, Set_Value (b + 16))] \<and> L' = L(b \<mapsto> i) \<and> L b = None)"
      and inv': "pool_inv valid owned p' (if outs = [] then insert op W else W) (A \<union> values_of outs) F' Ws' L'"
      by blast
    from r(3) have "\<exists>b. outs = [(op, Set_Value (b + 16))] \<and> unat index < 31 \<and>
        unat b + 16 < 2 ^ 64 \<and> held_storage p' (b + 16) = block_range b (unat index) \<and>
        (\<forall>q \<in> A. held_storage p' (b + 16) \<inter> held_storage p' q = {})" if "outs \<noteq> []"
    proof -
      obtain b where b: "outs = [(op, Set_Value (b + 16))]" "L' = L(b \<mapsto> i)"
        using r(3) \<open>outs \<noteq> []\<close> by blast
      have live: "L' b = Some i" using b by simp
      from inv' have repr: "pool_repr p' F' Ws' L'" and ok: "storage_ok (owned (upstream p')) F' L'"
        unfolding pool_inv_def by blast+
      have cls: "of_class F' L' b i" using live by (simp add: of_class_def)
      have "b + 16 \<notin> A" using r(2) b by (auto simp: allocated_def)
      then have "\<forall>q \<in> A. held_storage p' (b + 16) \<inter> held_storage p' q = {}"
        using storage_live_disjoint [OF inv' live] by (metis UnI1)
      moreover have "unat index = i" using i by simp
      ultimately show ?thesis
        using b storage_okD(1,3) [OF ok cls] storage_live [of p' F' Ws' L', OF repr live] by blast
    qed
    with r show ?thesis by blast
  qed
qed

subsection \<open>Properties\<close>

lemma storage_holds:
  assumes "pool_allocate sz al = Inr index" "unat sz + 16 < 2 ^ 64" "unat index < 31" "unat b + 16 < 2 ^ 64"
  shows "{unat (b + 16) ..< unat (b + 16) + unat sz} \<subseteq> block_range b (unat index)"
proof -
  obtain n where n: "block_bytes (unat index) = Some n" using block_bytes_pos [OF assms(3)] by blast
  with block_bytes_hold [OF assms(1,2)] have "unat sz + 16 < unat n" by simp
  moreover have "unat (b + 16) = unat b + 16" using assms(4) by (simp add: unat_word_ariths)
  ultimately show ?thesis by (auto simp: block_range_def byte_range_def n)
qed



text \<open>Examples over the monotonic buffer: one with room, and one without.\<close>

definition some_buffer :: monotonic_resource where
  "some_buffer = \<lparr>mr_buffer = 4096, mr_size = 1024\<rparr>"

definition no_buffer :: monotonic_resource where
  "no_buffer = \<lparr>mr_buffer = 4096, mr_size = 0\<rparr>"

lemma some_buffer_valid: "monotonic_valid some_buffer" "monotonic_valid no_buffer"
  by (simp_all add: monotonic_valid_def some_buffer_def no_buffer_def)

lemma some_buffer_allocate:
  "resource_allocate monotonic_allocate 64 16 some_buffer = (4160, \<lparr>mr_buffer = 4224, mr_size = 896\<rparr>)"
  by (simp add: resource_allocate_def monotonic_allocate_def std_align_def some_buffer_def)

lemma no_buffer_allocate: "resource_allocate monotonic_allocate 64 16 no_buffer = (0, no_buffer)"
  by (simp add: resource_allocate_def monotonic_allocate_def std_align_def no_buffer_def)

lemma log2_48: "log2_64 48 = 5"
  by (rule log2_64_eqI [where m = 5, simplified]) simp_all

lemma allocate_32: "pool_allocate 32 16 = Inr 5"
  by (simp add: pool_allocate_def sizeof_memory_block_def log2_48)

lemma some_buffer_alloc: "\<exists>p' :: (nat, nat, monotonic_resource) pool.
   allocate_start monotonic_allocate False (7 :: nat) (connect_allocate 7 5 (pool_init some_buffer)) =
     Some (p', [(7, Set_Value 4176)]) \<and>
   pool_reach monotonic_allocate some_buffer p' {} {4176}"
proof -
  obtain p' :: "(nat, nat, monotonic_resource) pool" where p':
    "allocate_start monotonic_allocate False 7 (connect_allocate 7 5 (pool_init some_buffer)) =
       Some (p', [(7, Set_Value 4176)])"
    by (auto simp: allocate_start_def connect_allocate_def pool_init_def lock_def unlock_def
        block_bytes_def max_align_def some_buffer_allocate sizeof_memory_block_def)
  from pool_reach.allocate [OF pool_reach.init _ allocate_32 p'] p' show ?thesis by auto
qed



text \<open>C19 (reclaim). Giving back a block hands it to the operation that has waited longest in its class,
  or, when none waits, puts it at the front of the free list of its class; all other lists stay.\<close>

theorem reclaim_serves_oldest:
  assumes "pool_repr p F W L" "L b = Some i" "b + 16 \<noteq> 0"
  shows "\<exists>p'. case W i of
      op # ops \<Rightarrow> reclaim_memory (b + 16) p = Some (p', [(op, Set_Value (b + 16))]) \<and>
        pool_repr p' F (W(i := ops)) L
    | [] \<Rightarrow> reclaim_memory (b + 16) p = Some (p', []) \<and>
        pool_repr p' (F(i := b # F i)) W (L(b := None))"
  using reclaim_handoff [OF assms] reclaim_free [OF assms] by (cases "W i") auto

lemma two_blocks_live: "pool_repr
    ((pool_init 0 :: (nat, nat, nat) pool)\<lparr>mem := (\<lambda>_. \<lparr>mb_next = 0, mb_index = 5\<rparr>)\<rparr>)
    (\<lambda>_. []) (\<lambda>_. []) [8192 \<mapsto> 5]"
  by (auto simp: pool_repr_def blocks_ok_def waiters_ok_def pool_init_def list_repr_init
      split: if_splits)

theorem reclaim_serves_oldest_witness:
  "\<exists>p'. reclaim_memory 8208
      ((pool_init 0 :: (nat, nat, nat) pool)\<lparr>mem := (\<lambda>_. \<lparr>mb_next = 0, mb_index = 5\<rparr>)\<rparr>) =
    Some (p', []) \<and> pool_repr p' ((\<lambda>_. [])(5 := [8192])) (\<lambda>_. []) (Map.empty(8192 := None))"
  using reclaim_serves_oldest [OF two_blocks_live, of 8192 5] by simp

lemma release_list_chain:
  assumes "free_chain m p bs" "block_bytes i = Some n"
  shows "release_list dd i m p u = Some (fold (\<lambda>b. dd b n 16) bs u)"
  using assms
proof (induction bs arbitrary: p u)
  case Nil
  then show ?case by (subst release_list.simps) simp
next
  case (Cons b bs)
  then show ?case
    by (subst release_list.simps) (simp add: resource_deallocate_def max_align_def)
qed

lemma release_list_null: "release_list dd i m 0 u = Some u"
  by (subst release_list.simps) simp

lemma release_lists_fold:
  assumes "\<forall>i \<in> set is. free_chain (mem p) (block_lists p i) (F i) \<and>
    (F i \<noteq> [] \<longrightarrow> block_bytes i \<noteq> None)"
  shows "release_lists dd is p u =
    Some (fold (\<lambda>i. fold (\<lambda>b. dd b (the (block_bytes i)) 16) (F i)) is u)"
  using assms
proof (induction "is" arbitrary: u)
  case (Cons i "is")
  then have "release_list dd i (mem p) (block_lists p i) u =
      Some (fold (\<lambda>b. dd b (the (block_bytes i)) 16) (F i) u)"
  proof (cases "F i")
    case Nil
    with Cons.prems show ?thesis by (simp add: release_list_null)
  next
    case F: (Cons b bs)
    with Cons.prems obtain n where "block_bytes i = Some n" by auto
    with release_list_chain [of "mem p" "block_lists p i" "F i" i n dd u] Cons.prems
    show ?thesis by simp
  qed
  with Cons show ?case by simp
qed simp

text \<open>Remark (destroy). The destructor returns every block on a free list to the upstream resource once,
  class by class, with the size its class has; it ends, although the lists are followed through
  memory.\<close>

theorem pool_destroy_releases:
  assumes "pool_repr p F W L" "F 31 = []"
  shows "pool_destroy dd p = Some (fold (\<lambda>i. fold (\<lambda>b. dd b (the (block_bytes i)) 16) (F i))
    [0..<32] (upstream p))"
  unfolding pool_destroy_def
proof (rule release_lists_fold, intro ballI conjI impI)
  fix i assume "i \<in> set [0..<32 :: nat]"
  then have i: "i < 32" by simp
  show "free_chain (mem p) (block_lists p i) (F i)" using pool_reprD [OF assms(1) i] by blast
  assume "F i \<noteq> []"
  with assms(2) have "i \<noteq> 31" by auto
  with block_bytes_None [OF i] show "block_bytes i \<noteq> None" by simp
qed

theorem pool_destroy_releases_witness:
  "pool_destroy (\<lambda>b n al u. u @ [(b, n)]) (pool_init [] :: (nat, nat, (u64 \<times> u64) list) pool) =
     Some (fold (\<lambda>i. fold (\<lambda>b u. u @ [(b, the (block_bytes i))]) []) [0..<32] [])"
  using pool_destroy_releases [OF pool_repr_init, of "\<lambda>b n al u. u @ [(b, n)]"]
  by (simp add: pool_init_def)

text \<open>Remark (leak). Every block that the pool takes from an upstream resource costs a second block of the same size, which
  stays owned and is never handed on: \<^verbatim>\<open>memory_resource::allocate\<close> calls \<^verbatim>\<open>do_allocate\<close> twice.\<close>

theorem resource_allocate_leaks:
  assumes "upstream_resource da valid owned" "valid u" "0 < n"
    "resource_allocate da n 16 u = (b, u')" "b \<noteq> 0"
  shows "\<exists>c. c \<noteq> 0 \<and> byte_range c n \<inter> byte_range b n = {} \<and> byte_range c n \<inter> owned u = {} \<and>
    byte_range c n \<subseteq> owned u'"
  using upstream_resource.allocate_leaks [OF assms] .

theorem resource_allocate_leaks_witness:
  "\<exists>c. c \<noteq> 0 \<and> byte_range c 64 \<inter> byte_range 4160 64 = {} \<and>
     byte_range c 64 \<inter> monotonic_owned some_buffer = {}"
  using resource_allocate_leaks [OF monotonic.upstream_resource_axioms some_buffer_valid(1) _ some_buffer_allocate]
  by auto

text \<open>Remark (stop_deadlock). When no block is free, the upstream resource has none and stop was already requested,
  starting an allocation never returns: the stop callback runs inside its own construction and
  locks the mutex that \<^verbatim>\<open>start\<close> holds.\<close>

theorem allocate_stop_requested_deadlocks:
  assumes "pool_repr p F W L" "i < 31" "op_index p op = of_nat i" "F i = []"
    "block_bytes i = Some n" "resource_allocate da n 16 (upstream p) = (0, u)"
    "\<forall>j < 32. op \<notin> set (W j)"
  shows "allocate_start da True op p = None \<and>
    (\<exists>p'. allocate_start da False op p = Some (p', []))"
  using allocate_wait [OF assms(1-4,6,5,7)] by blast+

theorem allocate_stop_requested_deadlocks_witness:
  "allocate_start monotonic_allocate True 7
     (connect_allocate 7 5 (pool_init no_buffer :: (nat, nat, monotonic_resource) pool)) = None"
proof -
  let ?p = "connect_allocate 7 5 (pool_init no_buffer :: (nat, nat, monotonic_resource) pool)"
  have "pool_repr ?p (\<lambda>_. []) (\<lambda>_. []) Map.empty"
    by (rule connect_repr [OF pool_repr_init]) simp
  moreover have "upstream ?p = no_buffer" by (simp add: pool_init_def)
  ultimately show ?thesis
    using allocate_stop_requested_deadlocks [of ?p "\<lambda>_. []" "\<lambda>_. []" Map.empty 5 7 64 monotonic_allocate no_buffer]
    by (simp add: block_bytes_def no_buffer_allocate)
qed

text \<open>Remark (race). Stop can be requested after \<^verbatim>\<open>reclaim_memory\<close> took an operation from the waiting list and
  released the lock, and before it completes the operation: then the operation is completed twice,
  as stopped and with the block.\<close>

theorem reclaim_stop_race:
  assumes "pool_repr p F W L" "L b = Some i" "b + 16 \<noteq> 0" "W i = [op]"
  shows "\<exists>p1 p2 p3. reclaim_locked (b + 16) p = Some (p1, Some op) \<and>
    on_receiver_stop op p1 = Some (p2, [(op, Set_Stopped)]) \<and>
    complete_op op p2 = (p3, [(op, Set_Value (b + 16))])"
proof -
  from pool_repr_live [OF assms(1,2)] have i: "i < 32" and idx: "mb_index (mem p b) = of_nat i"
    by auto
  note r = pool_reprD [OF assms(1) i]
  have op: "op_index p op = of_nat i" using waiters_index [OF r(6) i] assms(4) by simp
  obtain h l where l: "links p = h" "pending p i = l" by simp
  with r(4) assms(4) have "nxt_of h op = None" "prv_of h op = None"
      "l_head l = Some op" "l_tail l = Some op"
    by (auto simp: list_repr_defs)
  with l r(1) i idx op assms(3) show ?thesis
    by (auto simp: reclaim_locked_def on_receiver_stop_def complete_op_def lock_def unlock_def
        sizeof_memory_block_def il_empty_def il_pop_front_def il_erase_def Let_def)
qed


definition one_waiter :: "(nat, nat, nat) pool" where
  "one_waiter = (pool_init 0)\<lparr>mem := (\<lambda>_. \<lparr>mb_next = 0, mb_index = 5\<rparr>), op_index := (\<lambda>_. 5),
     pending := (\<lambda>_. il_init)(5 := \<lparr>l_head = Some 7, l_tail = Some 7\<rparr>)\<rparr>"

lemma one_waiter_repr: "pool_repr one_waiter (\<lambda>_. []) ((\<lambda>_. [])(5 := [7])) [8192 \<mapsto> 5]"
  by (auto simp: one_waiter_def pool_repr_def blocks_ok_def waiters_ok_def pool_init_def
      list_repr_init list_repr_defs il_init_def split: if_splits)

theorem reclaim_stop_race_witness:
  "\<exists>p1 p2 p3. reclaim_locked 8208 one_waiter = Some (p1, Some 7) \<and>
    on_receiver_stop 7 p1 = Some (p2, [(7, Set_Stopped)]) \<and>
    complete_op 7 p2 = (p3, [(7, Set_Value 8208)])"
  using reclaim_stop_race [OF one_waiter_repr, of 8192 5 7] by simp

end
