(* ===== verification/Async_Allocator.thy ===== *)
theory Async_Allocator
  imports Memory_Pool
begin

text \<open>
  \<^verbatim>\<open>async_allocator.hpp\<close>, the allocator over a memory pool of \<^verbatim>\<open>memory_pool.hpp\<close>, and \<^verbatim>\<open>deferred.hpp\<close>:
  how objects are created and destroyed.
\<close>

subsection \<open>New and delete\<close>

text \<open>
  A heap says for an address whether a single object or an array of objects was allocated there. The
  address of the next allocation is an argument.
\<close>

datatype allocation = Single | Array_Of size_t

type_synonym heap = "u64 \<rightharpoonup> allocation"

definition nd_allocate :: "u64 \<Rightarrow> size_t \<Rightarrow> heap \<Rightarrow> heap" where
  "nd_allocate p sz h = h(p \<mapsto> (if sz = 1 then Single else Array_Of sz))"

text \<open>\<open>throws\<close> says that the constructor throws.\<close>

definition nd_async_new :: "'e option \<Rightarrow> u64 \<Rightarrow> heap \<Rightarrow> heap \<times> (u64, 'e) signal" where
  "nd_async_new throws p h =
     (let h1 = nd_allocate p 1 h
      in case throws of
           None \<Rightarrow> (h1, Set_Value p)
         | Some e \<Rightarrow> (h1(p := None), Set_Error e))"

definition nd_async_new_array :: "size_t \<Rightarrow> u64 \<Rightarrow> heap \<Rightarrow> heap \<times> (u64, 'e) signal" where
  "nd_async_new_array sz p h = (h(p \<mapsto> Array_Of sz), Set_Value p)"

text \<open>
  The delete operation destroys one object and gives back the storage of one object: undefined where
  no single object was allocated.
\<close>

definition delete_start :: "u64 \<Rightarrow> heap \<Rightarrow> (heap \<times> (unit, 'e) signal) option" where
  "delete_start pointer h =
     (if h pointer = Some Single then Some (h(pointer := None), Set_Value ()) else None)"

text \<open>Remark (new_delete). Creating an object and deleting it restores the heap, and so does a constructor that throws. An array, for
  which the concept \<^verbatim>\<open>array_allocator\<close> asks for the same \<^verbatim>\<open>async_delete\<close>, cannot be deleted.\<close>

theorem new_delete_roundtrip:
  assumes "h p = None"
  shows "(case nd_async_new None p h of (h1, sig) \<Rightarrow>
      sig = (Set_Value p :: (u64, 'e) signal) \<and> delete_start p h1 = Some (h, Set_Value () :: (unit, 'e) signal)) \<and>
    nd_async_new (Some e) p h = (h, Set_Error e) \<and>
    (case nd_async_new_array sz p h of (h1, sig) \<Rightarrow>
      sig = (Set_Value p :: (u64, 'e) signal) \<and> (delete_start p h1 :: (heap \<times> (unit, 'e) signal) option) = None)"
  using assms by (auto simp: nd_async_new_def nd_allocate_def nd_async_new_array_def delete_start_def Let_def)

theorem new_delete_roundtrip_witness:
  "nd_async_new (Some (7 :: nat)) 16 Map.empty = (Map.empty, Set_Error 7)"
  using new_delete_roundtrip [of Map.empty 16 "7 :: nat" 3] by blast

subsection \<open>The allocator over a pool\<close>

text \<open>
  \<^verbatim>\<open>async_new\<close> constructs the object in the storage that the pool gives; when the constructor throws it
  waits for the storage to be given back, and then completes with the error. This is what happens
  once the allocation has completed with \<open>ptr\<close>: the result has the completions of other operations, and
  then its own.
\<close>

definition pa_new_constructed ::
  "'e option \<Rightarrow> u64 \<Rightarrow> ('op, 'e, 'u) pool \<Rightarrow>
     (('op, 'e, 'u) pool \<times> ('op, 'e) completion list \<times> (u64, 'e) signal) option" where
  "pa_new_constructed throws ptr p =
     (case throws of
        None \<Rightarrow> Some (p, [], Set_Value ptr)
      | Some e \<Rightarrow> do {
          (_, p1, outs, _) \<leftarrow> deallocate_start False ptr p;
          Some (p1, outs, Set_Error e)
        })"

definition pa_async_delete ::
  "u64 \<Rightarrow> ('op, 'e, 'u) pool \<Rightarrow>
     (u64 list \<times> ('op, 'e, 'u) pool \<times> ('op, 'e) completion list \<times> (unit, 'e) signal) option" where
  "pa_async_delete ptr p = deallocate_start True ptr p"

definition pa_new_array_class :: "size_t \<Rightarrow> size_t \<Rightarrow> size_t \<Rightarrow> pool_exception + u64" where
  "pa_new_array_class sizeof_T alignof_T sz = pool_allocate (sizeof_T * sz) alignof_T"

text \<open>Remark (pool_allocator). Deleting an object destroys it once and reclaims its storage, and a constructor that throws
  reclaims the storage and destroys nothing. The size of an array is multiplied without a check: an array of
  \<open>2 ^ 60 + 1\<close> objects of 16 bytes gets the block of one object.\<close>

theorem pool_allocator_reclaims:
  "pa_async_delete ptr p = map_option (\<lambda>(p1, outs). ([ptr], p1, outs, Set_Value ())) (reclaim_memory ptr p) \<and>
   pa_new_constructed (Some e) ptr p = map_option (\<lambda>(p1, outs). (p1, outs, Set_Error e)) (reclaim_memory ptr p) \<and>
   pa_new_array_class 16 16 (2 ^ 60 + 1) = pool_allocate 16 16"
proof -
  have "(16 * (2 ^ 60 + 1) :: size_t) = 16" by code_simp
  then have "pa_new_array_class 16 16 (2 ^ 60 + 1) = pool_allocate 16 16"
    unfolding pa_new_array_class_def by (simp only:)
  moreover have "pa_async_delete ptr p = map_option (\<lambda>(p1, outs). ([ptr], p1, outs, Set_Value ())) (reclaim_memory ptr p)"
    "pa_new_constructed (Some e) ptr p = map_option (\<lambda>(p1, outs). (p1, outs, Set_Error e)) (reclaim_memory ptr p)"
    by (cases "reclaim_memory ptr p";
      auto simp: pa_async_delete_def pa_new_constructed_def deallocate_start_def)+
  ultimately show ?thesis by (intro conjI)
qed

subsection \<open>Deferred construction\<close>

text \<open>
  The storage of a \<^verbatim>\<open>deferred\<close> is a union of the arguments and the value: what is alive in it. A copy or a
  move copies the arguments, and the flag; using what is not alive is undefined.
\<close>

datatype ('a, 'v) storage = Args_Alive 'a | Value_Alive 'v | Nothing_Alive

record ('a, 'v) deferred =
  df_data :: "('a, 'v) storage"
  df_emplaced :: bool

definition df_make :: "'a \<Rightarrow> ('a, 'v) deferred" where
  "df_make a = \<lparr>df_data = Args_Alive a, df_emplaced = False\<rparr>"

definition df_copy :: "('a, 'v) deferred \<Rightarrow> ('a, 'v) deferred option" where
  "df_copy other =
     (case df_data other of
        Args_Alive a \<Rightarrow> Some \<lparr>df_data = Args_Alive a, df_emplaced = df_emplaced other\<rparr>
      | _ \<Rightarrow> None)"

text \<open>The value that the constructor makes, or that it throws. The result says whether it threw.\<close>

definition df_emplace :: "('a \<Rightarrow> 'v option) \<Rightarrow> ('a, 'v) deferred \<Rightarrow> (('a, 'v) deferred \<times> 'v option) option" where
  "df_emplace construct d =
     (case df_data d of
        Args_Alive tup \<Rightarrow>
          (let d1 = d\<lparr>df_data := Nothing_Alive\<rparr>
           in case construct tup of
                None \<Rightarrow> Some (d1, None)
              | Some v \<Rightarrow> Some (d1\<lparr>df_data := Value_Alive v, df_emplaced := True\<rparr>, Some v))
      | _ \<Rightarrow> None)"

definition df_get :: "('a, 'v) deferred \<Rightarrow> 'v option" where
  "df_get d = (case df_data d of Value_Alive v \<Rightarrow> Some v | _ \<Rightarrow> None)"

definition df_destroy :: "('a, 'v) deferred \<Rightarrow> unit option" where
  "df_destroy d =
     (if df_emplaced d then (case df_data d of Value_Alive _ \<Rightarrow> Some () | _ \<Rightarrow> None)
      else (case df_data d of Args_Alive _ \<Rightarrow> Some () | _ \<Rightarrow> None))"

text \<open>Remark (deferred). A deferred object can be copied and destroyed before it is constructed, and read and destroyed after it. It
  cannot be constructed again or copied after that; and when the constructor throws, its destructor is
  undefined: it destroys the arguments a second time.\<close>

theorem deferred_lifetime:
  assumes "construct a = Some v" "throwing a = None"
  shows "df_copy (df_make a) = Some (df_make a :: ('a, 'v) deferred) \<and>
    df_destroy (df_make a :: ('a, 'v) deferred) = Some () \<and>
    (\<exists>d. df_emplace construct (df_make a) = Some (d, Some v) \<and> df_get d = Some v \<and> df_destroy d = Some () \<and>
      df_emplace construct d = None \<and> df_copy d = None) \<and>
    (\<exists>d :: ('a, 'v) deferred. df_emplace throwing (df_make a) = Some (d, None) \<and> df_destroy d = None)"
  using assms
  by (simp add: df_copy_def df_make_def df_destroy_def df_emplace_def df_get_def Let_def)

theorem deferred_lifetime_witness:
  "\<exists>d. df_emplace (\<lambda>n. Some (n + 1)) (df_make (1 :: nat)) = Some (d, Some (2 :: nat)) \<and> df_get d = Some 2 \<and>
     df_copy d = None"
  using deferred_lifetime [of "\<lambda>n. Some (n + 1)" "1 :: nat" "2 :: nat" "\<lambda>_. None"] by auto

end
