(* ===== verification/Pool_Clients.thy ===== *)
theory Pool_Clients
  imports Memory_Pool_Safety Async_Allocator
begin

text \<open>
  A memory pool seen by its clients: the senders of \<^verbatim>\<open>memory_pool.hpp\<close>, what allocating and giving back undo of each other, and
  the resource that a pool uses when it is given none.
\<close>

subsection \<open>Senders\<close>

text \<open>
  The sender of an allocation holds the size class, that of a deallocation the pointer and the destructor. Connecting moves these
  into the operation; \<^verbatim>\<open>sync_wait\<close> of a deallocation starts it with a receiver that does nothing, and does not wait.
\<close>

record allocate_sender =
  al_index :: u64

definition allocate_sender_of :: "size_t \<Rightarrow> size_t \<Rightarrow> pool_exception + allocate_sender" where
  "allocate_sender_of sz alignment = map_sum id (\<lambda>index. \<lparr>al_index = index\<rparr>) (pool_allocate sz alignment)"

definition allocate_sender_connect :: "'op \<Rightarrow> allocate_sender \<Rightarrow> ('op, 'e, 'u) pool \<Rightarrow> ('op, 'e, 'u) pool" where
  "allocate_sender_connect op s p = connect_allocate op (al_index s) p"

record deallocate_sender =
  dl_pointer :: u64
  dl_destroy :: bool

definition pool_deallocate :: "u64 \<Rightarrow> bool \<Rightarrow> deallocate_sender" where
  "pool_deallocate ptr destroy = \<lparr>dl_pointer = ptr, dl_destroy = destroy\<rparr>"

record deallocate_op =
  dop_pointer :: u64
  dop_destroy :: bool

definition deallocate_connect :: "deallocate_sender \<Rightarrow> deallocate_op" where
  "deallocate_connect s = \<lparr>dop_pointer = dl_pointer s, dop_destroy = dl_destroy s\<rparr>"

definition deallocate_op_start ::
  "deallocate_op \<Rightarrow> ('op, 'e, 'u) pool \<Rightarrow>
     (u64 list \<times> ('op, 'e, 'u) pool \<times> ('op, 'e) completion list \<times> (unit, 'e) signal) option" where
  "deallocate_op_start d p = deallocate_start (dop_destroy d) (dop_pointer d) p"

definition deallocate_sync_wait ::
  "deallocate_sender \<Rightarrow> ('op, 'e, 'u) pool \<Rightarrow> (u64 list \<times> ('op, 'e, 'u) pool \<times> ('op, 'e) completion list) option" where
  "deallocate_sync_wait s p =
     map_option (\<lambda>(destroyed, p1, outs, sig). (destroyed, p1, outs)) (deallocate_op_start (deallocate_connect s) p)"

text \<open>Connecting the sender of an allocation and starting the operation.\<close>

definition allocate_run ::
  "(u64 \<Rightarrow> u64 \<Rightarrow> 'u \<Rightarrow> u64 \<times> 'u) \<Rightarrow> 'op \<Rightarrow> allocate_sender \<Rightarrow> ('op, 'e, 'u) pool \<Rightarrow>
     (('op, 'e, 'u) pool \<times> ('op, 'e) completion list) option" where
  "allocate_run do_allocate op s p = allocate_start do_allocate False op (allocate_sender_connect op s p)"

lemmas sender_defs = allocate_sender_of_def allocate_sender_connect_def pool_deallocate_def deallocate_connect_def
  deallocate_op_start_def deallocate_sync_wait_def allocate_run_def

subsection \<open>Allocating and giving back\<close>

lemma free_block:
  assumes "pool_repr p F Ws L" "i < 32" "block_lists p i = b" "b \<noteq> 0"
  shows "\<exists>bs. F i = b # bs" "Ws i = []" "mb_index (mem p b) = of_nat i" "\<not> locked p" "il_empty (pending p i)"
proof -
  have p: "free_chain (mem p) (block_lists p i) (F i)" "list_repr (links p, pending p i) (Ws i)" "blocks_ok p F L"
    "Ws i \<noteq> [] \<longrightarrow> F i = []"
    using assms(1,2) by (auto simp: pool_repr_def blocks_ok_def waiters_ok_def)
  then show F: "\<exists>bs. F i = b # bs" using assms(3,4) by (cases "F i") auto
  then show "Ws i = []" using p(4) by auto
  with p(2) il_empty_repr [of "(links p, pending p i)"] show "il_empty (pending p i)" by auto
  from F p(3) assms(2) show "mb_index (mem p b) = of_nat i" by (auto simp: blocks_ok_def)
  show "\<not> locked p" using assms(1) by (simp add: pool_repr_def)
qed

lemma take_free:
  assumes "pool_repr p F Ws L" "i < 32" "op_index p op = of_nat i" "block_lists p i = b" "b \<noteq> 0"
  shows "allocate_start da stop op p =
    Some (p\<lparr>block_lists := (block_lists p)(i := mb_next (mem p b))\<rparr>, [(op, Set_Value (b + 16))])"
  using assms free_block [OF assms(1,2,4,5)]
  by (simp add: allocate_start_def lock_def unlock_def sizeof_memory_block_def)

lemma reclaim_free_eq:
  assumes "\<not> locked p" "mb_index (mem p b) = of_nat i" "i < 32" "il_empty (pending p i)" "b + 16 \<noteq> 0"
  shows "reclaim_memory (b + 16) p =
    Some (p\<lparr>mem := (mem p)(b := (mem p b)\<lparr>mb_next := block_lists p i\<rparr>), block_lists := (block_lists p)(i := b)\<rparr>, [])"
  using assms by (simp add: reclaim_memory_def reclaim_locked_def lock_def unlock_def sizeof_memory_block_def Let_def)

lemma give_back:
  assumes "\<not> locked p" "mb_index (mem p b) = of_nat i" "i < 32" "il_empty (pending p i)" "b + 16 \<noteq> 0" "block_lists p i = b"
  shows "reclaim_memory (b + 16) (p\<lparr>block_lists := (block_lists p)(i := mb_next (mem p b))\<rparr>) = Some (p, [])"
  using assms by (cases p) (simp add: reclaim_free_eq fun_upd_idem)

text \<open>C20 (pool_inverse). In every reachable state, an allocation of a class that has a free block hands out the block in front, and giving that pointer back, with
  or without a destructor, leaves the pool exactly as it was when the allocation was connected: the free lists, the headers of the
  blocks, the waiting operations and the upstream resource.\<close>

theorem allocate_deallocate_inverse:
  assumes "upstream_resource da valid owned" "valid u" "pool_reach da u p W A" "op \<notin> W"
    "allocate_sender_of sz al = Inr s" "block_lists p (unat (al_index s)) = b" "b \<noteq> 0"
  shows "\<exists>p'. allocate_run da op s p = Some (p', [(op, Set_Value (b + 16))]) \<and>
    deallocate_sync_wait (pool_deallocate (b + 16) d) p' =
      Some (if d then [b + 16] else [], allocate_sender_connect op s p, [])"
proof -
  let ?p = "connect_allocate op (al_index s) p"
  have idx: "pool_allocate sz al = Inr (al_index s)" using assms(5) by (cases "pool_allocate sz al") (auto simp: allocate_sender_of_def)
  obtain i where i: "i < 32" "al_index s = of_nat i" using pool_allocate_index [OF idx] by blast
  obtain F Ws L where inv: "pool_inv valid owned ?p W A F Ws L"
    using reach_connect_inv [OF assms(3,1,2,4)] by blast
  then have repr: "pool_repr ?p F Ws L" and ok: "storage_ok (owned (upstream ?p)) F L" by (simp_all add: pool_inv_def)
  have lists: "block_lists ?p = block_lists p" by (simp add: connect_allocate_def)
  with i assms(6) have b: "block_lists ?p i = b" by simp
  note free = free_block [OF repr i(1) b assms(7)]
  have "of_class F L b i" using free(1) i(1) by (auto simp: of_class_def)
  then have b16: "b + 16 \<noteq> 0" by (rule storage_okD(4) [OF ok])
  let ?p1 = "?p\<lparr>block_lists := (block_lists ?p)(i := mb_next (mem ?p b))\<rparr>"
  have run: "allocate_run da op s p = Some (?p1, [(op, Set_Value (b + 16))])"
    using take_free [OF repr i(1) _ b assms(7), of op da False] i by (simp add: sender_defs)
  have "reclaim_memory (b + 16) ?p1 = Some (?p, [])"
    by (rule give_back [OF free(4,3) i(1) free(5) b16 b])
  with run show ?thesis by (intro exI [of _ ?p1]) (simp add: sender_defs deallocate_start_def)
qed

text \<open>Remark (pool_reuse). When nobody waited for the storage that is given back, the next allocation of its class gets this storage again; the free lists
  are then as they were before, and the upstream resource was not asked.\<close>

theorem deallocate_allocate_reuses:
  assumes "upstream_resource da valid owned" "valid u" "pool_reach da u p W A" "op \<notin> W" "q \<in> A"
    "deallocate_sync_wait (pool_deallocate q d) p = Some (destroyed, p1, [])"
    "al_index s = mb_index (mem p (q - 16))"
  shows "\<exists>p2. allocate_run da op s p1 = Some (p2, [(op, Set_Value q)]) \<and>
    block_lists p2 = block_lists p \<and> upstream p2 = upstream p"
proof -
  obtain F Ws L where inv: "pool_inv valid owned p W A F Ws L"
    using pool_reach_inv [OF assms(3,1,2)] by (elim exE)
  then have repr: "pool_repr p F Ws L" and A: "A = (\<lambda>b. b + 16) ` dom L" and W: "W = (\<Union>i<32. set (Ws i))"
    and ok: "storage_ok (owned (upstream p)) F L" by (simp_all add: pool_inv_def)
  from A assms(5) obtain b i where b: "q = b + 16" "L b = Some i" by auto
  have i: "i < 32" "mb_index (mem p b) = of_nat i" "b \<noteq> 0" and locked: "\<not> locked p"
    using repr b(2) unfolding pool_repr_def blocks_ok_def by blast+
  have b16: "b + 16 \<noteq> 0" using b(2) by (intro storage_okD(4) [OF ok]) (auto simp: of_class_def)
  have "Ws i = []"
  proof (rule ccontr)
    assume "Ws i \<noteq> []"
    then obtain w ws where "Ws i = w # ws" by (cases "Ws i") auto
    with reclaim_handoff [OF repr b(2) b16] have "\<exists>p'. reclaim_memory q p = Some (p', [(w, Set_Value q)])" by (auto simp: b(1))
    with assms(6) show False by (auto simp: sender_defs deallocate_start_def)
  qed
  with repr i(1) have empty: "il_empty (pending p i)"
    using il_empty_repr [of "(links p, pending p i)" "Ws i"] by (auto simp: pool_repr_def waiters_ok_def)
  let ?p1 = "p\<lparr>mem := (mem p)(b := (mem p b)\<lparr>mb_next := block_lists p i\<rparr>), block_lists := (block_lists p)(i := b)\<rparr>"
  have "p1 = ?p1" using assms(6) reclaim_free_eq [OF locked i(2,1) empty b16] by (auto simp: sender_defs deallocate_start_def b(1))
  moreover have "pool_repr ?p1 (F(i := b # F i)) Ws (L(b := None))"
    using reclaim_free [OF repr b(2) b16 \<open>Ws i = []\<close>] reclaim_free_eq [OF locked i(2,1) empty b16] by auto
  moreover have "\<forall>j < 32. op \<notin> set (Ws j)" using assms(4) W by blast
  ultimately have "pool_repr (connect_allocate op (of_nat i) p1) (F(i := b # F i)) Ws (L(b := None))"
    by (intro connect_repr) simp_all
  from take_free [OF this i(1) _ _ i(3), of op da False] \<open>p1 = ?p1\<close> assms(7) b(1) i(2)
  show ?thesis by (simp add: sender_defs connect_allocate_def fun_upd_idem)
qed

subsection \<open>The default resource\<close>

text \<open>
  The resource that a pool uses by default allocates with the aligned operator \<^verbatim>\<open>new\<close>, and gives back with the operator \<^verbatim>\<open>delete\<close> that has no
  alignment, which is undefined (\<open>None\<close>) for storage of the aligned one. The address of new storage is an argument.
\<close>

datatype new_kind = Plain_New | Aligned_New u64

type_synonym new_heap = "(u64 \<rightharpoonup> new_kind) option"

definition default_allocate :: "(new_heap \<Rightarrow> u64) \<Rightarrow> u64 \<Rightarrow> u64 \<Rightarrow> new_heap \<Rightarrow> u64 \<times> new_heap" where
  "default_allocate address bytes alignment h =
     (address h, map_option (\<lambda>h. h(address (Some h) \<mapsto> Aligned_New alignment)) h)"

definition default_deallocate :: "u64 \<Rightarrow> u64 \<Rightarrow> u64 \<Rightarrow> new_heap \<Rightarrow> new_heap" where
  "default_deallocate p bytes alignment h = do {
     h1 \<leftarrow> h;
     (if h1 p = Some Plain_New then Some (h1(p := None)) else None)
   }"

lemma default_deallocate_None [simp]: "default_deallocate p n al None = None"
  by (simp add: default_deallocate_def)

lemma fold_default_None: "fold (\<lambda>i. fold (\<lambda>b. default_deallocate b (f i) 16) (F i)) is None = None"
proof (induction "is")
  case (Cons i "is")
  have "fold (\<lambda>b. default_deallocate b (f i) 16) bs None = None" for bs by (induction bs) simp_all
  with Cons show ?case by simp
qed simp

lemma default_release:
  assumes "pool_repr p ((\<lambda>_. [])(i := [b])) Ws L" "i < 31" "upstream p = Some h" "h b = Some (Aligned_New al)"
  shows "pool_destroy default_deallocate p = Some None"
proof -
  let ?F = "(\<lambda>_. [])(i := [b])"
  let ?f = "\<lambda>i. fold (\<lambda>b. default_deallocate b (the (block_bytes i)) 16) (?F i)"
  have "[0..<32] = [0..<i] @ i # [Suc i..<32]" using assms(2) upt_add_eq_append [of 0 i "32 - i"] upt_conv_Cons [of i 32] by simp
  moreover have "fold ?f is (Some h) = Some h" if "i \<notin> set is" for "is" using that by (induction "is") simp_all
  moreover have "?f i (Some h) = None" by (simp add: default_deallocate_def assms(4))
  ultimately have "fold ?f [0..<32] (Some h) = None" using fold_default_None [of "\<lambda>i. the (block_bytes i)" ?F "[Suc i..<32]"] by simp
  with pool_destroy_releases [OF assms(1)] assms(2,3) show ?thesis by simp
qed

text \<open>C37 (default_resource). A pool over its default resource cannot be destroyed once a client gave a block back: the destructor deletes a block, which the aligned operator
  \<^verbatim>\<open>new\<close> allocated, with the operator \<^verbatim>\<open>delete\<close> of unaligned storage, which is undefined.\<close>

theorem default_resource_undefined:
  fixes op :: 'op
  assumes "allocate_sender_of sz al = Inr s" "al_index s < 31" "\<And>h. address h \<noteq> 0 \<and> address h + 16 \<noteq> 0"
  shows "\<exists>p1 q destroyed p2. allocate_run (default_allocate address) op s (pool_init (Some Map.empty) :: ('op, 'e, new_heap) pool) =
      Some (p1, [(op, Set_Value q)]) \<and>
    deallocate_sync_wait (pool_deallocate q d) p1 = Some (destroyed, p2, []) \<and>
    pool_destroy default_deallocate p2 = Some None"
proof -
  let ?p = "connect_allocate op (al_index s) (pool_init (Some Map.empty) :: ('op, 'e, new_heap) pool)"
  have idx: "pool_allocate sz al = Inr (al_index s)" using assms(1) by (cases "pool_allocate sz al") (auto simp: allocate_sender_of_def)
  obtain i where i: "i < 32" "al_index s = of_nat i" using pool_allocate_index [OF idx] by blast
  then have i31: "i < 31" using assms(2) by (simp add: word_less_nat_alt)
  have repr: "pool_repr ?p (\<lambda>_. []) (\<lambda>_. []) Map.empty" by (rule connect_repr [OF pool_repr_init]) simp
  obtain n where n: "block_bytes i = Some n" using block_bytes_None [OF i(1)] i31 by auto
  let ?h = "[address (Some Map.empty) \<mapsto> Aligned_New 16]"
  let ?b = "address (Some ?h)"
  let ?h1 = "?h(?b \<mapsto> Aligned_New 16)"
  have res: "resource_allocate (default_allocate address) n 16 (upstream ?p) = (?b, Some ?h1)"
    using assms(3) by (simp add: resource_allocate_def default_allocate_def connect_allocate_def pool_init_def Let_def)
  obtain p1 where p1: "allocate_start (default_allocate address) False op ?p = Some (p1, [(op, Set_Value (?b + 16))])"
    "pool_repr p1 (\<lambda>_. []) (\<lambda>_. []) [?b \<mapsto> i]" "upstream p1 = Some ?h1"
    using allocate_fresh [OF repr i31 _ _ res n, of op False] i(2) assms(3) by auto
  obtain p2 where p2: "reclaim_memory (?b + 16) p1 = Some (p2, [])" "upstream p2 = Some ?h1"
    "pool_repr p2 ((\<lambda>_. [])(i := [?b])) (\<lambda>_. []) ([?b \<mapsto> i](?b := None))"
    using reclaim_free [OF p1(2), of ?b i] assms(3) p1(3) by auto
  have "pool_destroy default_deallocate p2 = Some None" by (rule default_release [OF p2(3) i31 p2(2)]) simp
  moreover have "deallocate_sync_wait (pool_deallocate (?b + 16) d) p1 = Some (if d then [?b + 16] else [], p2, [])"
    using p2(1) by (simp add: sender_defs deallocate_start_def)
  moreover have "allocate_run (default_allocate address) op s (pool_init (Some Map.empty)) = Some (p1, [(op, Set_Value (?b + 16))])"
    using p1(1) by (simp add: sender_defs)
  ultimately show ?thesis by blast
qed

theorem default_resource_undefined_witness:
  "\<exists>p1 q destroyed (p2 :: (nat, nat, new_heap) pool).
     allocate_run (default_allocate (\<lambda>h. if h = Some Map.empty then 4096 else 8192)) 7 \<lparr>al_index = 5\<rparr> (pool_init (Some Map.empty)) =
       Some (p1, [(7, Set_Value q)]) \<and>
     deallocate_sync_wait (pool_deallocate q True) p1 = Some (destroyed, p2, []) \<and> pool_destroy default_deallocate p2 = Some None"
proof (rule default_resource_undefined)
  show "allocate_sender_of 32 16 = Inr \<lparr>al_index = 5\<rparr>" by (simp add: allocate_sender_of_def allocate_32)
qed simp_all

theorem allocate_deallocate_inverse_witness:
  "\<exists>p1 p2 :: (nat, nat, monotonic_resource) pool. pool_reach monotonic_allocate some_buffer p1 {} {} \<and>
     allocate_run monotonic_allocate 8 \<lparr>al_index = 5\<rparr> p1 = Some (p2, [(8, Set_Value 4176)]) \<and>
     deallocate_sync_wait (pool_deallocate 4176 True) p2 = Some ([4176], allocate_sender_connect 8 \<lparr>al_index = 5\<rparr> p1, [])"
proof -
  obtain p0 :: "(nat, nat, monotonic_resource) pool" where p0:
    "allocate_start monotonic_allocate False 7 (connect_allocate 7 5 (pool_init some_buffer)) = Some (p0, [(7, Set_Value 4176)])"
    "pool_reach monotonic_allocate some_buffer p0 {} {4176}" using some_buffer_alloc by blast
  have "\<exists>p1. deallocate_start True 4176 p0 = Some ([4176], p1, [], Set_Value ()) \<and> block_lists p1 5 = 4160"
    using p0(1) by (auto simp: allocate_start_def connect_allocate_def pool_init_def lock_def unlock_def block_bytes_def max_align_def
        some_buffer_allocate sizeof_memory_block_def deallocate_start_def reclaim_memory_def reclaim_locked_def il_empty_def
        il_init_def)
  then obtain p1 where p1: "deallocate_start True 4176 p0 = Some ([4176], p1, [], Set_Value ())" "block_lists p1 5 = 4160" by blast
  have reach: "pool_reach monotonic_allocate some_buffer p1 {} {}" using pool_reach.deallocate [OF p0(2) _ p1(1)] by simp
  have "allocate_sender_of 32 16 = Inr \<lparr>al_index = 5\<rparr>" by (simp add: allocate_sender_of_def allocate_32)
  from allocate_deallocate_inverse [OF monotonic.upstream_resource_axioms some_buffer_valid(1) reach _ this, of 8 4160 True] p1(2)
  obtain p2 where "allocate_run monotonic_allocate 8 \<lparr>al_index = 5\<rparr> p1 = Some (p2, [(8, Set_Value 4176)])"
    "deallocate_sync_wait (pool_deallocate 4176 True) p2 = Some ([4176], allocate_sender_connect 8 \<lparr>al_index = 5\<rparr> p1, [])"
    by auto
  with reach show ?thesis by blast
qed

end
