(* ===== verification/Customization.thy ===== *)
theory Customization
  imports Sio_Prelude
begin

text \<open>
  The customization points of \<^verbatim>\<open>async_resource.hpp\<close>, \<^verbatim>\<open>io_concepts.hpp\<close> and \<^verbatim>\<open>net_concepts.hpp\<close>: function
  objects that call a member function of their first argument, or else a static one of its class. Their
  constraints, exception specifications and bodies are expressions that the compiler looks at; which of
  them are well-formed is the interface of a class.
\<close>

subsection \<open>What the compiler knows of a class\<close>

text \<open>An expression is ill-formed, or well-formed with or without the promise not to throw.\<close>

datatype expression = Ill_Formed | Well_Formed bool

definition well_formed :: "expression \<Rightarrow> bool" where
  "well_formed e \<longleftrightarrow> e \<noteq> Ill_Formed"

definition nothrow :: "expression \<Rightarrow> bool" where
  "nothrow e \<longleftrightarrow> e = Well_Formed True"

lemma well_formed_simps [simp]: "\<not> well_formed Ill_Formed" "well_formed (Well_Formed b)"
  by (simp_all add: well_formed_def)

lemma nothrow_simps [simp]: "\<not> nothrow Ill_Formed" "nothrow (Well_Formed b) = b"
  by (simp_all add: nothrow_def)

lemma nothrow_well_formed: "nothrow e \<Longrightarrow> well_formed e"
  by (simp add: nothrow_def)

text \<open>
  A call depends on the category of the object, and on whether the other arguments are passed on as they
  came or by their names, as lvalues. \<open>member_fn\<close> is \<open>x.f(args...)\<close>, \<open>static_fn\<close> is \<open>T::f(x, args...)\<close> for the
  class \<open>T\<close> of \<open>x\<close>.
\<close>

datatype category = Lvalue | Const_Lvalue | Rvalue

datatype passing = Forwarded | Named

record interface =
  member_fn :: "category \<Rightarrow> passing \<Rightarrow> expression"
  static_fn :: "category \<Rightarrow> passing \<Rightarrow> expression"

text \<open>
  Where a template names \<open>T::f\<close> and \<open>T\<close> was deduced as a reference, the expression is ill-formed: a
  reference has no members. A forwarding parameter is a reference unless the argument is an rvalue.
\<close>

definition reference_static :: "interface \<Rightarrow> category \<Rightarrow> passing \<Rightarrow> expression" where
  "reference_static t c a = Ill_Formed"

definition deduced_static :: "interface \<Rightarrow> category \<Rightarrow> passing \<Rightarrow> expression" where
  "deduced_static t c a = (if c = Rvalue then static_fn t c a else reference_static t c a)"

text \<open>
  The result of a call of a customization point: it takes no part in overload resolution, it is chosen
  but its body does not compile, or it calls a function.
\<close>

datatype callee = Member | Static_Member | Sequence_Of | Repeat_And_Fork

datatype call_result = Not_Viable | Ill_Formed_Body | Calls callee

definition call_of :: "callee \<Rightarrow> expression \<Rightarrow> call_result" where
  "call_of f e = (if well_formed e then Calls f else Ill_Formed_Body)"

text \<open>The shape of most bodies: the member function when the constraint found one, else the static one.\<close>

definition member_or_static :: "bool \<Rightarrow> bool \<Rightarrow> expression \<Rightarrow> expression \<Rightarrow> call_result" where
  "member_or_static viable has_member m s =
     (if \<not> viable then Not_Viable
      else if has_member then call_of Member m
      else call_of Static_Member s)"

lemma member_or_static_sound:
  assumes "viable \<longleftrightarrow> well_formed m \<or> well_formed s" "has_member \<longleftrightarrow> well_formed m"
  shows "member_or_static viable has_member m s \<noteq> Ill_Formed_Body"
    "member_or_static viable has_member m s = Not_Viable \<longleftrightarrow> \<not> viable"
  using assms by (auto simp: member_or_static_def call_of_def)

subsection \<open>Resources\<close>

text \<open>\<open>open\<close> takes its resource by reference, and asks for the static function through that reference.\<close>

definition open_viable :: "interface \<Rightarrow> bool" where
  "open_viable t \<longleftrightarrow> well_formed (member_fn t Lvalue Forwarded) \<or>
     well_formed (reference_static t Lvalue Forwarded)"

definition open_noexcept :: "interface \<Rightarrow> bool" where
  "open_noexcept t \<longleftrightarrow> nothrow (member_fn t Lvalue Forwarded) \<or>
     nothrow (reference_static t Lvalue Forwarded)"

definition open_call :: "interface \<Rightarrow> call_result" where
  "open_call t = member_or_static (open_viable t) (well_formed (member_fn t Lvalue Forwarded))
     (member_fn t Lvalue Forwarded) (static_fn t Lvalue Forwarded)"

text \<open>\<open>close\<close> is constrained by the calls on a mutable token, but makes them on a constant one.\<close>

definition close_viable :: "interface \<Rightarrow> bool" where
  "close_viable t \<longleftrightarrow> well_formed (member_fn t Lvalue Forwarded) \<or>
     well_formed (reference_static t Lvalue Forwarded)"

definition close_noexcept :: "interface \<Rightarrow> bool" where
  "close_noexcept t \<longleftrightarrow> nothrow (member_fn t Const_Lvalue Forwarded) \<or>
     nothrow (reference_static t Const_Lvalue Forwarded)"

definition close_call :: "interface \<Rightarrow> call_result" where
  "close_call t = member_or_static (close_viable t) (well_formed (member_fn t Const_Lvalue Forwarded))
     (member_fn t Const_Lvalue Forwarded) (static_fn t Const_Lvalue Forwarded)"

text \<open>
  \<open>use\<close> forwards its resource to the constraint but names it in the call; a class without a function
  \<open>use\<close> is used as the sequence that opens and closes it, when it has both functions and their senders
  complete with one token and with nothing.
\<close>

definition with_open :: "interface \<Rightarrow> bool \<Rightarrow> bool" where
  "with_open opens single_value \<longleftrightarrow> open_viable opens \<and> single_value"

definition with_open_and_close :: "interface \<Rightarrow> bool \<Rightarrow> interface \<Rightarrow> bool \<Rightarrow> bool" where
  "with_open_and_close opens single_value closes sender_of_void \<longleftrightarrow>
     with_open opens single_value \<and> close_viable closes \<and> sender_of_void"

definition has_use_member :: "category \<Rightarrow> interface \<Rightarrow> bool" where
  "has_use_member c t \<longleftrightarrow> well_formed (member_fn t c Forwarded) \<or> well_formed (deduced_static t c Forwarded)"

definition named_category :: "category \<Rightarrow> category" where
  "named_category c = (if c = Rvalue then Lvalue else c)"

definition use_call :: "category \<Rightarrow> bool \<Rightarrow> interface \<Rightarrow> call_result" where
  "use_call c open_and_close t =
     (if has_use_member c t then
        (if well_formed (member_fn t c Forwarded) then call_of Member (member_fn t (named_category c) Named)
         else call_of Static_Member (if c = Rvalue then static_fn t Lvalue Named else Ill_Formed))
      else if \<not> has_use_member Rvalue t \<and> open_and_close then Calls Sequence_Of
      else Not_Viable)"

definition resource_concept :: "category \<Rightarrow> bool \<Rightarrow> interface \<Rightarrow> bool" where
  "resource_concept c open_and_close t \<longleftrightarrow> use_call c open_and_close t \<noteq> Not_Viable"

subsection \<open>Paths, streams and files\<close>

definition open_path_viable :: "interface \<Rightarrow> bool" where
  "open_path_viable t \<longleftrightarrow> well_formed (member_fn t Lvalue Forwarded) \<or> well_formed (static_fn t Lvalue Forwarded)"

definition open_path_noexcept :: "interface \<Rightarrow> bool" where
  "open_path_noexcept t \<longleftrightarrow> nothrow (member_fn t Lvalue Forwarded) \<or> nothrow (static_fn t Lvalue Forwarded)"

text \<open>The constraint of \<open>open_path\<close> is on a mutable factory, the call on a constant one.\<close>

definition open_path_call :: "interface \<Rightarrow> call_result" where
  "open_path_call t = member_or_static (open_path_viable t) (well_formed (member_fn t Lvalue Forwarded))
     (member_fn t Const_Lvalue Forwarded) (static_fn t Const_Lvalue Forwarded)"

definition read_some_cpo_viable :: "interface \<Rightarrow> bool" where
  "read_some_cpo_viable t \<longleftrightarrow> well_formed (member_fn t Const_Lvalue Forwarded) \<or> well_formed (static_fn t Const_Lvalue Forwarded)"

definition read_some_cpo_noexcept :: "interface \<Rightarrow> bool" where
  "read_some_cpo_noexcept t \<longleftrightarrow> nothrow (member_fn t Const_Lvalue Forwarded) \<or> nothrow (static_fn t Const_Lvalue Forwarded)"

definition read_some_cpo_call :: "interface \<Rightarrow> call_result" where
  "read_some_cpo_call t = member_or_static (read_some_cpo_viable t) (well_formed (member_fn t Const_Lvalue Forwarded))
     (member_fn t Const_Lvalue Forwarded) (static_fn t Const_Lvalue Forwarded)"

definition read_cpo_viable :: "interface \<Rightarrow> bool" where
  "read_cpo_viable t \<longleftrightarrow> well_formed (member_fn t Const_Lvalue Forwarded) \<or> well_formed (static_fn t Const_Lvalue Forwarded)"

definition read_cpo_noexcept :: "interface \<Rightarrow> bool" where
  "read_cpo_noexcept t \<longleftrightarrow> nothrow (member_fn t Const_Lvalue Forwarded) \<or> nothrow (static_fn t Const_Lvalue Forwarded)"

definition read_cpo_call :: "interface \<Rightarrow> call_result" where
  "read_cpo_call t = member_or_static (read_cpo_viable t) (well_formed (member_fn t Const_Lvalue Forwarded))
     (member_fn t Const_Lvalue Forwarded) (static_fn t Const_Lvalue Forwarded)"

text \<open>
  \<open>write_some\<close> looks for a member function that takes the buffers by name, and passes them on as they
  came; so does \<open>write\<close>, for its static function too.
\<close>

definition write_some_cpo_viable :: "interface \<Rightarrow> bool" where
  "write_some_cpo_viable t \<longleftrightarrow> well_formed (member_fn t Const_Lvalue Named) \<or> well_formed (static_fn t Const_Lvalue Forwarded)"

definition write_some_cpo_noexcept :: "interface \<Rightarrow> bool" where
  "write_some_cpo_noexcept t \<longleftrightarrow> nothrow (member_fn t Const_Lvalue Forwarded) \<or> nothrow (static_fn t Const_Lvalue Forwarded)"

definition write_some_cpo_call :: "interface \<Rightarrow> call_result" where
  "write_some_cpo_call t = member_or_static (write_some_cpo_viable t) (well_formed (member_fn t Const_Lvalue Named))
     (member_fn t Const_Lvalue Forwarded) (static_fn t Const_Lvalue Forwarded)"

definition write_cpo_viable :: "interface \<Rightarrow> bool" where
  "write_cpo_viable t \<longleftrightarrow> well_formed (member_fn t Const_Lvalue Named) \<or> well_formed (static_fn t Const_Lvalue Named)"

definition write_cpo_noexcept :: "interface \<Rightarrow> bool" where
  "write_cpo_noexcept t \<longleftrightarrow> nothrow (member_fn t Const_Lvalue Named) \<or> nothrow (static_fn t Const_Lvalue Named)"

definition write_cpo_call :: "interface \<Rightarrow> call_result" where
  "write_cpo_call t = member_or_static (write_cpo_viable t) (well_formed (member_fn t Const_Lvalue Named))
     (member_fn t Const_Lvalue Forwarded) (static_fn t Const_Lvalue Forwarded)"

text \<open>
  \<open>open_file\<close> needs a factory of paths as well (\<open>paths\<close> is its interface for \<open>open_path\<close>). The constraint asks the class for the
  static function, the body asks the deduced type, which is a reference for an lvalue; the arguments are
  forwarded by the constraint and named by the body.
\<close>

definition path_factory :: "interface \<Rightarrow> bool" where
  "path_factory paths \<longleftrightarrow> open_path_viable paths"

definition open_file_viable :: "category \<Rightarrow> interface \<Rightarrow> interface \<Rightarrow> bool" where
  "open_file_viable c paths t \<longleftrightarrow> path_factory paths \<and>
     (well_formed (member_fn t c Forwarded) \<or> well_formed (static_fn t c Forwarded))"

definition open_file_noexcept :: "category \<Rightarrow> interface \<Rightarrow> interface \<Rightarrow> bool" where
  "open_file_noexcept c paths t \<longleftrightarrow> path_factory paths \<and>
     (nothrow (member_fn t c Forwarded) \<or> nothrow (static_fn t c Forwarded))"

definition open_file_call :: "category \<Rightarrow> interface \<Rightarrow> interface \<Rightarrow> call_result" where
  "open_file_call c paths t =
     member_or_static (open_file_viable c paths t) (well_formed (member_fn t c Forwarded))
       (member_fn t c Named) (deduced_static t c Named)"

text \<open>Without a base, the handle of paths has to know the current directory.\<close>

definition open_file_here_call :: "category \<Rightarrow> bool \<Rightarrow> interface \<Rightarrow> interface \<Rightarrow> call_result" where
  "open_file_here_call c has_current_directory paths t =
     (if open_file_viable c paths t \<and> has_current_directory then open_file_call c paths t
      else Not_Viable)"

subsection \<open>Sockets\<close>

text \<open>
  These forward their first argument, to the constraint and to the call, and name its class without the
  reference.
\<close>

definition socket_cpo_viable :: "category \<Rightarrow> interface \<Rightarrow> bool" where
  "socket_cpo_viable c t \<longleftrightarrow> well_formed (member_fn t c Forwarded) \<or> well_formed (static_fn t c Forwarded)"

definition socket_cpo_noexcept :: "category \<Rightarrow> interface \<Rightarrow> bool" where
  "socket_cpo_noexcept c t \<longleftrightarrow> nothrow (member_fn t c Forwarded) \<or> nothrow (static_fn t c Forwarded)"

definition socket_cpo_call :: "category \<Rightarrow> interface \<Rightarrow> call_result" where
  "socket_cpo_call c t = member_or_static (socket_cpo_viable c t) (well_formed (member_fn t c Forwarded))
     (member_fn t c Forwarded) (static_fn t c Forwarded)"

definition connect_cpo_viable :: "category \<Rightarrow> interface \<Rightarrow> bool" where
  "connect_cpo_viable c t \<longleftrightarrow> well_formed (member_fn t c Forwarded) \<or> well_formed (static_fn t c Forwarded)"

definition connect_cpo_noexcept :: "category \<Rightarrow> interface \<Rightarrow> bool" where
  "connect_cpo_noexcept c t \<longleftrightarrow> nothrow (member_fn t c Forwarded) \<or> nothrow (static_fn t c Forwarded)"

definition connect_cpo_call :: "category \<Rightarrow> interface \<Rightarrow> call_result" where
  "connect_cpo_call c t = member_or_static (connect_cpo_viable c t) (well_formed (member_fn t c Forwarded))
     (member_fn t c Forwarded) (static_fn t c Forwarded)"

definition accept_once_cpo_viable :: "category \<Rightarrow> interface \<Rightarrow> bool" where
  "accept_once_cpo_viable c t \<longleftrightarrow> well_formed (member_fn t c Forwarded) \<or> well_formed (static_fn t c Forwarded)"

definition accept_once_cpo_noexcept :: "category \<Rightarrow> interface \<Rightarrow> bool" where
  "accept_once_cpo_noexcept c t \<longleftrightarrow> nothrow (member_fn t c Forwarded) \<or> nothrow (static_fn t c Forwarded)"

definition accept_once_cpo_call :: "category \<Rightarrow> interface \<Rightarrow> call_result" where
  "accept_once_cpo_call c t = member_or_static (accept_once_cpo_viable c t) (well_formed (member_fn t c Forwarded))
     (member_fn t c Forwarded) (static_fn t c Forwarded)"

text \<open>
  \<open>accept\<close> falls back on repeating \<open>accept_once\<close>, each connection in an operation of its own: the
  first interface is that of \<open>accept\<close>, the second that of \<open>accept_once\<close>.
\<close>

definition accept_viable :: "category \<Rightarrow> interface \<Rightarrow> interface \<Rightarrow> bool" where
  "accept_viable c t once \<longleftrightarrow> well_formed (member_fn t c Forwarded) \<or> well_formed (static_fn t c Forwarded) \<or>
     accept_once_cpo_viable c once"

definition accept_noexcept :: "category \<Rightarrow> interface \<Rightarrow> bool" where
  "accept_noexcept c t \<longleftrightarrow> nothrow (member_fn t c Forwarded) \<or> nothrow (static_fn t c Forwarded)"

definition accept_call :: "category \<Rightarrow> interface \<Rightarrow> interface \<Rightarrow> call_result" where
  "accept_call c t once =
     (if \<not> accept_viable c t once then Not_Viable
      else if well_formed (member_fn t c Forwarded) then call_of Member (member_fn t c Forwarded)
      else if well_formed (static_fn t c Forwarded) then call_of Static_Member (static_fn t c Forwarded)
      else (case accept_once_cpo_call c once of Calls _ \<Rightarrow> Calls Repeat_And_Fork | r \<Rightarrow> r))"

definition sendmsg_cpo_viable :: "category \<Rightarrow> interface \<Rightarrow> bool" where
  "sendmsg_cpo_viable c t \<longleftrightarrow> well_formed (member_fn t c Forwarded) \<or> well_formed (static_fn t c Forwarded)"

definition sendmsg_cpo_noexcept :: "category \<Rightarrow> interface \<Rightarrow> bool" where
  "sendmsg_cpo_noexcept c t \<longleftrightarrow> nothrow (member_fn t c Forwarded) \<or> nothrow (static_fn t c Forwarded)"

definition sendmsg_cpo_call :: "category \<Rightarrow> interface \<Rightarrow> call_result" where
  "sendmsg_cpo_call c t = member_or_static (sendmsg_cpo_viable c t) (well_formed (member_fn t c Forwarded))
     (member_fn t c Forwarded) (static_fn t c Forwarded)"

definition recvmsg_cpo_viable :: "category \<Rightarrow> interface \<Rightarrow> bool" where
  "recvmsg_cpo_viable c t \<longleftrightarrow> well_formed (member_fn t c Forwarded) \<or> well_formed (static_fn t c Forwarded)"

definition recvmsg_cpo_noexcept :: "category \<Rightarrow> interface \<Rightarrow> bool" where
  "recvmsg_cpo_noexcept c t \<longleftrightarrow> nothrow (member_fn t c Forwarded) \<or> nothrow (static_fn t c Forwarded)"

definition recvmsg_cpo_call :: "category \<Rightarrow> interface \<Rightarrow> call_result" where
  "recvmsg_cpo_call c t = member_or_static (recvmsg_cpo_viable c t) (well_formed (member_fn t c Forwarded))
     (member_fn t c Forwarded) (static_fn t c Forwarded)"

end
