(* ===== verification/Allocator_Concepts.thy ===== *)
theory Allocator_Concepts
  imports Customization Async_Allocator
begin

text \<open>
  The customization points of \<^verbatim>\<open>async_allocator.hpp\<close> and its concepts, and the two allocators of the
  library that model them.
\<close>

subsection \<open>Customization points\<close>

text \<open>Each takes the allocator by value and calls a member function of that parameter, an lvalue; there is no other way.\<close>

definition member_viable :: "interface \<Rightarrow> bool" where
  "member_viable t \<longleftrightarrow> well_formed (member_fn t Lvalue Forwarded)"

definition member_nothrow :: "interface \<Rightarrow> bool" where
  "member_nothrow t \<longleftrightarrow> nothrow (member_fn t Lvalue Forwarded)"

definition member_call :: "interface \<Rightarrow> call_result" where
  "member_call t = (if member_viable t then call_of Member (member_fn t Lvalue Forwarded) else Not_Viable)"

definition allocate_cpo_call :: "interface \<Rightarrow> call_result" where
  "allocate_cpo_call t = member_call t"

definition allocate_cpo_noexcept :: "interface \<Rightarrow> bool" where
  "allocate_cpo_noexcept t = member_nothrow t"

definition async_new_call :: "interface \<Rightarrow> call_result" where
  "async_new_call t = member_call t"

definition async_new_noexcept :: "interface \<Rightarrow> bool" where
  "async_new_noexcept t = member_nothrow t"

definition async_new_array_call :: "interface \<Rightarrow> call_result" where
  "async_new_array_call t = member_call t"

definition async_new_array_noexcept :: "interface \<Rightarrow> bool" where
  "async_new_array_noexcept t = member_nothrow t"

definition async_delete_call :: "interface \<Rightarrow> call_result" where
  "async_delete_call t = member_call t"

definition async_delete_noexcept :: "interface \<Rightarrow> bool" where
  "async_delete_noexcept t = member_nothrow t"

subsection \<open>Concepts\<close>

text \<open>The functions that an allocator has.\<close>

record allocator_class =
  allocate_of :: interface
  async_new_of :: interface
  async_new_array_of :: interface
  async_delete_of :: interface

definition allocator_concept :: "allocator_class \<Rightarrow> bool" where
  "allocator_concept a \<longleftrightarrow> async_new_call (async_new_of a) = Calls Member \<and>
     async_delete_call (async_delete_of a) = Calls Member"

definition array_allocator_concept :: "allocator_class \<Rightarrow> bool" where
  "array_allocator_concept a \<longleftrightarrow> async_new_array_call (async_new_array_of a) = Calls Member \<and>
     async_delete_call (async_delete_of a) = Calls Member"

definition constant_member :: "bool \<Rightarrow> interface" where
  "constant_member is_noexcept = \<lparr>member_fn = \<lambda>_ _. Well_Formed is_noexcept, static_fn = \<lambda>_ _. Ill_Formed\<rparr>"

definition no_member :: interface where
  "no_member = \<lparr>member_fn = \<lambda>_ _. Ill_Formed, static_fn = \<lambda>_ _. Ill_Formed\<rparr>"

definition new_delete_allocator_class :: allocator_class where
  "new_delete_allocator_class = \<lparr>allocate_of = constant_member False, async_new_of = constant_member False,
     async_new_array_of = constant_member False, async_delete_of = constant_member False\<rparr>"

definition memory_pool_allocator_class :: allocator_class where
  "memory_pool_allocator_class = \<lparr>allocate_of = no_member, async_new_of = constant_member False,
     async_new_array_of = constant_member False, async_delete_of = constant_member True\<rparr>"

text \<open>Remark (allocator_points). A customization point of allocators takes part in a call exactly when the allocator has the member
  function, compiles then, and promises not to throw exactly when the member function does. Both
  allocators of the library model both concepts; only the allocator of the heap has \<^verbatim>\<open>allocate\<close>.\<close>

theorem allocator_points:
  "(\<forall>call \<in> {allocate_cpo_call, async_new_call, async_new_array_call, async_delete_call}.
      call t = (if well_formed (member_fn t Lvalue Forwarded) then Calls Member else Not_Viable)) \<and>
   (\<forall>promise \<in> {allocate_cpo_noexcept, async_new_noexcept, async_new_array_noexcept, async_delete_noexcept}.
      promise t = nothrow (member_fn t Lvalue Forwarded)) \<and>
   (\<forall>a \<in> {new_delete_allocator_class, memory_pool_allocator_class}. allocator_concept a \<and> array_allocator_concept a) \<and>
   allocate_cpo_call (allocate_of new_delete_allocator_class) = Calls Member \<and>
   allocate_cpo_call (allocate_of memory_pool_allocator_class) = Not_Viable"
  by (simp add: allocate_cpo_call_def async_new_call_def async_new_array_call_def async_delete_call_def
      allocate_cpo_noexcept_def async_new_noexcept_def async_new_array_noexcept_def async_delete_noexcept_def
      member_call_def member_viable_def member_nothrow_def call_of_def allocator_concept_def
      array_allocator_concept_def new_delete_allocator_class_def memory_pool_allocator_class_def
      constant_member_def no_member_def)

theorem allocator_points_witness:
  "async_delete_noexcept (async_delete_of memory_pool_allocator_class) \<and>
   async_new_call no_member = Not_Viable"
  using allocator_points [of "async_delete_of memory_pool_allocator_class"] allocator_points [of no_member]
  by (simp add: memory_pool_allocator_class_def constant_member_def no_member_def)

subsection \<open>The allocator that is gone\<close>

text \<open>
  \<^verbatim>\<open>memory_pool_allocator::async_new\<close> keeps \<^verbatim>\<open>this\<close> in the function that gives the storage back when the constructor throws. The
  customization point calls it on its parameter, which ends when the call returns, before the sender can be started.
\<close>

datatype lifetime = Alive | Ended

definition pool_new_error_handler ::
  "lifetime \<Rightarrow> 'e \<Rightarrow> u64 \<Rightarrow> ('op, 'e, 'u) pool \<Rightarrow>
     (('op, 'e, 'u) pool \<times> ('op, 'e) completion list \<times> (u64, 'e) signal) option" where
  "pool_new_error_handler this_object e ptr p =
     (if this_object = Ended then None else pa_new_constructed (Some e) ptr p)"

definition async_new_cpo_error ::
  "'e \<Rightarrow> u64 \<Rightarrow> ('op, 'e, 'u) pool \<Rightarrow> (('op, 'e, 'u) pool \<times> ('op, 'e) completion list \<times> (u64, 'e) signal) option" where
  "async_new_cpo_error e ptr p = pool_new_error_handler Ended e ptr p"

text \<open>Remark (async_new_dangles). Called on an allocator that outlives its sender, a constructor that throws gives the
  storage back; through the customization point it is undefined.\<close>

theorem async_new_dangles:
  "pool_new_error_handler Alive e ptr p = map_option (\<lambda>(p1, outs). (p1, outs, Set_Error e)) (reclaim_memory ptr p) \<and>
   async_new_cpo_error e ptr p = None"
  by (cases "reclaim_memory ptr p")
    (auto simp: pool_new_error_handler_def async_new_cpo_error_def pa_new_constructed_def deallocate_start_def)

end
