(* ===== verification/Const_Buffer.thy ===== *)
theory Const_Buffer
  imports Sio_Prelude
begin

text \<open>
  \<^verbatim>\<open>const_buffer.hpp\<close>: a pointer and a size. An address is a 64-bit word. The abstraction
  \<open>cb_addrs\<close> is the list of addresses a buffer covers, and the operations are list operations on it.
\<close>

record const_buffer =
  cb_data :: u64
  cb_size :: size_t

definition cb_default :: const_buffer where
  "cb_default = \<lparr>cb_data = 0, cb_size = 0\<rparr>"

definition cb_from_span :: "u64 \<times> size_t \<Rightarrow> const_buffer" where
  "cb_from_span data = \<lparr>cb_data = fst data, cb_size = snd data\<rparr>"

definition cb_make :: "u64 \<Rightarrow> size_t \<Rightarrow> const_buffer" where
  "cb_make pointer sz = \<lparr>cb_data = pointer, cb_size = sz\<rparr>"

definition cb_empty :: "const_buffer \<Rightarrow> bool" where
  "cb_empty b \<longleftrightarrow> cb_size b = 0"

definition cb_advance :: "size_t \<Rightarrow> const_buffer \<Rightarrow> const_buffer" where
  "cb_advance n b =
     (if n \<ge> cb_size b then \<lparr>cb_data = cb_data b + cb_size b, cb_size = 0\<rparr>
      else \<lparr>cb_data = cb_data b + n, cb_size = cb_size b - n\<rparr>)"

definition cb_plus :: "const_buffer \<Rightarrow> size_t \<Rightarrow> const_buffer" where
  "cb_plus lhs rhs = cb_advance rhs lhs"

definition cb_plus_left :: "size_t \<Rightarrow> const_buffer \<Rightarrow> const_buffer" where
  "cb_plus_left lhs rhs = cb_advance lhs rhs"

definition cb_prefix :: "const_buffer \<Rightarrow> size_t \<Rightarrow> const_buffer" where
  "cb_prefix b n = (if n \<ge> cb_size b then b else cb_make (cb_data b) n)"

definition cb_suffix :: "const_buffer \<Rightarrow> size_t \<Rightarrow> const_buffer" where
  "cb_suffix b n = (if n \<ge> cb_size b then b else cb_make (cb_data b + cb_size b - n) n)"

subsection \<open>Abstraction\<close>

definition cb_addrs :: "const_buffer \<Rightarrow> u64 list" where
  "cb_addrs b = map (\<lambda>k. cb_data b + of_nat k) [0..<unat (cb_size b)]"

lemma length_cb_addrs [simp]: "length (cb_addrs b) = unat (cb_size b)"
  by (simp add: cb_addrs_def)

lemma nth_cb_addrs: "k < unat (cb_size b) \<Longrightarrow> cb_addrs b ! k = cb_data b + of_nat k"
  by (simp add: cb_addrs_def)

lemma cb_empty_addrs: "cb_empty b \<longleftrightarrow> cb_addrs b = []"
  by (simp add: cb_empty_def cb_addrs_def unat_eq_zero)

lemma cb_addrs_eqI:
  assumes "unat (cb_size b) = length xs"
    and "\<And>k. k < length xs \<Longrightarrow> xs ! k = cb_data b + of_nat k"
  shows "cb_addrs b = xs"
  using assms by (intro nth_equalityI) (simp_all add: nth_cb_addrs)

lemma cb_advance_addrs [simp]: "cb_addrs (cb_advance n b) = drop (unat n) (cb_addrs b)"
proof (cases "n \<ge> cb_size b")
  case True
  then show ?thesis by (simp add: cb_advance_def cb_addrs_def word_nat)
next
  case False
  then have "unat (cb_size b - n) = unat (cb_size b) - unat n" "unat n < unat (cb_size b)"
    by (simp_all add: word_nat)
  with False show ?thesis
    by (intro cb_addrs_eqI) (simp_all add: cb_advance_def nth_cb_addrs algebra_simps)
qed

lemma cb_plus_addrs [simp]:
  "cb_addrs (cb_plus b n) = drop (unat n) (cb_addrs b)"
  "cb_addrs (cb_plus_left n b) = drop (unat n) (cb_addrs b)"
  by (simp_all add: cb_plus_def cb_plus_left_def)

lemma cb_prefix_addrs [simp]: "cb_addrs (cb_prefix b n) = take (unat n) (cb_addrs b)"
  by (auto simp: cb_prefix_def cb_addrs_def cb_make_def word_nat take_map min_def)

lemma cb_suffix_addrs [simp]:
  "cb_addrs (cb_suffix b n) = drop (unat (cb_size b) - unat n) (cb_addrs b)"
proof (cases "n \<ge> cb_size b")
  case True
  then show ?thesis by (simp add: cb_suffix_def word_nat)
next
  case False
  then have n: "unat n < unat (cb_size b)" by (simp add: word_nat)
  with False show ?thesis
    by (intro cb_addrs_eqI) (simp_all add: cb_suffix_def cb_make_def nth_cb_addrs algebra_simps
        of_nat_diff)
qed

text \<open>Remark (buffer_split). Advancing, prefix and suffix of a buffer are \<^verbatim>\<open>drop\<close> and \<^verbatim>\<open>take\<close> on the addresses it
  covers, for every count, beyond the end too: a prefix and what remains after it are the buffer.\<close>

theorem const_buffer_split:
  "cb_addrs (cb_prefix b n) = take (unat n) (cb_addrs b) \<and>
   cb_addrs (cb_suffix b n) = drop (unat (cb_size b) - unat n) (cb_addrs b) \<and>
   cb_addrs (cb_plus b n) = drop (unat n) (cb_addrs b) \<and>
   cb_addrs (cb_prefix b n) @ cb_addrs (cb_plus b n) = cb_addrs b \<and>
   cb_empty (cb_plus b (cb_size b))"
  by (simp add: cb_empty_addrs)

end
