(* ===== verification/Mutable_Buffer.thy ===== *)
theory Mutable_Buffer
  imports Const_Buffer
begin

text \<open>
  \<^verbatim>\<open>mutable_buffer.hpp\<close>: the same class as \<^verbatim>\<open>const_buffer\<close>, for storage that may be written. The two
  are separate code, so both are modelled, and \<open>mb_to_const\<close> carries the lemmas over.
\<close>

record mutable_buffer =
  mb_data :: u64
  mb_size :: size_t

definition mb_default :: mutable_buffer where
  "mb_default = \<lparr>mb_data = 0, mb_size = 0\<rparr>"

definition mb_from_span :: "u64 \<times> size_t \<Rightarrow> mutable_buffer" where
  "mb_from_span data = \<lparr>mb_data = fst data, mb_size = snd data\<rparr>"

definition mb_make :: "u64 \<Rightarrow> size_t \<Rightarrow> mutable_buffer" where
  "mb_make pointer sz = \<lparr>mb_data = pointer, mb_size = sz\<rparr>"

definition mb_empty :: "mutable_buffer \<Rightarrow> bool" where
  "mb_empty b \<longleftrightarrow> mb_size b = 0"

definition mb_advance :: "size_t \<Rightarrow> mutable_buffer \<Rightarrow> mutable_buffer" where
  "mb_advance n b =
     (if n \<ge> mb_size b then \<lparr>mb_data = mb_data b + mb_size b, mb_size = 0\<rparr>
      else \<lparr>mb_data = mb_data b + n, mb_size = mb_size b - n\<rparr>)"

definition mb_plus :: "mutable_buffer \<Rightarrow> size_t \<Rightarrow> mutable_buffer" where
  "mb_plus lhs rhs = mb_advance rhs lhs"

definition mb_plus_left :: "size_t \<Rightarrow> mutable_buffer \<Rightarrow> mutable_buffer" where
  "mb_plus_left lhs rhs = mb_advance lhs rhs"

definition mb_prefix :: "mutable_buffer \<Rightarrow> size_t \<Rightarrow> mutable_buffer" where
  "mb_prefix b n = (if n \<ge> mb_size b then b else mb_make (mb_data b) n)"

definition mb_suffix :: "mutable_buffer \<Rightarrow> size_t \<Rightarrow> mutable_buffer" where
  "mb_suffix b n = (if n \<ge> mb_size b then b else mb_make (mb_data b + mb_size b - n) n)"

subsection \<open>Agreement with const buffers\<close>

definition mb_to_const :: "mutable_buffer \<Rightarrow> const_buffer" where
  "mb_to_const b = cb_make (mb_data b) (mb_size b)"

lemma mb_to_const_simps [simp]:
  "cb_data (mb_to_const b) = mb_data b" "cb_size (mb_to_const b) = mb_size b"
  by (simp_all add: mb_to_const_def cb_make_def)

lemma mb_to_const_ops [simp]:
  "mb_to_const mb_default = cb_default"
  "mb_to_const (mb_from_span d) = cb_from_span d"
  "mb_to_const (mb_make p n) = cb_make p n"
  "cb_empty (mb_to_const b) \<longleftrightarrow> mb_empty b"
  "mb_to_const (mb_advance n b) = cb_advance n (mb_to_const b)"
  "mb_to_const (mb_plus b n) = cb_plus (mb_to_const b) n"
  "mb_to_const (mb_plus_left n b) = cb_plus_left n (mb_to_const b)"
  "mb_to_const (mb_prefix b n) = cb_prefix (mb_to_const b) n"
  "mb_to_const (mb_suffix b n) = cb_suffix (mb_to_const b) n"
  by (simp_all add: mb_to_const_def mb_default_def cb_default_def mb_from_span_def cb_from_span_def
      mb_make_def cb_make_def mb_empty_def cb_empty_def mb_advance_def cb_advance_def mb_plus_def
      cb_plus_def mb_plus_left_def cb_plus_left_def mb_prefix_def cb_prefix_def mb_suffix_def
      cb_suffix_def)

end
