(* ===== verification/Const_Buffer_Span.thy ===== *)
theory Const_Buffer_Span
  imports Const_Buffer
begin

text \<open>
  \<^verbatim>\<open>const_buffer_span.hpp\<close> and \<^verbatim>\<open>const_buffer_span.cpp\<close>: an array of buffers, and the part of one that
  starts \<open>i0\<close> bytes into its first buffer and ends \<open>iN\<close> bytes into its last.

  All pointers point into one array of buffers, which is a list; a pointer is null (\<open>None\<close>) or a
  position. Reading outside the array is undefined (\<open>None\<close>).
\<close>

type_synonym buffer_ptr = "nat option"

record subspan =
  ss_buffers :: buffer_ptr
  ss_size :: size_t
  ss_i0 :: size_t
  ss_iN :: size_t

record buffer_array_span =
  bs_buffers :: buffer_ptr
  bs_size :: size_t

definition buffer_at :: "const_buffer list \<Rightarrow> buffer_ptr \<Rightarrow> size_t \<Rightarrow> const_buffer option" where
  "buffer_at arr p k = do {
     o0 \<leftarrow> p;
     (if o0 + unat k < length arr then Some (arr ! (o0 + unat k)) else None)
   }"

definition ptr_plus :: "buffer_ptr \<Rightarrow> size_t \<Rightarrow> buffer_ptr" where
  "ptr_plus p k = map_option (\<lambda>o0. o0 + unat k) p"

subsection \<open>Construction\<close>

definition ss_default :: subspan where
  "ss_default = \<lparr>ss_buffers = None, ss_size = 0, ss_i0 = 0, ss_iN = 0\<rparr>"

definition ss_of_span :: "const_buffer list \<Rightarrow> buffer_array_span \<Rightarrow> subspan option" where
  "ss_of_span arr sp =
     (let s = \<lparr>ss_buffers = bs_buffers sp, ss_size = bs_size sp, ss_i0 = 0, ss_iN = 0\<rparr>
      in if ss_size s > 0 then do {
           last_buffer \<leftarrow> buffer_at arr (ss_buffers s) (ss_size s - 1);
           Some (s\<lparr>ss_iN := cb_size last_buffer\<rparr>)
         } else Some s)"

definition ss_make :: "buffer_ptr \<Rightarrow> size_t \<Rightarrow> size_t \<Rightarrow> size_t \<Rightarrow> subspan" where
  "ss_make pointer sz i0 iN =
     (let s = \<lparr>ss_buffers = pointer, ss_size = sz, ss_i0 = i0, ss_iN = iN\<rparr>
      in if ss_size s = 1 \<and> ss_i0 s = ss_iN s then s\<lparr>ss_buffers := None, ss_size := 0\<rparr> else s)"

definition ss_empty :: "subspan \<Rightarrow> bool" where
  "ss_empty s \<longleftrightarrow> ss_size s = 0"

subsection \<open>Iteration\<close>

type_synonym ss_iterator = "subspan \<times> size_t"

definition ss_begin :: "subspan \<Rightarrow> ss_iterator" where
  "ss_begin s = (s, 0)"

definition ss_end :: "subspan \<Rightarrow> ss_iterator" where
  "ss_end s = (s, ss_size s)"

definition ss_deref :: "const_buffer list \<Rightarrow> ss_iterator \<Rightarrow> const_buffer option" where
  "ss_deref arr it = (case it of (parent, index0) \<Rightarrow>
     let sz = ss_size parent;
         last_index = (- 1 :: size_t);
         index = (if index0 \<ge> sz - 1 then last_index else index0)
     in if index = 0 then do {
          b \<leftarrow> buffer_at arr (ss_buffers parent) index;
          Some (cb_plus b (ss_i0 parent))
        } else if index = last_index then do {
          b \<leftarrow> buffer_at arr (ss_buffers parent) index;
          Some (cb_prefix b (ss_iN parent))
        } else buffer_at arr (ss_buffers parent) index)"

definition ss_incr :: "ss_iterator \<Rightarrow> ss_iterator" where
  "ss_incr it = (fst it, snd it + 1)"

definition ss_incr_post :: "ss_iterator \<Rightarrow> ss_iterator \<times> ss_iterator" where
  "ss_incr_post it = (let tmp = it in (tmp, ss_incr it))"

definition ss_decr :: "ss_iterator \<Rightarrow> ss_iterator" where
  "ss_decr it = (fst it, snd it - 1)"

definition ss_decr_post :: "ss_iterator \<Rightarrow> ss_iterator \<times> ss_iterator" where
  "ss_decr_post it = (let tmp = it in (tmp, ss_decr it))"

subsection \<open>Finding a byte, prefix and suffix\<close>

definition read_span :: "const_buffer list \<Rightarrow> buffer_ptr \<Rightarrow> size_t \<Rightarrow> const_buffer list option" where
  "read_span arr p k =
     (case p of
        None \<Rightarrow> if k = 0 then Some [] else None
      | Some o0 \<Rightarrow> if o0 + unat k \<le> length arr then Some (take (unat k) (drop o0 arr)) else None)"

fun find_loop :: "size_t \<Rightarrow> const_buffer list \<Rightarrow> size_t \<Rightarrow> (size_t \<times> size_t) + size_t" where
  "find_loop i [] n = Inr i"
| "find_loop i (b # bs) n =
     (if n \<le> cb_size b then Inl (i, n) else find_loop (i + 1) bs (n - cb_size b))"

text \<open>\<^verbatim>\<open>back()\<close> of an empty span is undefined.\<close>

definition find_buffer_index_for_n ::
  "const_buffer list \<Rightarrow> size_t \<Rightarrow> (size_t \<times> size_t) option" where
  "find_buffer_index_for_n buffers n =
     (case find_loop 0 buffers n of
        Inl r \<Rightarrow> Some r
      | Inr i \<Rightarrow> if buffers = [] then None else Some (i - 1, cb_size (last buffers)))"

fun sum_sizes :: "size_t \<Rightarrow> const_buffer list \<Rightarrow> size_t" where
  "sum_sizes sz [] = sz"
| "sum_sizes sz (b # bs) = sum_sizes (sz + cb_size b) bs"

definition ss_buffer_size :: "const_buffer list \<Rightarrow> subspan \<Rightarrow> size_t option" where
  "ss_buffer_size arr s =
     (if ss_size s = 0 then Some 0
      else if ss_size s = 1 then Some (ss_iN s - ss_i0 s)
      else do {
        b0 \<leftarrow> buffer_at arr (ss_buffers s) 0;
        let sz = cb_size b0 - ss_i0 s;
        buffers \<leftarrow> read_span arr (ptr_plus (ss_buffers s) 1) (ss_size s - 2);
        Some (sum_sizes sz buffers + ss_iN s)
      })"

definition ss_prefix :: "const_buffer list \<Rightarrow> subspan \<Rightarrow> size_t \<Rightarrow> subspan option" where
  "ss_prefix arr s n =
     (if ss_size s = 0 then Some s
      else do {
        b0 \<leftarrow> buffer_at arr (ss_buffers s) 0;
        let first_length = cb_size b0 - ss_i0 s;
        (if n \<le> first_length then Some (ss_make (ss_buffers s) 1 (ss_i0 s) (n + ss_i0 s))
         else do {
           buffers \<leftarrow> read_span arr (ptr_plus (ss_buffers s) 1) (ss_size s - 1);
           (index, rest) \<leftarrow> find_buffer_index_for_n buffers (n - first_length);
           Some (ss_make (ss_buffers s) (index + 2) (ss_i0 s) rest)
         })
      })"

text \<open>
  The loop of \<^verbatim>\<open>suffix\<close>: \<open>Inl\<close> is the early return, \<open>Inr\<close> the remaining count at \<open>i = 0\<close>. The
  variable \<^verbatim>\<open>length\<close> is the size of the first buffer, also for the later ones.
\<close>

fun suffix_loop ::
  "const_buffer list \<Rightarrow> subspan \<Rightarrow> nat \<Rightarrow> size_t \<Rightarrow> (subspan + size_t) option" where
  "suffix_loop arr s 0 n = Some (Inr n)"
| "suffix_loop arr s (Suc i) n = do {
     b \<leftarrow> buffer_at arr (ss_buffers s) (of_nat (Suc i));
     b0 \<leftarrow> buffer_at arr (ss_buffers s) 0;
     let len = cb_size b0;
     (if n \<le> len then
        Some (Inl (ss_make (ptr_plus (ss_buffers s) (of_nat (Suc i))) (ss_size s - of_nat (Suc i))
          (len - n) len))
      else suffix_loop arr s i (n - cb_size b))
   }"

definition ss_suffix :: "const_buffer list \<Rightarrow> subspan \<Rightarrow> size_t \<Rightarrow> subspan option" where
  "ss_suffix arr s n =
     (if ss_size s = 0 then Some s
      else if ss_size s = 1 then
        (let len = ss_iN s - ss_i0 s
         in if n \<le> len then Some (ss_make (ss_buffers s) 1 (ss_i0 s + len - n) (ss_iN s))
            else Some (ss_make (ss_buffers s) 1 (ss_i0 s) (ss_iN s)))
      else if n \<le> ss_iN s then
        Some (ss_make (ptr_plus (ss_buffers s) (ss_size s - 1)) 1 (ss_iN s - n) (ss_iN s))
      else do {
        r \<leftarrow> suffix_loop arr s (unat (ss_size s - 2)) (n - ss_iN s);
        (case r of
           Inl t \<Rightarrow> Some t
         | Inr m \<Rightarrow> do {
             b0 \<leftarrow> buffer_at arr (ss_buffers s) 0;
             let first_length = cb_size b0 - ss_i0 s;
             Some (if m \<le> first_length
               then ss_make (ss_buffers s) (ss_size s) (ss_i0 s + first_length - m) (ss_iN s)
               else s)
           })
      })"

subsection \<open>The span\<close>

definition bs_default :: buffer_array_span where
  "bs_default = \<lparr>bs_buffers = None, bs_size = 0\<rparr>"

definition bs_make :: "buffer_ptr \<Rightarrow> size_t \<Rightarrow> buffer_array_span" where
  "bs_make p sz = \<lparr>bs_buffers = p, bs_size = sz\<rparr>"

definition bs_empty :: "buffer_array_span \<Rightarrow> bool" where
  "bs_empty sp \<longleftrightarrow> bs_size sp = 0"

definition bs_begin :: "buffer_array_span \<Rightarrow> buffer_ptr" where
  "bs_begin sp = bs_buffers sp"

definition bs_end :: "buffer_array_span \<Rightarrow> buffer_ptr" where
  "bs_end sp = ptr_plus (bs_buffers sp) (bs_size sp)"

definition bs_buffer_size :: "const_buffer list \<Rightarrow> buffer_array_span \<Rightarrow> size_t option" where
  "bs_buffer_size arr sp = do { s \<leftarrow> ss_of_span arr sp; ss_buffer_size arr s }"

definition bs_prefix :: "const_buffer list \<Rightarrow> buffer_array_span \<Rightarrow> size_t \<Rightarrow> subspan option" where
  "bs_prefix arr sp n = do { s \<leftarrow> ss_of_span arr sp; ss_prefix arr s n }"

definition bs_suffix :: "const_buffer list \<Rightarrow> buffer_array_span \<Rightarrow> size_t \<Rightarrow> subspan option" where
  "bs_suffix arr sp n = do { s \<leftarrow> ss_of_span arr sp; ss_suffix arr s n }"

text \<open>\<^verbatim>\<open>without_prefix\<close> of \<^verbatim>\<open>buffer_algorithms.hpp\<close>, on a subspan and on a span.\<close>

definition without_prefix :: "const_buffer list \<Rightarrow> subspan \<Rightarrow> size_t \<Rightarrow> subspan option" where
  "without_prefix arr s prefix_size = do {
     sz \<leftarrow> ss_buffer_size arr s;
     let rest = (if prefix_size \<le> sz then sz - prefix_size else 0);
     ss_suffix arr s rest
   }"

end
