(* ===== verification/Const_Buffer_Span_Correct.thy ===== *)
theory Const_Buffer_Span_Correct
  imports Const_Buffer_Span
begin

text \<open>
  A subspan stands for a list of addresses: those of its buffers in a row, from byte \<open>i0\<close> of the
  first to byte \<open>iN\<close> of the last. The operations are checked against \<^verbatim>\<open>take\<close> and \<^verbatim>\<open>drop\<close> on it.
\<close>

subsection \<open>The bytes of a subspan\<close>

definition flat :: "const_buffer list \<Rightarrow> u64 list" where
  "flat bs = concat (map cb_addrs bs)"

definition total :: "const_buffer list \<Rightarrow> nat" where
  "total bs = sum_list (map (\<lambda>b. unat (cb_size b)) bs)"

lemma flat_simps [simp]: "flat [] = []" "flat (b # bs) = cb_addrs b @ flat bs"
  "flat (as @ bs) = flat as @ flat bs"
  by (simp_all add: flat_def)

lemma total_simps [simp]: "total [] = 0" "total (b # bs) = unat (cb_size b) + total bs"
  "total (as @ bs) = total as + total bs"
  by (simp_all add: total_def)

lemma length_flat [simp]: "length (flat bs) = total bs"
  by (induction bs) auto

definition buffers_of :: "const_buffer list \<Rightarrow> subspan \<Rightarrow> const_buffer list" where
  "buffers_of arr s = (case ss_buffers s of
     None \<Rightarrow> [] | Some o0 \<Rightarrow> take (unat (ss_size s)) (drop o0 arr))"

definition ss_addrs :: "const_buffer list \<Rightarrow> subspan \<Rightarrow> u64 list" where
  "ss_addrs arr s = (let bs = buffers_of arr s in
     drop (unat (ss_i0 s)) (take (total (butlast bs) + unat (ss_iN s)) (flat bs)))"

text \<open>The arrays of buffers that fit into memory, and the subspans that stay inside theirs.\<close>

definition array_ok :: "const_buffer list \<Rightarrow> bool" where
  "array_ok arr \<longleftrightarrow> total arr < 2 ^ 64 \<and> length arr < 2 ^ 63"

definition ss_ok :: "const_buffer list \<Rightarrow> subspan \<Rightarrow> bool" where
  "ss_ok arr s \<longleftrightarrow> (ss_size s = 0 \<or>
     (\<exists>o0. ss_buffers s = Some o0 \<and> o0 + unat (ss_size s) \<le> length arr \<and>
        ss_i0 s \<le> cb_size (arr ! o0) \<and>
        ss_iN s \<le> cb_size (arr ! (o0 + unat (ss_size s) - 1)) \<and>
        (ss_size s = 1 \<longrightarrow> ss_i0 s \<le> ss_iN s)))"

lemma ss_addrs_empty: "ss_size s = 0 \<Longrightarrow> ss_addrs arr s = []"
  by (simp add: ss_addrs_def buffers_of_def split: option.splits)

lemma ss_addrs_make:
  "ss_addrs arr (ss_make p sz i0 iN) =
     ss_addrs arr \<lparr>ss_buffers = p, ss_size = sz, ss_i0 = i0, ss_iN = iN\<rparr>"
proof (cases "sz = 1 \<and> i0 = iN")
  case True
  show ?thesis
  proof (cases "buffers_of arr \<lparr>ss_buffers = p, ss_size = sz, ss_i0 = i0, ss_iN = iN\<rparr>")
    case (Cons b bs)
    have "length (b # bs) \<le> 1"
      unfolding Cons [symmetric] using True by (auto simp: buffers_of_def split: option.splits)
    then have "bs = []" by simp
    with True Cons have "ss_addrs arr \<lparr>ss_buffers = p, ss_size = sz, ss_i0 = i0, ss_iN = iN\<rparr> = []"
      by (simp add: ss_addrs_def)
    with True show ?thesis by (simp add: ss_make_def Let_def ss_addrs_empty)
  next
    case Nil
    then have "ss_addrs arr \<lparr>ss_buffers = p, ss_size = sz, ss_i0 = i0, ss_iN = iN\<rparr> = []"
      by (simp add: ss_addrs_def)
    with True show ?thesis by (simp add: ss_make_def Let_def ss_addrs_empty)
  qed
qed (auto simp: ss_make_def Let_def)
lemma unat_eq_one: "unat (x :: size_t) = 1 \<longleftrightarrow> x = 1"
  by (metis unat_1 word_unat_eq_iff)

text \<open>A subspan of at least one buffer: its buffers are a prefix, and the last one.\<close>

lemma ss_okE:
  assumes "ss_ok arr s" "ss_size s \<noteq> 0"
  obtains o0 bs b where "ss_buffers s = Some o0" "buffers_of arr s = bs @ [b]"
    "unat (ss_size s) = Suc (length bs)" "take (unat (ss_size s)) (drop o0 arr) = bs @ [b]"
    "o0 + unat (ss_size s) \<le> length arr"
    "ss_i0 s \<le> cb_size (hd (bs @ [b]))" "ss_iN s \<le> cb_size b"
    "bs = [] \<longrightarrow> ss_i0 s \<le> ss_iN s"
    "ss_addrs arr s = drop (unat (ss_i0 s)) (flat bs @ take (unat (ss_iN s)) (cb_addrs b))"
proof -
  from assms obtain o0 where o0: "ss_buffers s = Some o0" "o0 + unat (ss_size s) \<le> length arr"
    "ss_i0 s \<le> cb_size (arr ! o0)" "ss_iN s \<le> cb_size (arr ! (o0 + unat (ss_size s) - 1))"
    "ss_size s = 1 \<longrightarrow> ss_i0 s \<le> ss_iN s"
    by (auto simp: ss_ok_def)
  let ?n = "unat (ss_size s)" and ?l = "take (unat (ss_size s)) (drop o0 arr)"
  have n: "0 < ?n" using assms(2) by (simp add: unat_gt_0)
  with o0 have len: "length ?l = ?n" "?l \<noteq> []" by auto
  then obtain bs b where l: "?l = bs @ [b]" by (metis append_butlast_last_id)
  have b: "b = arr ! (o0 + ?n - 1)"
    using l len n o0(2) by (metis add_diff_assoc diff_less last_conv_nth last_snoc less_one
        linorder_not_less nth_drop nth_take o0(2) add_leD1 One_nat_def Suc_leI zero_less_one)
  have "hd (bs @ [b]) = arr ! o0"
    using len n o0(2) unfolding l [symmetric] by (simp add: hd_conv_nth)
  moreover have "buffers_of arr s = bs @ [b]" using o0(1) l by (simp add: buffers_of_def)
  moreover have "?n = Suc (length bs)" using len l by simp
  moreover have "bs = [] \<Longrightarrow> ss_size s = 1"
    using len(1) l by (simp add: unat_eq_one [symmetric] One_nat_def [symmetric] del: One_nat_def)
  ultimately show ?thesis
    using that [of o0 bs b] o0 l b by (auto simp: ss_addrs_def)
qed


lemma buffer_at_first:
  assumes "ss_buffers s = Some o0" "take (Suc n) (drop o0 arr) = bs" "bs \<noteq> []"
  shows "buffer_at arr (ss_buffers s) 0 = Some (hd bs)"
  using assms by (auto simp: buffer_at_def hd_drop_conv_nth not_less [symmetric])

subsection \<open>Size\<close>

lemma sum_sizes_total:
  assumes "unat sz + total bs < 2 ^ 64"
  shows "unat (sum_sizes sz bs) = unat sz + total bs"
  using assms
proof (induction bs arbitrary: sz)
  case (Cons b bs)
  then have "unat (sz + cb_size b) = unat sz + unat (cb_size b)" by (simp add: unat_add_no_wrap)
  with Cons show ?case by simp
qed simp

lemma total_take_drop: "total (take n (drop k arr)) \<le> total arr"
proof -
  have "total arr = total (take k arr) + total (take n (drop k arr)) + total (drop n (drop k arr))"
    by (metis append_take_drop_id total_simps(3) add.assoc)
  then show ?thesis by simp
qed

lemma length_ss_addrs:
  assumes "ss_iN s \<le> cb_size b"
    "ss_addrs arr s = drop (unat (ss_i0 s)) (flat bs @ take (unat (ss_iN s)) (cb_addrs b))"
  shows "length (ss_addrs arr s) = total bs + unat (ss_iN s) - unat (ss_i0 s)"
  using assms by (simp add: word_nat min_def)

lemma buffer_size_total:
  assumes "array_ok arr" "ss_ok arr s"
  shows "\<exists>k. ss_buffer_size arr s = Some k \<and> unat k = length (ss_addrs arr s)"
proof (cases "ss_size s = 0")
  case True
  then show ?thesis by (simp add: ss_buffer_size_def ss_addrs_empty)
next
  case False
  with assms(2) obtain o0 bs b where s: "ss_buffers s = Some o0" "buffers_of arr s = bs @ [b]"
    "unat (ss_size s) = Suc (length bs)" "take (unat (ss_size s)) (drop o0 arr) = bs @ [b]"
    "o0 + unat (ss_size s) \<le> length arr"
    "ss_i0 s \<le> cb_size (hd (bs @ [b]))" "ss_iN s \<le> cb_size b"
    "bs = [] \<longrightarrow> ss_i0 s \<le> ss_iN s"
    "ss_addrs arr s = drop (unat (ss_i0 s)) (flat bs @ take (unat (ss_iN s)) (cb_addrs b))"
    by (rule ss_okE)
  note len = length_ss_addrs [OF s(7,9)]
  show ?thesis
  proof (cases bs)
    case Nil
    with s(3) have "ss_size s = 1" by (metis One_nat_def list.size(3) unat_eq_one)
    with len Nil s(8) show ?thesis by (simp add: ss_buffer_size_def word_nat)
  next
    case (Cons c cs)
    with s(3) have sz: "ss_size s \<noteq> 1" "2 \<le> ss_size s" by (auto simp: word_nat)
    then have n: "unat (ss_size s - 2) = length cs" using s(3) Cons by (simp add: unat_sub)
    have first: "buffer_at arr (ss_buffers s) 0 = Some c"
      using buffer_at_first [OF s(1), of "length bs" arr "bs @ [b]"] s(3,4) Cons by simp
    have "take (length cs) (drop (o0 + 1) arr) = take (length cs) (drop 1 (take (unat (ss_size s)) (drop o0 arr)))"
      using s(3) Cons by (simp add: drop_take add.commute min_def)
    also have "\<dots> = cs" using s(4) Cons by simp
    finally have mid: "read_span arr (ptr_plus (ss_buffers s) 1) (ss_size s - 2) = Some cs"
      using s(1,3,5) Cons n by (simp add: read_span_def ptr_plus_def)
    have "total (c # cs @ [b]) \<le> total arr"
      using total_take_drop [of "unat (ss_size s)" o0 arr] s(4) Cons by simp
    with assms(1) have bound: "unat (cb_size c) + total cs + unat (cb_size b) < 2 ^ 64"
      by (simp add: array_ok_def)
    have i0: "unat (cb_size c - ss_i0 s) = unat (cb_size c) - unat (ss_i0 s)"
        "unat (ss_i0 s) \<le> unat (cb_size c)" "unat (ss_iN s) \<le> unat (cb_size b)"
      using s(6,7) Cons by (simp_all add: word_nat)
    with bound have "unat (sum_sizes (cb_size c - ss_i0 s) cs) = unat (cb_size c) - unat (ss_i0 s) + total cs"
      by (simp add: sum_sizes_total)
    then have "unat (sum_sizes (cb_size c - ss_i0 s) cs + ss_iN s) =
        unat (cb_size c) - unat (ss_i0 s) + total cs + unat (ss_iN s)"
      using bound i0 by (simp add: unat_add_no_wrap)
    with len Cons i0 show ?thesis
      using sz False by (simp add: ss_buffer_size_def first mid)
  qed
qed


text \<open>Remark (span_size). The size of a subspan is the number of bytes in it.\<close>

theorem buffer_size_counts:
  assumes "array_ok arr" "ss_ok arr s"
  shows "\<exists>k. ss_buffer_size arr s = Some k \<and> unat k = length (ss_addrs arr s)"
  using buffer_size_total [OF assms] .

theorem buffer_size_counts_witness:
  "\<exists>k. ss_buffer_size [cb_make 100 4, cb_make 200 5, cb_make 300 6]
      \<lparr>ss_buffers = Some 0, ss_size = 3, ss_i0 = 1, ss_iN = 2\<rparr> = Some k \<and> unat k = 10"
  using buffer_size_counts [of "[cb_make 100 4, cb_make 200 5, cb_make 300 6]"
      "\<lparr>ss_buffers = Some 0, ss_size = 3, ss_i0 = 1, ss_iN = 2\<rparr>"]
  by (simp add: array_ok_def ss_ok_def cb_make_def ss_addrs_def buffers_of_def cb_addrs_def flat_def
      total_def)

subsection \<open>Prefix\<close>

lemma find_loop_total:
  assumes "0 < n" "i + length bs < 2 ^ 64"
  shows "(unat n \<le> total bs \<longrightarrow> (\<exists>j r. j < length bs \<and> find_loop (of_nat i) bs n = Inl (of_nat (i + j), r) \<and>
      unat n = total (take j bs) + unat r \<and> r \<le> cb_size (bs ! j))) \<and>
    (unat n > total bs \<longrightarrow> find_loop (of_nat i) bs n = Inr (of_nat (i + length bs)))"
  using assms
proof (induction bs arbitrary: i n)
  case Nil
  then show ?case by (simp add: unat_gt_0)
next
  case (Cons b bs)
  show ?case
  proof (cases "n \<le> cb_size b")
    case True
    then have "find_loop (of_nat i) (b # bs) n = Inl (of_nat (i + 0), n)" by simp
    moreover have "unat n \<le> unat (cb_size b)" using True by (simp add: word_nat)
    ultimately show ?thesis
      using True by (intro conjI impI exI [of _ 0] exI [of _ n]) simp_all
  next
    case False
    let ?n = "n - cb_size b"
    have n: "unat ?n = unat n - unat (cb_size b)" "0 < unat ?n" "unat (cb_size b) < unat n"
      using False by (simp_all add: word_nat)
    have "of_nat i + 1 = (of_nat (Suc i) :: size_t)" by simp
    then have step: "find_loop (of_nat i) (b # bs) n = find_loop (of_nat (Suc i)) bs ?n"
      using False by (simp add: add.commute)
    have ih: "(unat ?n \<le> total bs \<longrightarrow> (\<exists>j r. j < length bs \<and>
        find_loop (of_nat (Suc i)) bs ?n = Inl (of_nat (Suc i + j), r) \<and>
        unat ?n = total (take j bs) + unat r \<and> r \<le> cb_size (bs ! j))) \<and>
      (unat ?n > total bs \<longrightarrow> find_loop (of_nat (Suc i)) bs ?n = Inr (of_nat (Suc i + length bs)))"
      using Cons.prems n(2) by (intro Cons.IH) (simp_all add: word_gt_0 unat_gt_0)
    show ?thesis
    proof (intro conjI impI)
      assume "unat n \<le> total (b # bs)"
      with n have "unat ?n \<le> total bs" by simp
      with ih obtain j r where "j < length bs"
        "find_loop (of_nat (Suc i)) bs ?n = Inl (of_nat (Suc i + j), r)"
        "unat ?n = total (take j bs) + unat r" "r \<le> cb_size (bs ! j)" by blast
      with n step show "\<exists>j r. j < length (b # bs) \<and>
          find_loop (of_nat i) (b # bs) n = Inl (of_nat (i + j), r) \<and>
          unat n = total (take j (b # bs)) + unat r \<and> r \<le> cb_size ((b # bs) ! j)"
        by (intro exI [of _ "Suc j"] exI [of _ r]) simp
    next
      assume "unat n > total (b # bs)"
      with n have "unat ?n > total bs" by simp
      with ih step show "find_loop (of_nat i) (b # bs) n = Inr (of_nat (i + length (b # bs)))"
        by simp
    qed
  qed
qed

text \<open>\<open>full_last\<close>: a subspan that ends where its last buffer ends.\<close>

definition full_last :: "const_buffer list \<Rightarrow> subspan \<Rightarrow> bool" where
  "full_last arr s \<longleftrightarrow> ss_size s = 0 \<or> ss_iN s = cb_size (last (buffers_of arr s))"

lemma take_flat_prefix:
  assumes "j < length bs" "unat r \<le> unat (cb_size (bs ! j))"
  shows "flat (take j bs) @ take (unat r) (cb_addrs (bs ! j)) =
    take (total (take j bs) + unat r) (flat bs)"
proof -
  have "flat bs = flat (take j bs) @ cb_addrs (bs ! j) @ flat (drop (Suc j) bs)"
    using assms(1) by (metis append_take_drop_id Cons_nth_drop_Suc flat_simps(2,3))
  with assms(2) show ?thesis by simp
qed


lemma find_buffer_index_total:
  assumes "0 < n" "bs \<noteq> []" "length bs < 2 ^ 63"
  shows "\<exists>j r. j < length bs \<and> find_buffer_index_for_n bs n = Some (of_nat j, r) \<and>
    r \<le> cb_size (bs ! j) \<and> total (take j bs) + unat r = min (unat n) (total bs)"
proof (cases "unat n \<le> total bs")
  case True
  with find_loop_total [of n 0 bs] assms obtain j r where "j < length bs"
    "find_loop 0 bs n = Inl (of_nat j, r)" "unat n = total (take j bs) + unat r"
    "r \<le> cb_size (bs ! j)" by auto
  with True show ?thesis by (auto simp: find_buffer_index_for_n_def)
next
  case False
  let ?j = "length bs - 1"
  have "find_loop 0 bs n = Inr (of_nat (length bs))"
    using find_loop_total [of n 0 bs] False assms by simp
  moreover have "(of_nat (length bs) - 1 :: size_t) = of_nat ?j"
    using assms(2) by (cases bs) simp_all
  moreover have last: "last bs = bs ! ?j" using assms(2) by (simp add: last_conv_nth)
  ultimately have "find_buffer_index_for_n bs n = Some (of_nat ?j, cb_size (bs ! ?j))"
    using assms(2) by (simp add: find_buffer_index_for_n_def)
  moreover have "total bs = total (butlast bs @ [last bs])" using assms(2) by simp
  then have "total (take ?j bs) + unat (cb_size (bs ! ?j)) = total bs"
    using last by (simp add: butlast_conv_take)
  ultimately show ?thesis
    using False assms(2) by (intro exI [of _ ?j] exI [of _ "cb_size (bs ! ?j)"]) simp
qed

lemma full_last_addrs:
  assumes "full_last arr s" "ss_size s \<noteq> 0" "buffers_of arr s = bs @ [b]"
    "ss_addrs arr s = drop (unat (ss_i0 s)) (flat bs @ take (unat (ss_iN s)) (cb_addrs b))"
  shows "ss_addrs arr s = drop (unat (ss_i0 s)) (flat (bs @ [b]))"
  using assms by (simp add: full_last_def)

lemma ss_prefix_far:
  assumes ok: "array_ok arr" "ss_buffers s = Some o0" "ss_size s \<noteq> 0"
    and bufs: "take (unat (ss_size s)) (drop o0 arr) = c # cs" "o0 + unat (ss_size s) \<le> length arr"
    and i0: "ss_i0 s \<le> cb_size c" and n: "n > cb_size c - ss_i0 s" and cs: "cs \<noteq> []"
  shows "\<exists>t. ss_prefix arr s n = Some t \<and>
    ss_addrs arr t = take (unat n) (drop (unat (ss_i0 s)) (flat (c # cs)))"
proof -
  let ?n = "n - (cb_size c - ss_i0 s)"
  have m: "unat (ss_size s) = Suc (length cs)"
    using arg_cong [OF bufs(1), of length] bufs(2) by simp
  have first: "buffer_at arr (ss_buffers s) 0 = Some c"
    using buffer_at_first [OF ok(2), of "length cs" arr "c # cs"] bufs(1) m by simp
  have "take (length cs) (drop (o0 + 1) arr) =
      take (length cs) (drop 1 (take (unat (ss_size s)) (drop o0 arr)))"
    using m by (simp add: drop_take add.commute)
  also have "\<dots> = cs" using bufs(1) by simp
  finally have rest: "take (length cs) (drop (o0 + 1) arr) = cs" .
  have "unat (ss_size s - 1) = length cs" using m ok(3) by (simp add: unat_minus_one)
  then have span: "read_span arr (ptr_plus (ss_buffers s) 1) (ss_size s - 1) = Some cs"
    using ok(2) bufs(2) m rest by (simp add: read_span_def ptr_plus_def)
  have "0 < ?n" using n by (simp add: word_gt_0)
  moreover have len: "length cs < 2 ^ 63" using ok(1) bufs(2) m by (simp add: array_ok_def)
  ultimately obtain j r where j: "j < length cs" "find_buffer_index_for_n cs ?n = Some (of_nat j, r)"
    "r \<le> cb_size (cs ! j)" "total (take j cs) + unat r = min (unat ?n) (total cs)"
    using find_buffer_index_total [OF _ cs] by blast
  let ?t = "\<lparr>ss_buffers = Some o0, ss_size = of_nat j + 2, ss_i0 = ss_i0 s, ss_iN = r\<rparr>"
  have pre: "ss_prefix arr s n = Some (ss_make (ss_buffers s) (of_nat j + 2) (ss_i0 s) r)"
    using ok(3) first span j(2) n by (simp add: ss_prefix_def Let_def leD)
  have "unat (of_nat j + 2 :: size_t) = Suc (Suc j)"
    using j(1) len by (simp add: unat_word_ariths unat_of_nat)
  then have "buffers_of arr ?t = take (Suc (Suc j)) (take (Suc (length cs)) (drop o0 arr))"
    using j(1) by (simp add: buffers_of_def min_def)
  also have "\<dots> = (c # take j cs) @ [cs ! j]"
    using bufs(1) m j(1) by (simp add: take_Suc_conv_app_nth)
  finally have "ss_addrs arr ?t = drop (unat (ss_i0 s))
      (cb_addrs c @ flat (take j cs) @ take (unat r) (cb_addrs (cs ! j)))"
    by (simp add: ss_addrs_def butlast_append)
  also have "\<dots> = drop (unat (ss_i0 s)) (cb_addrs c @ take (min (unat ?n) (total cs)) (flat cs))"
  proof -
    have "unat r \<le> unat (cb_size (cs ! j))" using j(3) by (simp add: word_nat)
    from take_flat_prefix [OF j(1) this] show ?thesis by (simp only: j(4))
  qed
  also have "\<dots> = take (unat n) (drop (unat (ss_i0 s)) (flat (c # cs)))"
    using i0 n by (simp add: word_nat min_def)
  finally show ?thesis using pre ok(2) by (simp add: ss_addrs_make)
qed

text \<open>Remark (span_prefix). The prefix of a subspan that ends with its last buffer is the prefix of its bytes; with
  one buffer the count may not exceed the bytes there are, with more it may.\<close>

theorem prefix_takes:
  assumes "array_ok arr" "ss_ok arr s" "full_last arr s"
    "unat n \<le> length (ss_addrs arr s) \<or> 2 \<le> ss_size s"
  shows "\<exists>t. ss_prefix arr s n = Some t \<and> ss_addrs arr t = take (unat n) (ss_addrs arr s)"
proof (cases "ss_size s = 0")
  case True
  then show ?thesis by (simp add: ss_prefix_def ss_addrs_empty)
next
  case False
  with assms(2) obtain o0 bs b where s: "ss_buffers s = Some o0" "buffers_of arr s = bs @ [b]"
    "unat (ss_size s) = Suc (length bs)" "take (unat (ss_size s)) (drop o0 arr) = bs @ [b]"
    "o0 + unat (ss_size s) \<le> length arr"
    "ss_i0 s \<le> cb_size (hd (bs @ [b]))" "ss_iN s \<le> cb_size b"
    "bs = [] \<longrightarrow> ss_i0 s \<le> ss_iN s"
    "ss_addrs arr s = drop (unat (ss_i0 s)) (flat bs @ take (unat (ss_iN s)) (cb_addrs b))"
    by (rule ss_okE)
  note view = full_last_addrs [OF assms(3) False s(2,9)]
  obtain c cs where bufs: "bs @ [b] = c # cs" by (cases "bs @ [b]") auto
  then have i0: "ss_i0 s \<le> cb_size c" using s(6) by simp
  have first: "buffer_at arr (ss_buffers s) 0 = Some c"
    using buffer_at_first [OF s(1), of "length bs" arr "bs @ [b]"] s(3,4) bufs by simp
  show ?thesis
  proof (cases "n \<le> cb_size c - ss_i0 s")
    case True
    then have n: "unat n \<le> unat (cb_size c) - unat (ss_i0 s)" "unat (ss_i0 s) \<le> unat (cb_size c)"
      using i0 by (simp_all add: word_nat)
    have "unat (cb_size c) < 2 ^ LENGTH(64)" by (rule unsigned_less)
    with n have sum: "unat (n + ss_i0 s) = unat n + unat (ss_i0 s)"
      by (intro unat_add_no_wrap) simp
    have "take 1 (drop o0 arr) = take 1 (take (unat (ss_size s)) (drop o0 arr))"
      using s(3) by (simp add: min_def)
    then have one: "take (Suc 0) (drop o0 arr) = [c]" using s(4) bufs by simp
    have "ss_addrs arr (ss_make (ss_buffers s) 1 (ss_i0 s) (n + ss_i0 s)) =
        drop (unat (ss_i0 s)) (take (unat n + unat (ss_i0 s)) (cb_addrs c))"
      unfolding ss_addrs_make using s(1) one sum by (simp add: ss_addrs_def buffers_of_def)
    also have "\<dots> = take (unat n) (ss_addrs arr s)"
      using view bufs n by (simp add: drop_take)
    finally show ?thesis using False first True by (simp add: ss_prefix_def)
  next
    case far: False
    have "cs \<noteq> []"
    proof
      assume "cs = []"
      with bufs s(3) assms(4) view have "unat n \<le> unat (cb_size c) - unat (ss_i0 s)"
        by (auto simp: word_nat)
      with far i0 show False by (simp add: word_nat)
    qed
    with ss_prefix_far [OF assms(1) s(1) False _ s(5) i0, of cs n] s(4) bufs far view
    show ?thesis by (simp add: not_le)
  qed
qed


theorem prefix_takes_witness:
  "\<exists>t. ss_prefix [cb_make 100 4, cb_make 200 5, cb_make 300 6]
      \<lparr>ss_buffers = Some 0, ss_size = 3, ss_i0 = 1, ss_iN = 6\<rparr> 5 = Some t \<and>
    ss_addrs [cb_make 100 4, cb_make 200 5, cb_make 300 6] t = [101, 102, 103, 200, 201]"
  using prefix_takes [of "[cb_make 100 4, cb_make 200 5, cb_make 300 6]"
      "\<lparr>ss_buffers = Some 0, ss_size = 3, ss_i0 = 1, ss_iN = 6\<rparr>" 5]
  by (simp add: array_ok_def ss_ok_def cb_make_def ss_addrs_def buffers_of_def cb_addrs_def flat_def
      total_def full_last_def upt_rec)

subsection \<open>Suffix\<close>

lemma suffix_one:
  assumes s: "ss_buffers s = Some o0" "ss_size s = 1" "take 1 (drop o0 arr) = [b]"
    "ss_i0 s \<le> ss_iN s" "ss_iN s \<le> cb_size b"
  shows "\<exists>t. ss_suffix arr s n = Some t \<and>
    ss_addrs arr t = drop (length (ss_addrs arr s) - unat n) (ss_addrs arr s)"
proof -
  have view: "ss_addrs arr \<lparr>ss_buffers = Some o0, ss_size = 1, ss_i0 = i, ss_iN = ss_iN s\<rparr> =
      drop (unat i) (take (unat (ss_iN s)) (cb_addrs b))" for i
    using s(3) by (simp add: ss_addrs_def buffers_of_def)
  have s_eq: "ss_addrs arr s = drop (unat (ss_i0 s)) (take (unat (ss_iN s)) (cb_addrs b))"
    using s(1-3) by (simp add: ss_addrs_def buffers_of_def)
  have le: "unat (ss_i0 s) \<le> unat (ss_iN s)" "unat (ss_iN s) \<le> unat (cb_size b)"
    using s(4,5) by (simp_all add: word_nat)
  show ?thesis
  proof (cases "n \<le> ss_iN s - ss_i0 s")
    case True
    then have n: "unat n \<le> unat (ss_iN s) - unat (ss_i0 s)" using s(4) by (simp add: word_nat)
    then have "unat (ss_iN s - n) = unat (ss_iN s) - unat n" using le by (simp add: word_nat)
    then have "ss_addrs arr (ss_make (ss_buffers s) 1 (ss_iN s - n) (ss_iN s)) =
        drop (unat (ss_iN s) - unat n) (take (unat (ss_iN s)) (cb_addrs b))"
      unfolding ss_addrs_make s(1) view by simp
    then show ?thesis using True s(2) n le by (simp add: ss_suffix_def s_eq)
  next
    case False
    then have "unat (ss_iN s) - unat (ss_i0 s) \<le> unat n" using s(4) by (simp add: word_nat)
    then have "ss_addrs arr (ss_make (ss_buffers s) 1 (ss_i0 s) (ss_iN s)) =
        drop (length (ss_addrs arr s) - unat n) (ss_addrs arr s)"
      unfolding ss_addrs_make s(1) view s_eq using le by (simp add: min_def)
    then show ?thesis using False s(2) by (simp add: ss_suffix_def)
  qed
qed

lemma suffix_in_last:
  assumes s: "ss_buffers s = Some o0" "unat (ss_size s) = Suc (length bs)" "bs \<noteq> []"
    "take (unat (ss_size s)) (drop o0 arr) = bs @ [b]"
    "ss_i0 s \<le> cb_size (hd bs)" "ss_iN s \<le> cb_size b"
    "ss_addrs arr s = drop (unat (ss_i0 s)) (flat bs @ take (unat (ss_iN s)) (cb_addrs b))"
    and n: "n \<le> ss_iN s"
  shows "\<exists>t. ss_suffix arr s n = Some t \<and>
    ss_addrs arr t = drop (length (ss_addrs arr s) - unat n) (ss_addrs arr s)"
proof -
  have sz: "ss_size s \<noteq> 0" "ss_size s \<noteq> 1" using s(2,3) by auto
  then have pos: "unat (ss_size s - 1) = length bs" using s(2) by (simp add: unat_minus_one)
  have "take 1 (drop (o0 + length bs) arr) = drop (length bs) (take (unat (ss_size s)) (drop o0 arr))"
    using s(2) by (simp add: drop_take add.commute)
  then have one: "take (Suc 0) (drop (o0 + length bs) arr) = [b]" using s(4) by simp
  have le: "unat (ss_iN s - n) = unat (ss_iN s) - unat n" "unat n \<le> unat (ss_iN s)"
    "unat (ss_iN s) \<le> unat (cb_size b)" "unat (ss_i0 s) \<le> total bs"
    using n s(3,5,6) by (cases bs; simp add: word_nat)+
  let ?t = "ss_make (ptr_plus (ss_buffers s) (ss_size s - 1)) 1 (ss_iN s - n) (ss_iN s)"
  have "ss_addrs arr ?t = drop (unat (ss_iN s) - unat n) (take (unat (ss_iN s)) (cb_addrs b))"
    unfolding ss_addrs_make using s(1) one pos le
    by (simp add: ss_addrs_def buffers_of_def ptr_plus_def)
  also have "\<dots> = drop (length (ss_addrs arr s) - unat n) (ss_addrs arr s)"
    unfolding s(7) using le by (simp add: min_def)
  finally show ?thesis using sz n by (simp add: ss_suffix_def)
qed

lemma suffix_two:
  assumes s: "ss_buffers s = Some o0" "ss_size s = 2" "take 2 (drop o0 arr) = [c, b]"
    "ss_i0 s \<le> cb_size c" "ss_iN s \<le> cb_size b" and n: "n > ss_iN s"
  shows "\<exists>t. ss_suffix arr s n = Some t \<and>
    ss_addrs arr t = drop (length (ss_addrs arr s) - unat n) (ss_addrs arr s)"
proof -
  have view: "ss_addrs arr \<lparr>ss_buffers = Some o0, ss_size = 2, ss_i0 = i, ss_iN = ss_iN s\<rparr> =
      drop (unat i) (cb_addrs c @ take (unat (ss_iN s)) (cb_addrs b))" for i
    using s(3) by (simp add: ss_addrs_def buffers_of_def)
  have s_eq: "ss_addrs arr s = drop (unat (ss_i0 s)) (cb_addrs c @ take (unat (ss_iN s)) (cb_addrs b))"
    using s(1-3) by (simp add: ss_addrs_def buffers_of_def)
  have first: "buffer_at arr (ss_buffers s) 0 = Some c"
    using buffer_at_first [OF s(1), of 1 arr "[c, b]"] s(3) by (simp add: numeral_2_eq_2)
  let ?m = "n - ss_iN s"
  have m: "unat ?m = unat n - unat (ss_iN s)" "unat (ss_iN s) < unat n"
    using n by (simp_all add: word_nat)
  have le: "unat (ss_i0 s) \<le> unat (cb_size c)" "unat (ss_iN s) \<le> unat (cb_size b)"
    using s(4,5) by (simp_all add: word_nat)
  have suf: "ss_suffix arr s n = Some (if ?m \<le> cb_size c - ss_i0 s
      then ss_make (ss_buffers s) 2 (cb_size c - ?m) (ss_iN s) else s)"
    using s(2) n first by (simp add: ss_suffix_def Let_def leD)
  show ?thesis
  proof (cases "?m \<le> cb_size c - ss_i0 s")
    case True
    then have le_m: "unat n - unat (ss_iN s) \<le> unat (cb_size c) - unat (ss_i0 s)"
      using s(4) m by (simp add: word_nat)
    then have "unat (cb_size c - ?m) = unat (cb_size c) - unat ?m" using m le by (simp add: word_nat)
    then have "ss_addrs arr (ss_make (ss_buffers s) 2 (cb_size c - ?m) (ss_iN s)) =
        drop (unat (cb_size c) - unat ?m) (cb_addrs c @ take (unat (ss_iN s)) (cb_addrs b))"
      unfolding ss_addrs_make s(1) view by simp
    also have "\<dots> = drop (length (ss_addrs arr s) - unat n) (ss_addrs arr s)"
      unfolding s_eq using le m le_m by (simp add: min_def algebra_simps)
    finally show ?thesis using suf True by simp
  next
    case False
    then have "unat (cb_size c) - unat (ss_i0 s) \<le> unat n - unat (ss_iN s)"
      using s(4) m by (simp add: word_nat)
    then have "length (ss_addrs arr s) \<le> unat n" unfolding s_eq using le m by (simp add: min_def)
    with suf False show ?thesis by simp
  qed
qed

lemma suffix_drops:
  assumes "array_ok arr" "ss_ok arr s" "ss_size s \<le> 2 \<or> n \<le> ss_iN s"
  shows "\<exists>t. ss_suffix arr s n = Some t \<and>
    ss_addrs arr t = drop (length (ss_addrs arr s) - unat n) (ss_addrs arr s)"
proof (cases "ss_size s = 0")
  case True
  then show ?thesis by (simp add: ss_suffix_def ss_addrs_empty)
next
  case False
  with assms(2) obtain o0 bs b where s: "ss_buffers s = Some o0" "buffers_of arr s = bs @ [b]"
    "unat (ss_size s) = Suc (length bs)" "take (unat (ss_size s)) (drop o0 arr) = bs @ [b]"
    "o0 + unat (ss_size s) \<le> length arr"
    "ss_i0 s \<le> cb_size (hd (bs @ [b]))" "ss_iN s \<le> cb_size b"
    "bs = [] \<longrightarrow> ss_i0 s \<le> ss_iN s"
    "ss_addrs arr s = drop (unat (ss_i0 s)) (flat bs @ take (unat (ss_iN s)) (cb_addrs b))"
    by (rule ss_okE)
  show ?thesis
  proof (cases bs)
    case Nil
    with s(3) have one: "ss_size s = 1" by (metis One_nat_def list.size(3) unat_eq_one)
    with s(4,7,8) Nil show ?thesis by (intro suffix_one [OF s(1) one, of arr b]) simp_all
  next
    case (Cons c cs)
    show ?thesis
    proof (cases "n \<le> ss_iN s")
      case True
      with s Cons show ?thesis by (intro suffix_in_last [OF s(1,3) _ s(4) _ s(7,9)]) simp_all
    next
      case far: False
      with assms(3) have "unat (ss_size s) \<le> 2" by (simp add: word_nat)
      with s(3) Cons have cs: "cs = []" "unat (ss_size s) = unat (2 :: size_t)" by simp_all
      then have two: "ss_size s = 2" by (simp only: word_unat_eq_iff)
      with far s(4,6,7) Cons cs show ?thesis
        by (intro suffix_two [OF s(1) two, of arr c b]) simp_all
    qed
  qed
qed


text \<open>Remark (span_suffix). The suffix of a subspan is the suffix of its bytes, as long as it has at most two
  buffers or the suffix lies in its last buffer.\<close>

theorem suffix_takes_end:
  assumes "array_ok arr" "ss_ok arr s" "ss_size s \<le> 2 \<or> n \<le> ss_iN s"
  shows "\<exists>t. ss_suffix arr s n = Some t \<and>
    ss_addrs arr t = drop (length (ss_addrs arr s) - unat n) (ss_addrs arr s)"
  using suffix_drops [OF assms] .

theorem suffix_takes_end_witness:
  "\<exists>t. ss_suffix [cb_make 100 4, cb_make 200 5]
      \<lparr>ss_buffers = Some 0, ss_size = 2, ss_i0 = 1, ss_iN = 2\<rparr> 3 = Some t \<and>
    ss_addrs [cb_make 100 4, cb_make 200 5] t = [103, 200, 201]"
  using suffix_takes_end [of "[cb_make 100 4, cb_make 200 5]"
      "\<lparr>ss_buffers = Some 0, ss_size = 2, ss_i0 = 1, ss_iN = 2\<rparr>" 3]
  by (simp add: array_ok_def ss_ok_def cb_make_def ss_addrs_def buffers_of_def cb_addrs_def flat_def
      total_def full_last_def upt_rec)

text \<open>Remark (without_prefix). \<^verbatim>\<open>without_prefix\<close> of a subspan of at most two buffers drops the given number of bytes,
  and leaves nothing when there are no more.\<close>

theorem without_prefix_drops:
  assumes "array_ok arr" "ss_ok arr s" "ss_size s \<le> 2"
  shows "\<exists>t. without_prefix arr s n = Some t \<and> ss_addrs arr t = drop (unat n) (ss_addrs arr s)"
proof -
  obtain k where k: "ss_buffer_size arr s = Some k" "unat k = length (ss_addrs arr s)"
    using buffer_size_total [OF assms(1,2)] by blast
  let ?rest = "if n \<le> k then k - n else 0"
  obtain t where t: "ss_suffix arr s ?rest = Some t"
    "ss_addrs arr t = drop (length (ss_addrs arr s) - unat ?rest) (ss_addrs arr s)"
    using suffix_drops [OF assms(1,2)] assms(3) by blast
  have "drop (length (ss_addrs arr s) - unat ?rest) (ss_addrs arr s) = drop (unat n) (ss_addrs arr s)"
    using k(2) by (auto simp: word_nat)
  with t k(1) show ?thesis by (simp add: without_prefix_def)
qed

theorem without_prefix_drops_witness:
  "\<exists>t. without_prefix [cb_make 100 4, cb_make 200 5]
      \<lparr>ss_buffers = Some 0, ss_size = 2, ss_i0 = 1, ss_iN = 2\<rparr> 2 = Some t \<and>
    ss_addrs [cb_make 100 4, cb_make 200 5] t = [103, 200, 201]"
  using without_prefix_drops [of "[cb_make 100 4, cb_make 200 5]"
      "\<lparr>ss_buffers = Some 0, ss_size = 2, ss_i0 = 1, ss_iN = 2\<rparr>" 2]
  by (simp add: array_ok_def ss_ok_def cb_make_def ss_addrs_def buffers_of_def cb_addrs_def flat_def
      total_def full_last_def upt_rec)

definition three_buffers :: "const_buffer list" where
  "three_buffers = [cb_make 100 5, cb_make 200 2, cb_make 300 2]"

definition one_buffer :: subspan where
  "one_buffer = \<lparr>ss_buffers = Some 0, ss_size = 1, ss_i0 = 0, ss_iN = 5\<rparr>"

text \<open>Remark (span_errors). Outside these bounds the operations go wrong: the suffix of three buffers measures the middle
  one by the size of the first, and starts and ends beyond the end of a buffer; the prefix of a prefix can be longer than
  it; a prefix of a single buffer that is longer than the buffer reads the last element of an
  empty span.\<close>

theorem subspan_errors:
  "bs_suffix three_buffers (bs_make (Some 0) 3) 3 =
     Some \<lparr>ss_buffers = Some 1, ss_size = 2, ss_i0 = 4, ss_iN = 5\<rparr> \<and>
   \<not> ss_ok three_buffers \<lparr>ss_buffers = Some 1, ss_size = 2, ss_i0 = 4, ss_iN = 5\<rparr> \<and>
   map_option (ss_addrs three_buffers) (ss_prefix three_buffers one_buffer 2) = Some [100, 101] \<and>
   map_option (ss_addrs three_buffers) (do {
     t \<leftarrow> ss_prefix three_buffers one_buffer 2;
     ss_prefix three_buffers t 4
   }) = Some [100, 101, 102, 103] \<and>
   ss_prefix three_buffers one_buffer 6 = None"
proof (intro conjI)
  show "\<not> ss_ok three_buffers \<lparr>ss_buffers = Some 1, ss_size = 2, ss_i0 = 4, ss_iN = 5\<rparr>"
    by (simp add: ss_ok_def three_buffers_def cb_make_def word_le_nat_alt)
qed (code_simp+)

subsection \<open>Iteration\<close>

text \<open>Remark (span_deref). Reading through an iterator works for every buffer of a subspan but the last, where it
  indexes the array at \<^verbatim>\<open>size_t(-1)\<close>, so that no subspan can be read completely.\<close>

theorem deref_last_out_of_bounds:
  assumes "array_ok arr" "ss_buffers s = Some o0" "o0 + unat (ss_size s) \<le> length arr" "i < ss_size s"
  shows "ss_deref arr (s, i) =
    (if i = ss_size s - 1 then None
     else if i = 0 then Some (cb_plus (arr ! o0) (ss_i0 s))
     else Some (arr ! (o0 + unat i)))"
proof -
  have i: "unat i < unat (ss_size s)" "0 < ss_size s"
    using assms(4) by (auto simp: word_less_nat_alt word_gt_0)
  then have m: "unat (ss_size s - 1) = unat (ss_size s) - 1"
    by (metis unat_minus_one word_gt_0)
  have oob: "unat (- 1 :: size_t) \<ge> length arr" using assms(1) by (simp add: array_ok_def unsigned_minus_1_eq_mask mask_eq_exp_minus_1)
  have "i \<ge> ss_size s - 1 \<longleftrightarrow> i = ss_size s - 1"
    using i m by (simp add: word_le_nat_alt word_unat_eq_iff) linarith
  moreover have "i \<noteq> - 1" using assms(3) i oob by auto
  ultimately show ?thesis
    using assms(2,3) i oob by (simp add: ss_deref_def Let_def buffer_at_def)
qed

theorem deref_last_out_of_bounds_witness:
  "ss_deref [cb_make 100 4, cb_make 200 5]
      (\<lparr>ss_buffers = Some 0, ss_size = 2, ss_i0 = 1, ss_iN = 5\<rparr>, 1) = None \<and>
   ss_deref [cb_make 100 4, cb_make 200 5]
      (\<lparr>ss_buffers = Some 0, ss_size = 2, ss_i0 = 1, ss_iN = 5\<rparr>, 0) = Some (cb_make 101 3)"
  using deref_last_out_of_bounds [of "[cb_make 100 4, cb_make 200 5]"
      "\<lparr>ss_buffers = Some 0, ss_size = 2, ss_i0 = 1, ss_iN = 5\<rparr>" 0]
  by (simp add: array_ok_def cb_make_def total_def cb_plus_def cb_advance_def word_le_nat_alt)

end
