(* ===== verification/Mutable_Buffer_Span.thy ===== *)
theory Mutable_Buffer_Span
  imports Mutable_Buffer Const_Buffer_Span_Correct
begin

text \<open>
  \<^verbatim>\<open>mutable_buffer_span.hpp\<close> and \<^verbatim>\<open>mutable_buffer_span.cpp\<close>: the same classes as for const buffers. Each
  operation commutes with the conversion to const buffers, which carries the properties over.
\<close>

record msubspan =
  ms_buffers :: buffer_ptr
  ms_size :: size_t
  ms_i0 :: size_t
  ms_iN :: size_t

record mbuffer_array_span =
  mbs_buffers :: buffer_ptr
  mbs_size :: size_t

definition mbuffer_at :: "mutable_buffer list \<Rightarrow> buffer_ptr \<Rightarrow> size_t \<Rightarrow> mutable_buffer option" where
  "mbuffer_at arr p k = do {
     o0 \<leftarrow> p;
     (if o0 + unat k < length arr then Some (arr ! (o0 + unat k)) else None)
   }"

subsection \<open>Construction\<close>

definition ms_default :: msubspan where
  "ms_default = \<lparr>ms_buffers = None, ms_size = 0, ms_i0 = 0, ms_iN = 0\<rparr>"

definition ms_of_span :: "mutable_buffer list \<Rightarrow> mbuffer_array_span \<Rightarrow> msubspan option" where
  "ms_of_span arr sp =
     (let s = \<lparr>ms_buffers = mbs_buffers sp, ms_size = mbs_size sp, ms_i0 = 0, ms_iN = 0\<rparr>
      in if ms_size s > 0 then do {
           last_buffer \<leftarrow> mbuffer_at arr (ms_buffers s) (ms_size s - 1);
           Some (s\<lparr>ms_iN := mb_size last_buffer\<rparr>)
         } else Some s)"

definition ms_make :: "buffer_ptr \<Rightarrow> size_t \<Rightarrow> size_t \<Rightarrow> size_t \<Rightarrow> msubspan" where
  "ms_make pointer sz i0 iN =
     (let s = \<lparr>ms_buffers = pointer, ms_size = sz, ms_i0 = i0, ms_iN = iN\<rparr>
      in if ms_size s = 1 \<and> ms_i0 s = ms_iN s then s\<lparr>ms_buffers := None, ms_size := 0\<rparr> else s)"

definition ms_empty :: "msubspan \<Rightarrow> bool" where
  "ms_empty s \<longleftrightarrow> ms_size s = 0"

subsection \<open>Iteration\<close>

type_synonym ms_iterator = "msubspan \<times> size_t"

definition ms_begin :: "msubspan \<Rightarrow> ms_iterator" where
  "ms_begin s = (s, 0)"

definition ms_end :: "msubspan \<Rightarrow> ms_iterator" where
  "ms_end s = (s, ms_size s)"

definition ms_deref :: "mutable_buffer list \<Rightarrow> ms_iterator \<Rightarrow> mutable_buffer option" where
  "ms_deref arr it = (case it of (parent, index0) \<Rightarrow>
     let sz = ms_size parent;
         last_index = (- 1 :: size_t);
         index = (if index0 \<ge> sz - 1 then last_index else index0)
     in if index = 0 then do {
          b \<leftarrow> mbuffer_at arr (ms_buffers parent) index;
          Some (mb_plus b (ms_i0 parent))
        } else if index = last_index then do {
          b \<leftarrow> mbuffer_at arr (ms_buffers parent) index;
          Some (mb_prefix b (ms_iN parent))
        } else mbuffer_at arr (ms_buffers parent) index)"

definition ms_incr :: "ms_iterator \<Rightarrow> ms_iterator" where
  "ms_incr it = (fst it, snd it + 1)"

definition ms_incr_post :: "ms_iterator \<Rightarrow> ms_iterator \<times> ms_iterator" where
  "ms_incr_post it = (let tmp = it in (tmp, ms_incr it))"

definition ms_decr :: "ms_iterator \<Rightarrow> ms_iterator" where
  "ms_decr it = (fst it, snd it - 1)"

definition ms_decr_post :: "ms_iterator \<Rightarrow> ms_iterator \<times> ms_iterator" where
  "ms_decr_post it = (let tmp = it in (tmp, ms_decr it))"

subsection \<open>Finding a byte, prefix and suffix\<close>

definition mread_span :: "mutable_buffer list \<Rightarrow> buffer_ptr \<Rightarrow> size_t \<Rightarrow> mutable_buffer list option" where
  "mread_span arr p k =
     (case p of
        None \<Rightarrow> if k = 0 then Some [] else None
      | Some o0 \<Rightarrow> if o0 + unat k \<le> length arr then Some (take (unat k) (drop o0 arr)) else None)"

fun mfind_loop :: "size_t \<Rightarrow> mutable_buffer list \<Rightarrow> size_t \<Rightarrow> (size_t \<times> size_t) + size_t" where
  "mfind_loop i [] n = Inr i"
| "mfind_loop i (b # bs) n =
     (if n \<le> mb_size b then Inl (i, n) else mfind_loop (i + 1) bs (n - mb_size b))"

text \<open>\<^verbatim>\<open>back()\<close> of an empty span is undefined.\<close>

definition mfind_buffer_index_for_n ::
  "mutable_buffer list \<Rightarrow> size_t \<Rightarrow> (size_t \<times> size_t) option" where
  "mfind_buffer_index_for_n buffers n =
     (case mfind_loop 0 buffers n of
        Inl r \<Rightarrow> Some r
      | Inr i \<Rightarrow> if buffers = [] then None else Some (i - 1, mb_size (last buffers)))"

fun msum_sizes :: "size_t \<Rightarrow> mutable_buffer list \<Rightarrow> size_t" where
  "msum_sizes sz [] = sz"
| "msum_sizes sz (b # bs) = msum_sizes (sz + mb_size b) bs"

definition ms_buffer_size :: "mutable_buffer list \<Rightarrow> msubspan \<Rightarrow> size_t option" where
  "ms_buffer_size arr s =
     (if ms_size s = 0 then Some 0
      else if ms_size s = 1 then Some (ms_iN s - ms_i0 s)
      else do {
        b0 \<leftarrow> mbuffer_at arr (ms_buffers s) 0;
        let sz = mb_size b0 - ms_i0 s;
        buffers \<leftarrow> mread_span arr (ptr_plus (ms_buffers s) 1) (ms_size s - 2);
        Some (msum_sizes sz buffers + ms_iN s)
      })"

definition ms_prefix :: "mutable_buffer list \<Rightarrow> msubspan \<Rightarrow> size_t \<Rightarrow> msubspan option" where
  "ms_prefix arr s n =
     (if ms_size s = 0 then Some s
      else do {
        b0 \<leftarrow> mbuffer_at arr (ms_buffers s) 0;
        let first_length = mb_size b0 - ms_i0 s;
        (if n \<le> first_length then Some (ms_make (ms_buffers s) 1 (ms_i0 s) (n + ms_i0 s))
         else do {
           buffers \<leftarrow> mread_span arr (ptr_plus (ms_buffers s) 1) (ms_size s - 1);
           (index, rest) \<leftarrow> mfind_buffer_index_for_n buffers (n - first_length);
           Some (ms_make (ms_buffers s) (index + 2) (ms_i0 s) rest)
         })
      })"

text \<open>
  The loop of \<^verbatim>\<open>suffix\<close>: \<open>Inl\<close> is the early return, \<open>Inr\<close> the remaining count at \<open>i = 0\<close>. The
  variable \<^verbatim>\<open>length\<close> is the size of the first buffer, also for the later ones.
\<close>

fun msuffix_loop ::
  "mutable_buffer list \<Rightarrow> msubspan \<Rightarrow> nat \<Rightarrow> size_t \<Rightarrow> (msubspan + size_t) option" where
  "msuffix_loop arr s 0 n = Some (Inr n)"
| "msuffix_loop arr s (Suc i) n = do {
     b \<leftarrow> mbuffer_at arr (ms_buffers s) (of_nat (Suc i));
     b0 \<leftarrow> mbuffer_at arr (ms_buffers s) 0;
     let len = mb_size b0;
     (if n \<le> len then
        Some (Inl (ms_make (ptr_plus (ms_buffers s) (of_nat (Suc i))) (ms_size s - of_nat (Suc i))
          (len - n) len))
      else msuffix_loop arr s i (n - mb_size b))
   }"

definition ms_suffix :: "mutable_buffer list \<Rightarrow> msubspan \<Rightarrow> size_t \<Rightarrow> msubspan option" where
  "ms_suffix arr s n =
     (if ms_size s = 0 then Some s
      else if ms_size s = 1 then
        (let len = ms_iN s - ms_i0 s
         in if n \<le> len then Some (ms_make (ms_buffers s) 1 (ms_i0 s + len - n) (ms_iN s))
            else Some (ms_make (ms_buffers s) 1 (ms_i0 s) (ms_iN s)))
      else if n \<le> ms_iN s then
        Some (ms_make (ptr_plus (ms_buffers s) (ms_size s - 1)) 1 (ms_iN s - n) (ms_iN s))
      else do {
        r \<leftarrow> msuffix_loop arr s (unat (ms_size s - 2)) (n - ms_iN s);
        (case r of
           Inl t \<Rightarrow> Some t
         | Inr m \<Rightarrow> do {
             b0 \<leftarrow> mbuffer_at arr (ms_buffers s) 0;
             let first_length = mb_size b0 - ms_i0 s;
             Some (if m \<le> first_length
               then ms_make (ms_buffers s) (ms_size s) (ms_i0 s + first_length - m) (ms_iN s)
               else s)
           })
      })"

subsection \<open>The span\<close>

definition mbs_default :: mbuffer_array_span where
  "mbs_default = \<lparr>mbs_buffers = None, mbs_size = 0\<rparr>"

definition mbs_make :: "buffer_ptr \<Rightarrow> size_t \<Rightarrow> mbuffer_array_span" where
  "mbs_make p sz = \<lparr>mbs_buffers = p, mbs_size = sz\<rparr>"

definition mbs_empty :: "mbuffer_array_span \<Rightarrow> bool" where
  "mbs_empty sp \<longleftrightarrow> mbs_size sp = 0"

definition mbs_begin :: "mbuffer_array_span \<Rightarrow> buffer_ptr" where
  "mbs_begin sp = mbs_buffers sp"

definition mbs_end :: "mbuffer_array_span \<Rightarrow> buffer_ptr" where
  "mbs_end sp = ptr_plus (mbs_buffers sp) (mbs_size sp)"

definition mbs_buffer_size :: "mutable_buffer list \<Rightarrow> mbuffer_array_span \<Rightarrow> size_t option" where
  "mbs_buffer_size arr sp = do { s \<leftarrow> ms_of_span arr sp; ms_buffer_size arr s }"

definition mbs_prefix :: "mutable_buffer list \<Rightarrow> mbuffer_array_span \<Rightarrow> size_t \<Rightarrow> msubspan option" where
  "mbs_prefix arr sp n = do { s \<leftarrow> ms_of_span arr sp; ms_prefix arr s n }"

definition mbs_suffix :: "mutable_buffer list \<Rightarrow> mbuffer_array_span \<Rightarrow> size_t \<Rightarrow> msubspan option" where
  "mbs_suffix arr sp n = do { s \<leftarrow> ms_of_span arr sp; ms_suffix arr s n }"

subsection \<open>Agreement with spans of const buffers\<close>

definition ms_to_const :: "msubspan \<Rightarrow> subspan" where
  "ms_to_const s =
     \<lparr>ss_buffers = ms_buffers s, ss_size = ms_size s, ss_i0 = ms_i0 s, ss_iN = ms_iN s\<rparr>"

definition mbs_to_const :: "mbuffer_array_span \<Rightarrow> buffer_array_span" where
  "mbs_to_const sp = \<lparr>bs_buffers = mbs_buffers sp, bs_size = mbs_size sp\<rparr>"

lemma ms_to_const_simps [simp]:
  "ss_buffers (ms_to_const s) = ms_buffers s" "ss_size (ms_to_const s) = ms_size s"
  "ss_i0 (ms_to_const s) = ms_i0 s" "ss_iN (ms_to_const s) = ms_iN s"
  "bs_buffers (mbs_to_const sp) = mbs_buffers sp" "bs_size (mbs_to_const sp) = mbs_size sp"
  by (simp_all add: ms_to_const_def mbs_to_const_def)

lemma to_const_make [simp]: "ms_to_const (ms_make p n i0 iN) = ss_make p n i0 iN"
  by (simp add: ms_make_def ss_make_def ms_to_const_def Let_def)

lemma to_const_at [simp]:
  "buffer_at (map mb_to_const arr) p k = map_option mb_to_const (mbuffer_at arr p k)"
  by (cases p) (simp_all add: buffer_at_def mbuffer_at_def)

lemma to_const_span [simp]:
  "read_span (map mb_to_const arr) p k = map_option (map mb_to_const) (mread_span arr p k)"
  by (cases p) (simp_all add: read_span_def mread_span_def take_map drop_map)

lemma to_const_find_loop [simp]: "find_loop i (map mb_to_const bs) n = mfind_loop i bs n"
  by (induction bs arbitrary: i n) simp_all

lemma to_const_find [simp]:
  "find_buffer_index_for_n (map mb_to_const bs) n = mfind_buffer_index_for_n bs n"
  by (simp add: find_buffer_index_for_n_def mfind_buffer_index_for_n_def last_map
      split: sum.splits)

lemma to_const_sum [simp]: "sum_sizes n (map mb_to_const bs) = msum_sizes n bs"
  by (induction bs arbitrary: n) simp_all

lemma bind_map_option: "map_option f m \<bind> g = m \<bind> (\<lambda>x. g (f x))"
  by (cases m) simp_all

lemma map_option_bind: "map_option f (m \<bind> g) = m \<bind> (\<lambda>x. map_option f (g x))"
  by (cases m) simp_all

lemma case_sum_map: "(case map_sum f g x of Inl a \<Rightarrow> h a | Inr b \<Rightarrow> k b) =
    (case x of Inl a \<Rightarrow> h (f a) | Inr b \<Rightarrow> k (g b))"
  by (cases x) simp_all

lemmas to_const_binds = bind_map_option map_option_bind Let_def case_sum_map
  if_distrib [where f = "map_option ms_to_const"] if_distrib [where f = ms_to_const]
  if_distrib [where f = "map_option (map_sum ms_to_const id)"]
  prod.case_distrib [where h = "map_option ms_to_const"]
  sum.case_distrib [where h = "map_option ms_to_const"]

lemma to_const_suffix_loop [simp]:
  "suffix_loop (map mb_to_const arr) (ms_to_const s) i n =
     map_option (map_sum ms_to_const id) (msuffix_loop arr s i n)"
  by (induction i arbitrary: n) (simp_all add: to_const_binds cong: if_cong)

lemma to_const_buffer_size:
  "ss_buffer_size (map mb_to_const arr) (ms_to_const s) = ms_buffer_size arr s"
  by (simp add: ss_buffer_size_def ms_buffer_size_def to_const_binds cong: if_cong prod.case_cong sum.case_cong)

lemma to_const_prefix:
  "ss_prefix (map mb_to_const arr) (ms_to_const s) n = map_option ms_to_const (ms_prefix arr s n)"
  by (simp add: ss_prefix_def ms_prefix_def to_const_binds cong: if_cong prod.case_cong sum.case_cong)

lemma to_const_suffix:
  "ss_suffix (map mb_to_const arr) (ms_to_const s) n = map_option ms_to_const (ms_suffix arr s n)"
  by (simp add: ss_suffix_def ms_suffix_def to_const_binds cong: if_cong prod.case_cong sum.case_cong)


lemma to_const_of_span:
  "ss_of_span (map mb_to_const arr) (mbs_to_const sp) = map_option ms_to_const (ms_of_span arr sp)"
  by (simp add: ss_of_span_def ms_of_span_def ms_to_const_def to_const_binds cong: if_cong)

lemma to_const_deref:
  "ss_deref (map mb_to_const arr) (ms_to_const s, i) = map_option mb_to_const (ms_deref arr (s, i))"
  by (simp add: ss_deref_def ms_deref_def bind_map_option map_option_bind Let_def
      if_distrib [where f = "map_option mb_to_const"] cong: if_cong)

text \<open>Remark (mutable). Spans of mutable buffers do on every input, undefined ones included, what spans of const
  buffers do: every operation commutes with forgetting that the storage can be written.\<close>

theorem mutable_span_agrees:
  "bs_buffer_size (map mb_to_const arr) (mbs_to_const sp) = mbs_buffer_size arr sp \<and>
   bs_prefix (map mb_to_const arr) (mbs_to_const sp) n = map_option ms_to_const (mbs_prefix arr sp n) \<and>
   bs_suffix (map mb_to_const arr) (mbs_to_const sp) n = map_option ms_to_const (mbs_suffix arr sp n) \<and>
   ss_prefix (map mb_to_const arr) (ms_to_const s) n = map_option ms_to_const (ms_prefix arr s n) \<and>
   ss_suffix (map mb_to_const arr) (ms_to_const s) n = map_option ms_to_const (ms_suffix arr s n) \<and>
   ss_deref (map mb_to_const arr) (ms_to_const s, i) = map_option mb_to_const (ms_deref arr (s, i))"
  by (simp add: bs_buffer_size_def mbs_buffer_size_def bs_prefix_def mbs_prefix_def bs_suffix_def
      mbs_suffix_def to_const_of_span to_const_buffer_size to_const_prefix to_const_suffix
      to_const_deref bind_map_option map_option_bind)

end
