(* ===== verification/Buffered_Sequence.thy ===== *)
theory Buffered_Sequence
  imports Mutable_Buffer_Span
begin

text \<open>
  \<^verbatim>\<open>buffer.hpp\<close> and \<^verbatim>\<open>sequence/buffered_sequence.hpp\<close>: making buffers from C++ objects, and the
  sequence that repeats a partial read or write until its buffers are used up.

  An item of the sequence is one operation of the sender factory. Its outcome is a parameter; so is
  how the sender that the receiver returned from \<^verbatim>\<open>set_next\<close> completes after it.
\<close>

subsection \<open>Making buffers\<close>

text \<open>
  An object is its address, the number of its elements and the size of one. The overloads for
  \<^verbatim>\<open>std::array\<close> multiply the number of elements by itself.
\<close>

definition buffer_c_array_const :: "u64 \<Rightarrow> size_t \<Rightarrow> size_t \<Rightarrow> const_buffer" where
  "buffer_c_array_const addr sizeof_T N = cb_make addr (sizeof_T * N)"

definition buffer_c_array :: "u64 \<Rightarrow> size_t \<Rightarrow> size_t \<Rightarrow> mutable_buffer" where
  "buffer_c_array addr sizeof_T N = mb_make addr (sizeof_T * N)"

definition buffer_string_const :: "u64 \<Rightarrow> size_t \<Rightarrow> size_t \<Rightarrow> const_buffer" where
  "buffer_string_const addr sizeof_CharT sz = cb_make addr (sz * sizeof_CharT)"

definition buffer_string :: "u64 \<Rightarrow> size_t \<Rightarrow> size_t \<Rightarrow> mutable_buffer" where
  "buffer_string addr sizeof_CharT sz = mb_make addr (sz * sizeof_CharT)"

definition buffer_string_view :: "u64 \<Rightarrow> size_t \<Rightarrow> size_t \<Rightarrow> const_buffer" where
  "buffer_string_view addr sizeof_CharT sz = cb_make addr (sz * sizeof_CharT)"

definition buffer_std_array :: "u64 \<Rightarrow> size_t \<Rightarrow> size_t \<Rightarrow> mutable_buffer" where
  "buffer_std_array addr sizeof_T N = mb_make addr (N * N)"

definition buffer_std_array_of_const :: "u64 \<Rightarrow> size_t \<Rightarrow> size_t \<Rightarrow> const_buffer" where
  "buffer_std_array_of_const addr sizeof_T N = cb_make addr (N * N)"

definition buffer_std_array_const :: "u64 \<Rightarrow> size_t \<Rightarrow> size_t \<Rightarrow> const_buffer" where
  "buffer_std_array_const addr sizeof_T N = cb_make addr (N * N)"

text \<open>Remark (std_array). The buffer of a C array or string covers its bytes; the buffer of a \<^verbatim>\<open>std::array\<close> has the
  right size only when the array has as many elements as an element has bytes, or none.\<close>

theorem buffer_sizes:
  "cb_size (buffer_c_array_const a w n) = w * n \<and> mb_size (buffer_c_array a w n) = w * n \<and>
   cb_size (buffer_string_view a w n) = w * n \<and>
   (mb_size (buffer_std_array a w n) = w * n \<longleftrightarrow> (n - w) * n = 0) \<and>
   mb_size (buffer_std_array a 1 1024) = 1048576"
  by (auto simp: buffer_c_array_const_def buffer_c_array_def buffer_string_view_def
      buffer_std_array_def cb_make_def mb_make_def algebra_simps)

subsection \<open>The part that is left\<close>

text \<open>\<^verbatim>\<open>buffer_span\<close>: what is left of one buffer or of a row of buffers, and the file offset.\<close>

type_synonym off_t = u64

record single_span =
  s_buffer :: const_buffer
  s_offset :: off_t

definition single_advance :: "size_t \<Rightarrow> single_span \<Rightarrow> single_span" where
  "single_advance n s =
     (let s1 = s\<lparr>s_buffer := cb_advance n (s_buffer s)\<rparr>
      in if s_offset s1 \<noteq> - 1 then s1\<lparr>s_offset := s_offset s1 + n\<rparr> else s1)"

record multi_span =
  m_buffers :: "const_buffer list"
  m_offset :: off_t

text \<open>The loop returns the buffers that are left and what is left of \<open>n\<close>.\<close>

fun advance_loop :: "const_buffer list \<Rightarrow> size_t \<Rightarrow> const_buffer list \<times> size_t" where
  "advance_loop [] n = ([], n)"
| "advance_loop (b # bs) n =
     (if n > 0 then
        (if n < cb_size b then (cb_advance n b # bs, n)
         else advance_loop bs (n - cb_size b))
      else (b # bs, n))"

definition multi_advance :: "size_t \<Rightarrow> multi_span \<Rightarrow> multi_span" where
  "multi_advance n s =
     (let (bs, n') = advance_loop (m_buffers s) n;
          s1 = s\<lparr>m_buffers := bs\<rparr>
      in if m_offset s1 \<noteq> - 1 then s1\<lparr>m_offset := m_offset s1 + n'\<rparr> else s1)"

lemma advance_loop_flat:
  "flat (fst (advance_loop bs n)) = drop (unat n) (flat bs)"
proof (induction bs arbitrary: n)
  case (Cons b bs)
  then show ?case by (auto simp: not_less word_le_nat_alt word_less_nat_alt unat_sub)
qed simp

lemma multi_advance_flat: "flat (m_buffers (multi_advance n m)) = drop (unat n) (flat (m_buffers m))"
  using advance_loop_flat [of "m_buffers m" n]
  by (cases "advance_loop (m_buffers m) n") (simp add: multi_advance_def Let_def)

lemma single_advance_addrs:
  "cb_addrs (s_buffer (single_advance n s)) = drop (unat n) (cb_addrs (s_buffer s))"
  by (simp add: single_advance_def Let_def)

text \<open>Remark (advance). Advancing drops the given number of bytes, for one buffer and for a row of them. The file
  offset of a single buffer moves by that number; the offset of a row moves only by the bytes taken
  from the last buffer that was touched and not used up, so that a row of buffers that a write
  crosses is continued at an offset too small.\<close>

theorem advance_spec:
  "cb_addrs (s_buffer (single_advance n s)) = drop (unat n) (cb_addrs (s_buffer s)) \<and>
   s_offset (single_advance n s) = (if s_offset s = - 1 then - 1 else s_offset s + n) \<and>
   flat (m_buffers (multi_advance n m)) = drop (unat n) (flat (m_buffers m)) \<and>
   m_offset (multi_advance 6 \<lparr>m_buffers = [cb_make 100 4, cb_make 200 4], m_offset = 0\<rparr>) = 2 \<and>
   m_offset (multi_advance 4 \<lparr>m_buffers = [cb_make 100 4, cb_make 200 4], m_offset = 0\<rparr>) = 0"
proof (intro conjI)
  show "flat (m_buffers (multi_advance n m)) = drop (unat n) (flat (m_buffers m))"
    by (rule multi_advance_flat)
qed (simp_all add: single_advance_def Let_def multi_advance_def cb_make_def)


subsection \<open>The sequence\<close>

text \<open>
  One round of the sequence: the item operation completes, and then the sender that the receiver
  made of it completes, with a value or stopped. \<open>throws\<close> says that connecting the next item
  throws, \<open>stop_requested\<close> that the stop token of the receiver says so when the round ends.
\<close>

datatype next_outcome = Next_Value | Next_Stopped

record 'e round =
  item_signal :: "(size_t, 'e) signal"
  next_signal :: next_outcome
  connect_throws :: bool
  stop_seen :: bool

datatype ('s, 'e) bseq = Running 's | Finished 's "(unit, 'e + unit) signal"

definition item_complete :: "(size_t \<Rightarrow> 's \<Rightarrow> 's) \<Rightarrow> (size_t, 'e) signal \<Rightarrow> 's \<Rightarrow> 's" where
  "item_complete advance sig s =
     (case sig of Set_Value n \<Rightarrow> advance n s | Set_Error ec \<Rightarrow> s | Set_Stopped \<Rightarrow> s)"

definition next_complete ::
  "('s \<Rightarrow> bool) \<Rightarrow> next_outcome \<Rightarrow> bool \<Rightarrow> bool \<Rightarrow> 's \<Rightarrow> ('s, 'e) bseq" where
  "next_complete empty_data sig throws stop s =
     (case sig of
        Next_Value \<Rightarrow>
          (if empty_data s then Finished s (Set_Value ())
           else if throws then Finished s (Set_Error (Inr ()))
           else Running s)
      | Next_Stopped \<Rightarrow> Finished s (if stop then Set_Stopped else Set_Value ()))"

definition bseq_round ::
  "(size_t \<Rightarrow> 's \<Rightarrow> 's) \<Rightarrow> ('s \<Rightarrow> bool) \<Rightarrow> 'e round \<Rightarrow> 's \<Rightarrow> ('s, 'e) bseq" where
  "bseq_round advance empty_data r s =
     next_complete empty_data (next_signal r) (connect_throws r) (stop_seen r)
       (item_complete advance (item_signal r) s)"

text \<open>
  \<^verbatim>\<open>start\<close> starts the first item, whatever the buffers are. The list records what the factory was
  given for each item.
\<close>

fun bseq_run ::
  "(size_t \<Rightarrow> 's \<Rightarrow> 's) \<Rightarrow> ('s \<Rightarrow> bool) \<Rightarrow> 'e round list \<Rightarrow> 's \<Rightarrow> 's list \<times> ('s, 'e) bseq" where
  "bseq_run advance empty_data [] s = ([], Running s)"
| "bseq_run advance empty_data (r # rs) s =
     (case bseq_round advance empty_data r s of
        Running s1 \<Rightarrow> (let (given, end) = bseq_run advance empty_data rs s1 in (s # given, end))
      | Finished s1 sig \<Rightarrow> ([s], Finished s1 sig))"

fun final :: "('s, 'e) bseq \<Rightarrow> 's" where
  "final (Running s) = s"
| "final (Finished s sig) = s"

text \<open>The bytes moved by the items of a run, in order, and the bytes left at its end.\<close>

fun moved :: "('s \<Rightarrow> u64 list) \<Rightarrow> 'e round list \<Rightarrow> 's list \<Rightarrow> u64 list" where
  "moved bytes (r # rs) (s # ss) =
     (case item_signal r of Set_Value n \<Rightarrow> take (unat n) (bytes s) | _ \<Rightarrow> []) @ moved bytes rs ss"
| "moved _ _ _ = []"

text \<open>What the sequence relies on: advancing drops bytes, and no data is left when there are no bytes.\<close>

locale resumable =
  fixes bytes :: "'s \<Rightarrow> u64 list"
    and advance :: "size_t \<Rightarrow> 's \<Rightarrow> 's"
    and empty_data :: "'s \<Rightarrow> bool"
  assumes advance_law: "bytes (advance n s) = drop (unat n) (bytes s)"
    and empty_data_law: "empty_data s \<Longrightarrow> bytes s = []"
begin

lemma round_final: "final (bseq_round advance empty_data r s) = item_complete advance (item_signal r) s"
  by (simp add: bseq_round_def next_complete_def split: next_outcome.split)

lemma item_complete_bytes:
  "(case item_signal r of Set_Value n \<Rightarrow> take (unat n) (bytes s) | _ \<Rightarrow> []) @
     bytes (item_complete advance (item_signal r) s) = bytes s"
  by (simp add: item_complete_def advance_law split: signal.split)

lemma moved_bytes:
  assumes "bseq_run advance empty_data rs s = (given, end)"
  shows "moved bytes rs given @ bytes (final end) = bytes s"
  using assms
proof (induction rs arbitrary: s given "end")
  case (Cons r rs)
  show ?case
  proof (cases "bseq_round advance empty_data r s")
    case (Running s1)
    then have s1: "s1 = item_complete advance (item_signal r) s" using round_final [where r = r and s = s] by simp
    obtain g e where run: "bseq_run advance empty_data rs s1 = (g, e)" by fastforce
    with Cons.prems Running have "given = s # g" "end = e" by simp_all
    with Cons.IH [OF run] item_complete_bytes [where r = r and s = s] s1 show ?thesis by simp
  next
    case (Finished s1 sig)
    then have s1: "s1 = item_complete advance (item_signal r) s" using round_final [where r = r and s = s] by simp
    from Cons.prems Finished have "given = [s]" "end = Finished s1 sig" by simp_all
    with s1 show ?thesis using item_complete_bytes [where r = r and s = s] by simp
  qed
qed auto

end

text \<open>Where no bytes left also means no data, rounds that make progress come to an end.\<close>

definition progress :: "'e round \<Rightarrow> bool" where
  "progress r \<longleftrightarrow> (\<exists>n > 0. item_signal r = Set_Value n) \<and> next_signal r = Next_Value \<and> \<not> connect_throws r"

locale resumable_exact = resumable +
  assumes no_bytes_law: "bytes s = [] \<Longrightarrow> empty_data s"
begin

lemma round_progress:
  assumes "progress r"
  shows "\<exists>s1. length (bytes s1) \<le> length (bytes s) - 1 \<and>
    bseq_round advance empty_data r s =
      (if bytes s1 = [] then Finished s1 (Set_Value ()) else Running s1)"
proof -
  from assms obtain n where n: "n > 0" "item_signal r = Set_Value n" "next_signal r = Next_Value"
    "\<not> connect_throws r" by (auto simp: progress_def)
  then have "0 < unat n" by (simp add: word_less_nat_alt)
  moreover have "empty_data s1 \<longleftrightarrow> bytes s1 = []" for s1
    using empty_data_law no_bytes_law by blast
  ultimately show ?thesis
    using n by (intro exI [of _ "advance n s"])
      (auto simp: bseq_round_def next_complete_def item_complete_def advance_law)
qed

lemma run_finishes:
  assumes "\<forall>r \<in> set rs. progress r" "rs \<noteq> []" "length (bytes s) \<le> length rs"
  shows "\<exists>given s1. bseq_run advance empty_data rs s = (given, Finished s1 (Set_Value ())) \<and>
    bytes s1 = []"
  using assms
proof (induction rs arbitrary: s)
  case (Cons r rs)
  then obtain s1 where s1: "length (bytes s1) \<le> length (bytes s) - 1"
    "bseq_round advance empty_data r s =
      (if bytes s1 = [] then Finished s1 (Set_Value ()) else Running s1)"
    using round_progress [of r s] by auto
  show ?case
  proof (cases "bytes s1 = []")
    case True
    with s1 show ?thesis by auto
  next
    case False
    with s1(1) Cons.prems(3) have "rs \<noteq> []" "length (bytes s1) \<le> length rs" by (cases rs; auto)+
    with Cons.IH [of s1] Cons.prems(1) obtain g s2 where
      "bseq_run advance empty_data rs s1 = (g, Finished s2 (Set_Value ()))" "bytes s2 = []" by auto
    with s1(2) False show ?thesis by simp
  qed
qed simp

end

interpretation single: resumable_exact "\<lambda>s. cb_addrs (s_buffer s)" single_advance
    "\<lambda>s. cb_empty (s_buffer s)"
  by unfold_locales (simp_all add: single_advance_addrs cb_empty_addrs)

interpretation multi: resumable "\<lambda>m. flat (m_buffers m)" multi_advance "\<lambda>m. m_buffers m = []"
  by unfold_locales (simp_all add: multi_advance_flat)

subsection \<open>Properties of the sequence\<close>

text \<open>C21 (bseq_complete). A sequence over one buffer whose items each transfer at least one byte, and whose next
  senders complete with values, completes with a value after at most as many items as there are
  bytes; then the items together have transferred every byte of the buffer, once and in order.\<close>

theorem buffered_sequence_completes:
  assumes "\<forall>r \<in> set rs. progress r" "rs \<noteq> []" "unat (cb_size (s_buffer s)) \<le> length rs"
  shows "\<exists>given s1. bseq_run single_advance (\<lambda>s. cb_empty (s_buffer s)) rs s =
      (given, Finished s1 (Set_Value ())) \<and>
    moved (\<lambda>s. cb_addrs (s_buffer s)) rs given = cb_addrs (s_buffer s)"
proof -
  obtain given s1 where run: "bseq_run single_advance (\<lambda>s. cb_empty (s_buffer s)) rs s =
      (given, Finished s1 (Set_Value ()))" "cb_addrs (s_buffer s1) = []"
    using single.run_finishes [OF assms(1,2)] assms(3) by fastforce
  from single.moved_bytes [OF run(1)] run show ?thesis by simp
qed

theorem buffered_sequence_completes_witness:
  "\<exists>given s1. bseq_run single_advance (\<lambda>s. cb_empty (s_buffer s))
      (replicate 3 (\<lparr>item_signal = Set_Value 2, next_signal = Next_Value, connect_throws = False,
         stop_seen = False\<rparr> :: nat round)) \<lparr>s_buffer = cb_make 100 3, s_offset = 0\<rparr> =
      (given, Finished s1 (Set_Value ())) \<and>
    moved (\<lambda>s. cb_addrs (s_buffer s)) (replicate 3 (\<lparr>item_signal = Set_Value 2, next_signal = Next_Value,
      connect_throws = False, stop_seen = False\<rparr> :: nat round)) given = [100, 101, 102]"
  using buffered_sequence_completes [of "replicate 3 (\<lparr>item_signal = Set_Value 2,
      next_signal = Next_Value, connect_throws = False, stop_seen = False\<rparr> :: nat round)"
      "\<lparr>s_buffer = cb_make 100 3, s_offset = 0\<rparr>"]
  by (simp add: progress_def cb_make_def cb_addrs_def upt_rec)

text \<open>Remark (bseq_eof). An item that transfers nothing, as a read at the end of the file does, makes no progress:
  the sequence starts the same item again, without end. A row of buffers can do so after all bytes
  are transferred, when an empty buffer is left.\<close>

theorem buffered_sequence_eof:
  assumes "r = \<lparr>item_signal = Set_Value 0, next_signal = Next_Value, connect_throws = False,
      stop_seen = stop\<rparr>"
  shows "(cb_addrs b \<noteq> [] \<longrightarrow>
      bseq_run single_advance (\<lambda>s. cb_empty (s_buffer s)) (replicate k r)
        \<lparr>s_buffer = b, s_offset = off0\<rparr> =
      (replicate k \<lparr>s_buffer = b, s_offset = off0\<rparr>, Running \<lparr>s_buffer = b, s_offset = off0\<rparr>)) \<and>
    bseq_run multi_advance (\<lambda>m. m_buffers m = []) (replicate k r)
        \<lparr>m_buffers = [cb_make a 0], m_offset = off0\<rparr> =
      (replicate k \<lparr>m_buffers = [cb_make a 0], m_offset = off0\<rparr>,
       Running \<lparr>m_buffers = [cb_make a 0], m_offset = off0\<rparr>)"
proof (intro conjI impI)
  assume "cb_addrs b \<noteq> []"
  then have ne: "\<not> cb_empty b" by (simp add: cb_empty_addrs)
  then have "cb_advance 0 b = b" by (simp add: cb_advance_def cb_empty_def)
  then have "bseq_round single_advance (\<lambda>s. cb_empty (s_buffer s)) r \<lparr>s_buffer = b, s_offset = off0\<rparr> =
      Running \<lparr>s_buffer = b, s_offset = off0\<rparr>"
    using ne by (simp add: assms bseq_round_def item_complete_def next_complete_def
        single_advance_def Let_def)
  then show "bseq_run single_advance (\<lambda>s. cb_empty (s_buffer s)) (replicate k r)
        \<lparr>s_buffer = b, s_offset = off0\<rparr> =
      (replicate k \<lparr>s_buffer = b, s_offset = off0\<rparr>, Running \<lparr>s_buffer = b, s_offset = off0\<rparr>)"
    by (induction k) simp_all
next
  have "bseq_round multi_advance (\<lambda>m. m_buffers m = []) r \<lparr>m_buffers = [cb_make a 0], m_offset = off0\<rparr> =
      Running \<lparr>m_buffers = [cb_make a 0], m_offset = off0\<rparr>"
    by (simp add: assms bseq_round_def item_complete_def next_complete_def multi_advance_def
        Let_def)
  then show "bseq_run multi_advance (\<lambda>m. m_buffers m = []) (replicate k r)
        \<lparr>m_buffers = [cb_make a 0], m_offset = off0\<rparr> =
      (replicate k \<lparr>m_buffers = [cb_make a 0], m_offset = off0\<rparr>,
       Running \<lparr>m_buffers = [cb_make a 0], m_offset = off0\<rparr>)"
    by (induction k) simp_all
qed

theorem buffered_sequence_eof_witness:
  "bseq_run multi_advance (\<lambda>m. m_buffers m = [])
      (replicate 2 (\<lparr>item_signal = Set_Value 0, next_signal = Next_Value, connect_throws = False,
         stop_seen = False\<rparr> :: nat round)) \<lparr>m_buffers = [cb_make 100 0], m_offset = 7\<rparr> =
    (replicate 2 \<lparr>m_buffers = [cb_make 100 0], m_offset = 7\<rparr>,
     Running \<lparr>m_buffers = [cb_make 100 0], m_offset = 7\<rparr>)"
  using buffered_sequence_eof [OF refl] by blast

end
