(* ===== verification/Sequence_Core.thy ===== *)
theory Sequence_Core
  imports Sio_Prelude
begin

text \<open>
  \<^verbatim>\<open>sequence/sequence_concepts.hpp\<close>: the queries a sequence answers about itself, and the completion
  that a sequence uses when it was told to stop.
\<close>

subsection \<open>Queries\<close>

text \<open>
  A query object is called with an environment: it asks the environment when that answers the
  query, and has a default otherwise. An environment is what it answers, or nothing.
\<close>

datatype cardinality_value = Unbounded | Bounded size_t
datatype parallelism_value = Many_Sender | Lock_Step

record sequence_env =
  env_cardinality :: "cardinality_value option"
  env_parallelism :: "parallelism_value option"
  env_receiver_stops_item :: "bool option"

definition empty_env :: sequence_env where
  "empty_env = \<lparr>env_cardinality = None, env_parallelism = None, env_receiver_stops_item = None\<rparr>"

definition cardinality :: "sequence_env \<Rightarrow> cardinality_value" where
  "cardinality env = (case env_cardinality env of None \<Rightarrow> Unbounded | Some c \<Rightarrow> c)"

definition parallelism :: "sequence_env \<Rightarrow> parallelism_value" where
  "parallelism env = (case env_parallelism env of None \<Rightarrow> Many_Sender | Some p \<Rightarrow> p)"

definition sequence_receiver_stops_item :: "sequence_env \<Rightarrow> bool" where
  "sequence_receiver_stops_item env =
     (case env_receiver_stops_item env of None \<Rightarrow> False | Some b \<Rightarrow> b)"

text \<open>A plain sender is a sequence of one item; a sequence sender may answer \<^verbatim>\<open>get_sequence_env\<close>.\<close>

datatype any_sender = Plain_Sender | Sequence_Sender "sequence_env option"

definition get_sequence_env :: "any_sender \<Rightarrow> sequence_env" where
  "get_sequence_env s =
     (case s of
        Sequence_Sender (Some env) \<Rightarrow> env
      | Sequence_Sender None \<Rightarrow> empty_env
      | Plain_Sender \<Rightarrow>
          empty_env\<lparr>env_cardinality := Some (Bounded 1), env_parallelism := Some Lock_Step\<rparr>)"

subsection \<open>Stop tokens\<close>

text \<open>A stop token is one that can never say stop, or its current answer.\<close>

datatype stop_token = Unstoppable | Stoppable bool

definition stop_requested :: "stop_token \<Rightarrow> bool" where
  "stop_requested tok = (case tok of Unstoppable \<Rightarrow> False | Stoppable b \<Rightarrow> b)"

definition set_value_unless_stopped :: "stop_token \<Rightarrow> (unit, 'e) signal" where
  "set_value_unless_stopped tok =
     (case tok of
        Unstoppable \<Rightarrow> Set_Value ()
      | Stoppable requested \<Rightarrow> (if \<not> requested then Set_Value () else Set_Stopped))"

lemma set_value_unless_stopped_iff [simp]:
  "set_value_unless_stopped tok = Set_Value () \<longleftrightarrow> \<not> stop_requested tok"
  "set_value_unless_stopped tok = Set_Stopped \<longleftrightarrow> stop_requested tok"
  by (auto simp: set_value_unless_stopped_def stop_requested_def split: stop_token.split)

end
