(* ===== verification/First_Last.thy ===== *)
theory First_Last
  imports Sequence_Core
begin

text \<open>
  \<^verbatim>\<open>sequence/first.hpp\<close> and \<^verbatim>\<open>sequence/last.hpp\<close>: the sender that completes with the first, or the last,
  item of a sequence.

  An item completes by storing its signal into the result cell of the operation, and then completing
  the item receiver. Reading a cell that nothing was stored into is undefined: a list of signals
  that were sent, and then no result, is \<open>(sent, None)\<close>.
\<close>

type_synonym ('v, 'e) sent = "('v, 'e) signal list"

subsection \<open>First: the result cell\<close>

text \<open>The cell and the atomic flag: 0 before the first item, 1 while it is constructed, 2 after.\<close>

record ('v, 'e) first_cell =
  f_result :: "('v, 'e) signal option"
  f_emplaced :: int

definition first_init :: "('v, 'e) first_cell" where
  "first_init = \<lparr>f_result = None, f_emplaced = 0\<rparr>"

definition first_cas :: "('v, 'e) first_cell \<Rightarrow> bool \<times> ('v, 'e) first_cell" where
  "first_cas c = (if f_emplaced c = 0 then (True, c\<lparr>f_emplaced := 1\<rparr>) else (False, c))"

definition first_construct :: "('v, 'e) signal \<Rightarrow> ('v, 'e) first_cell \<Rightarrow> ('v, 'e) first_cell" where
  "first_construct sig c = c\<lparr>f_result := Some sig\<rparr>"

definition first_publish :: "('v, 'e) first_cell \<Rightarrow> ('v, 'e) first_cell" where
  "first_publish c = c\<lparr>f_emplaced := 2\<rparr>"

definition first_emplace :: "('v, 'e) signal \<Rightarrow> ('v, 'e) first_cell \<Rightarrow> ('v, 'e) first_cell" where
  "first_emplace sig c =
     (case first_cas c of
        (True, c1) \<Rightarrow> first_publish (first_construct sig c1)
      | (False, c1) \<Rightarrow> c1)"

text \<open>There is no \<^verbatim>\<open>return\<close> after the stopped completion of an empty sequence.\<close>

definition first_visit :: "('v, 'e) first_cell \<Rightarrow> ('v, 'e) sent \<times> ('v, 'e) signal option" where
  "first_visit c =
     (let sent = (if f_emplaced c = 0 then [Set_Stopped] else [])
      in (sent, f_result c))"

text \<open>Every item completes its item receiver as stopped, so that the sequence ends.\<close>

definition first_item ::
  "('v, 'e) signal \<Rightarrow> ('v, 'e) first_cell \<Rightarrow> ('v, 'e) first_cell \<times> (unit, 'e) signal" where
  "first_item sig c = (first_emplace sig c, Set_Stopped)"

definition first_complete ::
  "(unit, 'e) signal \<Rightarrow> ('v, 'e) first_cell \<Rightarrow> ('v, 'e) sent \<times> ('v, 'e) signal option" where
  "first_complete sig c =
     (case sig of
        Set_Value _ \<Rightarrow> first_visit c
      | Set_Stopped \<Rightarrow> ([], Some Set_Stopped)
      | Set_Error e \<Rightarrow> ([], Some (Set_Error e)))"

text \<open>Items that complete one after the other, and then the sequence.\<close>

fun first_items :: "('v, 'e) signal list \<Rightarrow> ('v, 'e) first_cell \<Rightarrow> ('v, 'e) first_cell" where
  "first_items [] c = c"
| "first_items (sig # sigs) c = first_items sigs (fst (first_item sig c))"

subsection \<open>First: items that complete concurrently\<close>

text \<open>
  Each item is a thread \<open>i\<close> with signal \<open>item i\<close> that runs the three atomic parts of
  \<^verbatim>\<open>emplace\<close>. Any number of threads run, in any order.
\<close>

datatype phase = Before | Constructing | Constructed | Done

inductive first_step ::
  "('i \<Rightarrow> ('v, 'e) signal) \<Rightarrow> ('v, 'e) first_cell \<times> ('i \<Rightarrow> phase) \<Rightarrow>
     ('v, 'e) first_cell \<times> ('i \<Rightarrow> phase) \<Rightarrow> bool"
  for item :: "'i \<Rightarrow> ('v, 'e) signal"
where
  win: "ph i = Before \<Longrightarrow> first_cas c = (True, c') \<Longrightarrow>
    first_step item (c, ph) (c', ph(i := Constructing))"
| lose: "ph i = Before \<Longrightarrow> first_cas c = (False, c') \<Longrightarrow>
    first_step item (c, ph) (c', ph(i := Done))"
| construct: "ph i = Constructing \<Longrightarrow>
    first_step item (c, ph) (first_construct (item i) c, ph(i := Constructed))"
| publish: "ph i = Constructed \<Longrightarrow>
    first_step item (c, ph) (first_publish c, ph(i := Done))"

inductive_cases first_stepE: "first_step item (c, ph) s"

inductive first_reach ::
  "('i \<Rightarrow> ('v, 'e) signal) \<Rightarrow> ('v, 'e) first_cell \<times> ('i \<Rightarrow> phase) \<Rightarrow> bool"
  for item :: "'i \<Rightarrow> ('v, 'e) signal"
where
  init: "first_reach item (first_init, \<lambda>_. Before)"
| step: "first_reach item s \<Longrightarrow> first_step item s s' \<Longrightarrow> first_reach item s'"

text \<open>The invariant: at most one thread wins, and only its signal is ever in the cell.\<close>

definition first_inv ::
  "('i \<Rightarrow> ('v, 'e) signal) \<Rightarrow> ('v, 'e) first_cell \<times> ('i \<Rightarrow> phase) \<Rightarrow> bool" where
  "first_inv item s \<longleftrightarrow> (case s of (c, ph) \<Rightarrow>
     (f_emplaced c = 0 \<and> f_result c = None \<and> (\<forall>i. ph i = Before)) \<or>
     (\<exists>w. (\<forall>i. i \<noteq> w \<longrightarrow> ph i = Before \<or> ph i = Done) \<and>
        (f_emplaced c = 1 \<and> (ph w = Constructing \<and> f_result c = None \<or>
           ph w = Constructed \<and> f_result c = Some (item w)) \<or>
         f_emplaced c = 2 \<and> ph w = Done \<and> f_result c = Some (item w))))"

lemma first_reach_inv: "first_reach item s \<Longrightarrow> first_inv item s"
proof (induction rule: first_reach.induct)
  case init
  show ?case by (simp add: first_inv_def first_init_def)
next
  case (step s s')
  from step.hyps(2) step.IH show ?case
  proof (cases rule: first_step.cases)
    case (win ph i c c')
    with step.IH have "f_emplaced c = 0" "f_result c = None" "\<forall>i. ph i = Before"
      by (auto simp: first_inv_def first_cas_def split: if_splits)
    with win show ?thesis
      by (auto simp: first_inv_def first_cas_def intro!: exI [of _ i])
  next
    case (lose ph i c c')
    with step.IH have "f_emplaced c \<noteq> 0" "c' = c" by (auto simp: first_cas_def split: if_splits)
    with lose step.IH obtain w where "\<forall>i. i \<noteq> w \<longrightarrow> ph i = Before \<or> ph i = Done" and
      w: "f_emplaced c = 1 \<and> (ph w = Constructing \<and> f_result c = None \<or>
           ph w = Constructed \<and> f_result c = Some (item w)) \<or>
         f_emplaced c = 2 \<and> ph w = Done \<and> f_result c = Some (item w)"
      by (auto simp: first_inv_def)
    moreover from w lose have "i \<noteq> w" by auto
    ultimately show ?thesis
      using lose \<open>c' = c\<close> by (auto simp: first_inv_def intro!: exI [of _ w])
  next
    case (construct ph i c)
    with step.IH obtain w where w: "\<forall>j. j \<noteq> w \<longrightarrow> ph j = Before \<or> ph j = Done"
      "f_emplaced c = 1 \<and> (ph w = Constructing \<or> ph w = Constructed) \<or> ph w = Done"
      by (auto simp: first_inv_def)
    with construct(3) have "i = w" by (metis phase.distinct(1,9))
    with w construct show ?thesis by (auto simp: first_inv_def first_construct_def)
  next
    case (publish ph i c)
    with step.IH obtain w where w: "\<forall>j. j \<noteq> w \<longrightarrow> ph j = Before \<or> ph j = Done"
      "ph w = Constructed \<longrightarrow> f_result c = Some (item w)"
      by (auto simp: first_inv_def)
    with publish(3) have "i = w" by (metis phase.distinct(3,11))
    with w publish show ?thesis by (auto simp: first_inv_def first_publish_def)
  qed
qed



lemma first_items_set: "f_emplaced c \<noteq> 0 \<Longrightarrow> first_items sigs c = c"
  by (induction sigs) (auto simp: first_item_def first_emplace_def first_cas_def)

text \<open>Remark (first). The sender completes as the first item did, with its value, its error or stopped, and with the
  error or stopped completion of the sequence itself. A sequence without items is completed as
  stopped, and then the result that does not exist is read.\<close>

theorem first_delivers:
  "first_complete (Set_Value ()) (first_items (sig # sigs) first_init) = ([], Some sig) \<and>
   first_complete (Set_Error e) c = ([], Some (Set_Error e)) \<and>
   first_complete Set_Stopped c = ([], Some Set_Stopped) \<and>
   first_complete (Set_Value ()) first_init = ([Set_Stopped], None)"
  by (simp add: first_complete_def first_item_def first_emplace_def first_cas_def
      first_construct_def first_publish_def first_init_def first_items_set first_visit_def)

subsection \<open>Last\<close>

text \<open>
  The cell of \<^verbatim>\<open>last\<close> is constructed anew by every item, under a mutex unless the sequence is
  lock-step, and destroyed once. \<open>l_leaked\<close> counts results that were overwritten but not destroyed.
\<close>

record ('v, 'e) last_cell =
  c_result :: "('v, 'e) signal option"
  c_leaked :: nat

definition last_init :: "('v, 'e) last_cell" where
  "last_init = \<lparr>c_result = None, c_leaked = 0\<rparr>"

definition last_emplace :: "('v, 'e) signal \<Rightarrow> ('v, 'e) last_cell \<Rightarrow> ('v, 'e) last_cell" where
  "last_emplace sig c =
     c\<lparr>c_result := Some sig, c_leaked := c_leaked c + (if c_result c = None then 0 else 1)\<rparr>"

definition last_visit :: "('v, 'e) last_cell \<Rightarrow> (('v, 'e) last_cell \<times> ('v, 'e) signal) option" where
  "last_visit c = do {
     result_on_stack \<leftarrow> c_result c;
     Some (c\<lparr>c_result := None\<rparr>, result_on_stack)
   }"

definition last_item ::
  "('v, 'e) signal \<Rightarrow> ('v, 'e) last_cell \<Rightarrow> ('v, 'e) last_cell \<times> (unit, 'e) signal" where
  "last_item sig c =
     (case sig of
        Set_Value v \<Rightarrow> (last_emplace (Set_Value v) c, Set_Value ())
      | Set_Stopped \<Rightarrow> (last_emplace Set_Stopped c, Set_Stopped)
      | Set_Error e \<Rightarrow> (last_emplace (Set_Error e) c, Set_Stopped))"

definition last_complete ::
  "(unit, 'e) signal \<Rightarrow> ('v, 'e) last_cell \<Rightarrow> (('v, 'e) last_cell \<times> ('v, 'e) signal) option" where
  "last_complete sig c =
     (case sig of
        Set_Value _ \<Rightarrow> last_visit c
      | Set_Stopped \<Rightarrow> Some (c, Set_Stopped)
      | Set_Error e \<Rightarrow> Some (c, Set_Error e))"

text \<open>The items of a sequence go on as long as their item receiver gets values.\<close>

fun last_items :: "('v, 'e) signal list \<Rightarrow> ('v, 'e) last_cell \<Rightarrow> ('v, 'e) last_cell" where
  "last_items [] c = c"
| "last_items (sig # sigs) c =
     (case last_item sig c of
        (c1, Set_Value _) \<Rightarrow> last_items sigs c1
      | (c1, _) \<Rightarrow> c1)"

lemma last_items_values:
  "last_items (map Set_Value vs @ [sig]) c =
    c\<lparr>c_result := Some sig,
      c_leaked := c_leaked c + length vs + (if c_result c = None then 0 else 1)\<rparr>"
proof (induction vs arbitrary: c)
  case Nil
  show ?case by (cases sig) (auto simp: last_item_def last_emplace_def)
next
  case (Cons v vs)
  then show ?case by (auto simp: last_item_def last_emplace_def)
qed

text \<open>Remark (last). The sender completes as the last item of the sequence did: with the value of the last item, or
  with the error or the stop that ended it. Every result before it is overwritten without being
  destroyed, and a sequence without items reads a result that does not exist.\<close>

theorem last_delivers:
  "map_option snd (last_complete (Set_Value ()) (last_items (map Set_Value vs @ [sig]) last_init)) = Some sig \<and>
   c_leaked (last_items (map Set_Value vs @ [sig]) last_init) = length vs \<and>
   last_complete (Set_Value ()) (last_items [] last_init) = None"
  by (simp add: last_complete_def last_visit_def last_items_values last_init_def)

end
