(* ===== verification/Scan_Reduce.thy ===== *)
theory Scan_Reduce
  imports First_Last
begin

text \<open>
  \<^verbatim>\<open>sequence/scan.hpp\<close> and \<^verbatim>\<open>sequence/reduce.hpp\<close>: a running fold over the items of a sequence, and its
  last value. The function may throw: then it gives \<open>None\<close> and the value stays as it was. An error is
  one of the item (\<open>Inl\<close>) or the exception of the function (\<open>Inr\<close>).
\<close>

subsection \<open>Scan\<close>

type_synonym ('t, 'a) fold_fun = "'t \<Rightarrow> 'a \<Rightarrow> 't option"

text \<open>The value, which the mutex of a sequence that is not lock-step protects as one step.\<close>

definition scan_emplace :: "('t, 'a) fold_fun \<Rightarrow> 'a \<Rightarrow> 't \<Rightarrow> ('t \<times> 't) option" where
  "scan_emplace fn arg value = do {
     value1 \<leftarrow> fn value arg;
     Some (value1, value1)
   }"

definition scan_item ::
  "('t, 'a) fold_fun \<Rightarrow> ('a, 'e) signal \<Rightarrow> 't \<Rightarrow> 't \<times> ('t, 'e + unit) signal" where
  "scan_item fn sig value =
     (case sig of
        Set_Value arg \<Rightarrow>
          (case scan_emplace fn arg value of
             Some (value1, result) \<Rightarrow> (value1, Set_Value result)
           | None \<Rightarrow> (value, Set_Error (Inr ())))
      | Set_Error e \<Rightarrow> (value, Set_Error (Inl e))
      | Set_Stopped \<Rightarrow> (value, Set_Stopped))"

definition scan_complete :: "(unit, 'e) signal \<Rightarrow> (unit, 'e) signal" where
  "scan_complete sig =
     (case sig of
        Set_Value _ \<Rightarrow> Set_Value ()
      | Set_Error e \<Rightarrow> Set_Error e
      | Set_Stopped \<Rightarrow> Set_Stopped)"

fun scan_items ::
  "('t, 'a) fold_fun \<Rightarrow> ('a, 'e) signal list \<Rightarrow> 't \<Rightarrow> ('t, 'e + unit) signal list" where
  "scan_items fn [] value = []"
| "scan_items fn (sig # sigs) value =
     (let (value1, out) = scan_item fn sig value in out # scan_items fn sigs value1)"

subsection \<open>Reduce\<close>

definition reduce ::
  "('t, 'a) fold_fun \<Rightarrow> 't \<Rightarrow> ('a, 'e) signal list \<Rightarrow> (unit, 'e) signal \<Rightarrow>
     ('t, 'e + unit) signal option" where
  "reduce fn init items sig =
     map_option snd
       (last_complete (case scan_complete sig of
            Set_Value _ \<Rightarrow> Set_Value () | Set_Error e \<Rightarrow> Set_Error (Inl e) | Set_Stopped \<Rightarrow> Set_Stopped)
         (last_items (scan_items fn items init) last_init))"

fun folded :: "('t, 'a) fold_fun \<Rightarrow> 'a list \<Rightarrow> 't \<Rightarrow> 't option" where
  "folded fn [] t = Some t"
| "folded fn (a # as) t = do { t1 \<leftarrow> fn t a; folded fn as t1 }"

text \<open>The partial results of a fold, without the initial value.\<close>

fun partials :: "('t, 'a) fold_fun \<Rightarrow> 'a list \<Rightarrow> 't \<Rightarrow> 't list" where
  "partials fn [] t = []"
| "partials fn (a # as) t = (case fn t a of Some t1 \<Rightarrow> t1 # partials fn as t1 | None \<Rightarrow> [])"

lemma scan_items_values:
  assumes "folded fn as t = Some r"
  shows "scan_items fn (map Set_Value as @ rest) t = map Set_Value (partials fn as t) @ scan_items fn rest r"
  using assms
  by (induction as arbitrary: t) (auto simp: scan_item_def scan_emplace_def bind_Some_iff)

lemma partials_last:
  assumes "folded fn as t = Some r" "as \<noteq> []"
  shows "partials fn as t \<noteq> [] \<and> last (partials fn as t) = r"
  using assms
proof (induction as arbitrary: t)
  case (Cons a as)
  then obtain t1 where t1: "fn t a = Some t1" "folded fn as t1 = Some r" by (auto simp: bind_Some_iff)
  with Cons.IH show ?case by (cases "as = []") auto
qed simp

lemma reduce_unfold:
  "reduce fn init items (Set_Value ()) =
     map_option snd (last_visit (last_items (scan_items fn items init) last_init))"
  by (simp add: reduce_def scan_complete_def last_complete_def)

lemma reduce_values:
  fixes as :: "'a list" and init :: 't
  assumes "folded fn as init = Some r" "as \<noteq> []"
  shows "reduce fn init (map Set_Value as) (Set_Value () :: (unit, 'e) signal) = Some (Set_Value r)"
proof -
  from partials_last [OF assms] obtain ps where ps: "partials fn as init = ps @ [r]"
    by (metis append_butlast_last_id)
  then have "scan_items fn (map Set_Value as :: ('a, 'e) signal list) init = map Set_Value ps @ [Set_Value r]"
    using scan_items_values [OF assms(1), of "[]"] by simp
  then show ?thesis by (simp add: reduce_unfold last_items_values last_visit_def)
qed

text \<open>Remark (reduce). Reducing a sequence of values that ends gives the left fold of the values; an item that fails
  or stops, and a function that throws, end it with their completion after the values before.
  Without any item there is no value, not even the initial one: the result cell of \<^verbatim>\<open>last\<close> is read
  before anything is in it.\<close>

theorem reduce_folds:
  fixes as :: "'a list" and e :: 'e and init :: 't
  assumes "folded fn as init = Some r"
  shows "(as \<noteq> [] \<longrightarrow> reduce fn init (map Set_Value as) (Set_Value () :: (unit, 'e) signal) = Some (Set_Value r)) \<and>
    reduce fn init (map Set_Value as @ [Set_Error e]) (Set_Value ()) = Some (Set_Error (Inl e)) \<and>
    reduce fn init (map Set_Value as @ [Set_Stopped]) (Set_Value () :: (unit, 'e) signal) =
      Some Set_Stopped \<and>
    (fn r a = None \<longrightarrow>
      reduce fn init (map Set_Value as @ [Set_Value a]) (Set_Value () :: (unit, 'e) signal) = Some (Set_Error (Inr ()))) \<and>
    reduce fn init [] (Set_Value () :: (unit, 'e) signal) = None"
proof -
  have one: "scan_items fn (map Set_Value as @ [sig]) init =
      map Set_Value (partials fn as init) @ [snd (scan_item fn sig r)]" for sig :: "('a, 'e) signal"
    using scan_items_values [OF assms, of "[sig]"] by (simp add: case_prod_beta)
  have "reduce fn init (map Set_Value as) (Set_Value () :: (unit, 'e) signal) = Some (Set_Value r)" if "as \<noteq> []"
    by (rule reduce_values [OF assms that])
  then show ?thesis
    unfolding reduce_unfold one
    by (simp add: last_items_values last_visit_def scan_item_def scan_emplace_def last_init_def)
qed

theorem reduce_folds_witness:
  "reduce (\<lambda>t a. Some (t + a)) 10 (map Set_Value [1, 2, 3 :: int]) (Set_Value () :: (unit, nat) signal) =
     Some (Set_Value 16)"
  using reduce_folds [where fn = "\<lambda>t a. Some (t + a)" and as = "[1, 2, 3 :: int]" and init = 10 and
      e = "0 :: nat"] by simp

subsection \<open>Reduce over items that complete concurrently\<close>

text \<open>
  When items complete concurrently, the steps of the two mutexes interleave: an item is scanned in
  one critical section and its result is stored in another. The state is the value of \<^verbatim>\<open>scan\<close>, the
  results that are computed but not stored, and the cell of \<^verbatim>\<open>last\<close>.
\<close>

inductive reduce_step ::
  "('t, 'a) fold_fun \<Rightarrow> ('i \<Rightarrow> 'a) \<Rightarrow>
     't \<times> ('i \<rightharpoonup> 't) \<times> ('t, 'e) last_cell \<Rightarrow> 't \<times> ('i \<rightharpoonup> 't) \<times> ('t, 'e) last_cell \<Rightarrow> bool"
  for fn :: "('t, 'a) fold_fun" and item :: "'i \<Rightarrow> 'a"
where
  scan: "scan_emplace fn (item i) value = Some (value1, result) \<Longrightarrow>
    reduce_step fn item (value, computed, c) (value1, computed(i \<mapsto> result), c)"
| store: "computed i = Some result \<Longrightarrow>
    reduce_step fn item (value, computed, c) (value, computed(i := None), last_emplace (Set_Value result) c)"

text \<open>Remark (reduce_race). Over a sequence that is not lock-step, \<^verbatim>\<open>reduce\<close> can lose an item: of two items that are summed
  the second overtakes the first between the two mutexes, and the result is the first item alone.\<close>

theorem reduce_loses_item:
  "\<exists>s. (reduce_step (\<lambda>t a. Some (t + a)) (\<lambda>i. if i then b else a))\<^sup>*\<^sup>* (init, Map.empty, last_init) s \<and>
     fst s = init + a + (b :: int) \<and> fst (snd s) = Map.empty \<and>
     map_option snd (last_visit (snd (snd s))) = Some (Set_Value (init + a) :: (int, nat) signal)"
proof -
  let ?step = "reduce_step (\<lambda>t a. Some (t + a)) (\<lambda>i. if i then b else a)"
  let ?c = "last_init :: (int, nat) last_cell"
  let ?m1 = "Map.empty(False \<mapsto> init + a)" and ?m2 = "Map.empty(False \<mapsto> init + a, True \<mapsto> init + a + b)"
  let ?c1 = "last_emplace (Set_Value (init + a + b)) ?c"
  have "?step (init, Map.empty, ?c) (init + a, ?m1, ?c)"
    by (rule reduce_step.scan) (simp add: scan_emplace_def)
  moreover have "?step (init + a, ?m1, ?c) (init + a + b, ?m2, ?c)"
    by (rule reduce_step.scan) (simp add: scan_emplace_def)
  moreover have "?step (init + a + b, ?m2, ?c) (init + a + b, ?m2(True := None), ?c1)"
    by (rule reduce_step.store) simp
  moreover have "?step (init + a + b, ?m2(True := None), ?c1)
      (init + a + b, ?m2(True := None, False := None), last_emplace (Set_Value (init + a)) ?c1)"
    by (rule reduce_step.store) simp
  ultimately have "?step\<^sup>*\<^sup>* (init, Map.empty, ?c)
      (init + a + b, ?m2(True := None, False := None), last_emplace (Set_Value (init + a)) ?c1)"
    by (meson converse_rtranclp_into_rtranclp rtranclp.rtrancl_refl)
  then show ?thesis
    by (intro exI conjI) (assumption, auto simp: last_visit_def last_emplace_def)
qed

end
