(* ===== verification/Io_Uring.thy ===== *)
theory Io_Uring
  imports Mutable_Buffer_Span Buffered_Sequence Scan_Reduce
begin

text \<open>
  \<^verbatim>\<open>io_uring/file_handle.hpp\<close> and \<^verbatim>\<open>io_uring/file_handle.cpp\<close>: files and byte streams over an io_uring.

  An operation writes a submission entry, and the result in the completion entry, an \<^verbatim>\<open>int\<close>, decides
  how its receiver completes. The ring itself and the facades that add cancellation are the library's;
  a context is only a name here. An error is the number of an \<^verbatim>\<open>error_code\<close> of the system category.
\<close>

subsection \<open>Submissions\<close>

datatype opcode = Op_Close | Op_Openat | Op_Readv | Op_Read | Op_Writev | Op_Write
  | Op_Connect | Op_Sendmsg | Op_Accept

record sqe =
  opcode :: opcode
  sqe_fd :: int
  sqe_off :: u64
  sqe_addr :: u64
  sqe_addr2 :: u64
  sqe_len :: u32
  sqe_open_flags :: u32

definition sqe_zero :: "opcode \<Rightarrow> sqe" where
  "sqe_zero op = \<lparr>opcode = op, sqe_fd = 0, sqe_off = 0, sqe_addr = 0, sqe_addr2 = 0, sqe_len = 0,
     sqe_open_flags = 0\<rparr>"

definition close_submit :: "int \<Rightarrow> sqe" where
  "close_submit fd = (sqe_zero Op_Close)\<lparr>sqe_fd := fd\<rparr>"

text \<open>\<open>od_path\<close> is the address of the characters of the path.\<close>

record open_data =
  od_path :: u64
  od_dirfd :: int
  od_flags :: int
  od_mode :: u32

definition open_submit :: "open_data \<Rightarrow> sqe" where
  "open_submit d = (sqe_zero Op_Openat)\<lparr>sqe_addr := od_path d, sqe_fd := od_dirfd d,
     sqe_open_flags := word_of_int (od_flags d), sqe_len := od_mode d\<rparr>"

text \<open>
  The address of an array of buffers is the address of the array (\<open>base\<close>) and 16 bytes for each
  buffer before. A length is cut off to 32 bits.
\<close>

definition array_address :: "u64 \<Rightarrow> buffer_ptr \<Rightarrow> u64" where
  "array_address base p = (case p of None \<Rightarrow> 0 | Some i \<Rightarrow> base + 16 * of_nat i)"

definition read_submit :: "u64 \<Rightarrow> mbuffer_array_span \<Rightarrow> int \<Rightarrow> off_t \<Rightarrow> sqe" where
  "read_submit base bufs fd off0 = (sqe_zero Op_Readv)\<lparr>sqe_fd := fd, sqe_off := off0,
     sqe_addr := array_address base (mbs_begin bufs), sqe_len := ucast (mbs_size bufs)\<rparr>"

definition read_submit_single :: "mutable_buffer \<Rightarrow> int \<Rightarrow> off_t \<Rightarrow> sqe" where
  "read_submit_single buf fd off0 = (sqe_zero Op_Read)\<lparr>sqe_fd := fd, sqe_off := off0,
     sqe_addr := mb_data buf, sqe_len := ucast (mb_size buf)\<rparr>"

definition write_submit :: "u64 \<Rightarrow> buffer_array_span \<Rightarrow> int \<Rightarrow> off_t \<Rightarrow> sqe" where
  "write_submit base bufs fd off0 = (sqe_zero Op_Writev)\<lparr>sqe_fd := fd, sqe_off := off0,
     sqe_addr := array_address base (bs_begin bufs), sqe_len := ucast (bs_size bufs)\<rparr>"

definition write_submit_single :: "const_buffer \<Rightarrow> int \<Rightarrow> off_t \<Rightarrow> sqe" where
  "write_submit_single buf fd off0 = (sqe_zero Op_Write)\<lparr>sqe_fd := fd, sqe_off := off0,
     sqe_addr := cb_data buf, sqe_len := ucast (cb_size buf)\<rparr>"

subsection \<open>Completions\<close>

record 'c native_fd_handle =
  h_context :: "'c ptr"
  h_fd :: int

text \<open>A failed assertion is undefined.\<close>

definition close_complete :: "int \<Rightarrow> (unit, int) signal option" where
  "close_complete res =
     (if res = 0 then Some (Set_Value ()) else if res < 0 then Some (Set_Error (- res)) else None)"

definition open_complete :: "'c \<Rightarrow> int \<Rightarrow> ('c native_fd_handle, int) signal" where
  "open_complete ctx res =
     (if res \<ge> 0 then Set_Value \<lparr>h_context = Some ctx, h_fd = res\<rparr> else Set_Error (- res))"

definition io_complete :: "int \<Rightarrow> (size_t, int) signal" where
  "io_complete res = (if res \<ge> 0 then Set_Value (word_of_int res) else Set_Error (- res))"

subsection \<open>Senders\<close>

record ('c, 'b) io_sender =
  io_context :: 'c
  io_buffers :: 'b
  io_fd :: int
  io_offset :: off_t

definition io_sender_of :: "'c native_fd_handle \<Rightarrow> 'b \<Rightarrow> off_t \<Rightarrow> ('c, 'b) io_sender option" where
  "io_sender_of h b off0 = do {
     ctx \<leftarrow> h_context h;
     Some \<lparr>io_context = ctx, io_buffers = b, io_fd = h_fd h, io_offset = off0\<rparr>
   }"

text \<open>Without an offset, a write sender uses the offset -1, and a read sender the offset 0.\<close>

definition write_some :: "'c native_fd_handle \<Rightarrow> 'b \<Rightarrow> ('c, 'b) io_sender option" where
  "write_some h data = io_sender_of h data (- 1)"

definition read_some :: "'c native_fd_handle \<Rightarrow> 'b \<Rightarrow> ('c, 'b) io_sender option" where
  "read_some h bufs = io_sender_of h bufs 0"

definition write_some_at :: "'c native_fd_handle \<Rightarrow> 'b \<Rightarrow> off_t \<Rightarrow> ('c, 'b) io_sender option" where
  "write_some_at h data off0 = io_sender_of h data off0"

definition read_some_at :: "'c native_fd_handle \<Rightarrow> 'b \<Rightarrow> off_t \<Rightarrow> ('c, 'b) io_sender option" where
  "read_some_at h bufs off0 = io_sender_of h bufs off0"

definition write_sender_submit :: "('c, const_buffer) io_sender \<Rightarrow> sqe" where
  "write_sender_submit w = write_submit_single (io_buffers w) (io_fd w) (io_offset w)"

definition read_sender_submit :: "('c, mutable_buffer) io_sender \<Rightarrow> sqe" where
  "read_sender_submit r = read_submit_single (io_buffers r) (io_fd r) (io_offset r)"

text \<open>
  \<^verbatim>\<open>write\<close> reduces the sequence of the writes of a buffer with addition, from zero. An item that
  gives a value is reduced and its next sender completes with a value; any other item stops the
  sequence. \<open>results\<close> are the results of the completion entries. The outcome is the list of the
  submissions and the completion of the sender, or \<open>None\<close> if the results are used up.
\<close>

definition stream_round :: "bool \<Rightarrow> int \<Rightarrow> int round" where
  "stream_round stop res =
     \<lparr>item_signal = io_complete res,
      next_signal = (case io_complete res of Set_Value _ \<Rightarrow> Next_Value | _ \<Rightarrow> Next_Stopped),
      connect_throws = False, stop_seen = stop\<rparr>"

definition lift_error :: "('v, 'e) signal \<Rightarrow> ('v, 'e + unit) signal" where
  "lift_error sig = (case sig of Set_Value v \<Rightarrow> Set_Value v | Set_Error e \<Rightarrow> Set_Error (Inl e) | Set_Stopped \<Rightarrow> Set_Stopped)"

definition stream_transfer ::
  "(single_span \<Rightarrow> sqe) \<Rightarrow> bool \<Rightarrow> int list \<Rightarrow> single_span \<Rightarrow>
     sqe list \<times> (u64, (int + unit) + unit) signal option" where
  "stream_transfer submit stop results s =
     (case bseq_run single_advance (\<lambda>s. cb_empty (s_buffer s)) (map (stream_round stop) results) s of
        (given, Running s1) \<Rightarrow> (map submit given, None)
      | (given, Finished s1 sig) \<Rightarrow>
          (map submit given,
           reduce (\<lambda>t n. Some (t + n)) 0
             (map (\<lambda>res. lift_error (io_complete res)) (take (length given) results)) sig))"

definition stream_write ::
  "'c native_fd_handle \<Rightarrow> const_buffer \<Rightarrow> off_t \<Rightarrow> bool \<Rightarrow> int list \<Rightarrow>
     sqe list \<times> (u64, (int + unit) + unit) signal option" where
  "stream_write h data off0 stop results =
     stream_transfer (\<lambda>s. write_submit_single (s_buffer s) (h_fd h) (s_offset s)) stop results
       \<lparr>s_buffer = data, s_offset = off0\<rparr>"

text \<open>Reading is the same for the bytes of a mutable buffer.\<close>

definition stream_read ::
  "'c native_fd_handle \<Rightarrow> mutable_buffer \<Rightarrow> off_t \<Rightarrow> bool \<Rightarrow> int list \<Rightarrow>
     sqe list \<times> (u64, (int + unit) + unit) signal option" where
  "stream_read h data off0 stop results =
     stream_transfer
       (\<lambda>s. read_submit_single (mb_make (cb_data (s_buffer s)) (cb_size (s_buffer s))) (h_fd h) (s_offset s))
       stop results \<lparr>s_buffer = cb_make (mb_data data) (mb_size data), s_offset = off0\<rparr>"

subsection \<open>Files\<close>

text \<open>The values of the enumerations of \<^verbatim>\<open>io_concepts.hpp\<close>.\<close>

datatype file_mode = Mode_Unchanged | Mode_None | Attr_Read | Attr_Write | Mode_Read | Mode_Write | Mode_Append

datatype creation = Open_Existing | Only_If_Existing | If_Needed | Truncate_Existing | Always_New

fun mode_value :: "file_mode \<Rightarrow> u32" where
  "mode_value Mode_Unchanged = 0"
| "mode_value Mode_None = 2"
| "mode_value Attr_Read = 4"
| "mode_value Attr_Write = 5"
| "mode_value Mode_Read = 6"
| "mode_value Mode_Write = 7"
| "mode_value Mode_Append = 9"

fun creation_value :: "creation \<Rightarrow> int" where
  "creation_value Open_Existing = 0"
| "creation_value Only_If_Existing = 1"
| "creation_value If_Needed = 2"
| "creation_value Truncate_Existing = 3"
| "creation_value Always_New = 4"

definition AT_FDCWD :: int where "AT_FDCWD = - 100"
definition O_PATH :: int where "O_PATH = 0x200000"

definition current_directory :: "'c native_fd_handle" where
  "current_directory = \<lparr>h_context = None, h_fd = AT_FDCWD\<rparr>"

definition path_open :: "u64 \<Rightarrow> open_data" where
  "path_open path = \<lparr>od_path = path, od_dirfd = AT_FDCWD, od_flags = O_PATH, od_mode = 0\<rparr>"

text \<open>The access mode goes where the permissions of a new file belong; caching is not used.\<close>

definition file_resource :: "u64 \<Rightarrow> 'c native_fd_handle \<Rightarrow> file_mode \<Rightarrow> creation \<Rightarrow> open_data" where
  "file_resource path dir mode creat =
     \<lparr>od_path = path, od_dirfd = h_fd dir, od_flags = creation_value creat, od_mode = mode_value mode\<rparr>"

definition handle_close :: "'c native_fd_handle \<Rightarrow> int \<times> 'c ptr" where
  "handle_close h = (h_fd h, h_context h)"

end
