(* ===== verification/Io_Uring_Correct.thy ===== *)
theory Io_Uring_Correct
  imports Io_Uring
begin

text \<open>
  What the byte streams and files of \<^theory_text>\<open>Io_Uring\<close> ask the system to do: a whole transfer, and the flags
  that a file is opened with.
\<close>

subsection \<open>A whole transfer\<close>

text \<open>The span after \<open>m\<close> bytes.\<close>

definition span_after :: "const_buffer \<Rightarrow> off_t \<Rightarrow> nat \<Rightarrow> single_span" where
  "span_after b off0 m =
     \<lparr>s_buffer = cb_make (cb_data b + of_nat m) (cb_size b - of_nat m),
      s_offset = (if off0 = - 1 then - 1 else off0 + of_nat m)\<rparr>"

definition in_range :: "const_buffer \<Rightarrow> off_t \<Rightarrow> bool" where
  "in_range b off0 \<longleftrightarrow> off0 = - 1 \<or> unat off0 + unat (cb_size b) < 2 ^ 64 - 1"

lemma span_after_advance:
  assumes "in_range b off0" "m + n \<le> unat (cb_size b)"
  shows "single_advance (of_nat n) (span_after b off0 m) = span_after b off0 (m + n)"
proof -
  have lt: "unat (cb_size b) < 2 ^ 64" using unsigned_less [of "cb_size b"] by simp
  have m: "unat (of_nat m :: size_t) = m" "unat (of_nat n :: size_t) = n"
    using assms(2) lt by (simp_all add: unat_of_nat)
  have sz: "unat (cb_size b - of_nat m) = unat (cb_size b) - m"
    using assms(2) m by (subst unat_sub) (simp_all add: word_le_nat_alt)
  have off: "off0 + of_nat m \<noteq> - 1" if "off0 \<noteq> - 1"
  proof
    assume "off0 + of_nat m = - 1"
    then have "unat (off0 + of_nat m) = 2 ^ 64 - 1"
      by (simp add: unsigned_minus_1_eq_mask mask_eq_exp_minus_1)
    moreover have "unat off0 + m < 2 ^ 64 - 1" using that assms by (simp add: in_range_def)
    then have "unat (off0 + of_nat m) = unat off0 + m" using m by (subst unat_add_no_wrap) simp_all
    ultimately show False using \<open>unat off0 + m < 2 ^ 64 - 1\<close> by simp
  qed
  have whole: "cb_size b = of_nat m + of_nat n" if "unat (cb_size b) - m \<le> n"
  proof -
    have "m + n = unat (cb_size b)" using that assms(2) by simp
    then show ?thesis by (simp flip: of_nat_add)
  qed
  have "cb_advance (of_nat n) (cb_make (cb_data b + of_nat m) (cb_size b - of_nat m)) =
      cb_make (cb_data b + of_nat (m + n)) (cb_size b - of_nat (m + n))"
    using whole assms m sz lt by (auto simp: cb_advance_def cb_make_def word_le_nat_alt)
  with off show ?thesis by (auto simp: single_advance_def span_after_def Let_def algebra_simps)
qed


lemma io_complete_nat: "io_complete (int n) = Set_Value (of_nat n)"
  by (simp add: io_complete_def)

lemma stream_round_nat:
  "stream_round stop (int n) = \<lparr>item_signal = Set_Value (of_nat n), next_signal = Next_Value,
     connect_throws = False, stop_seen = stop\<rparr>"
  by (simp add: stream_round_def io_complete_nat)

lemma span_after_empty:
  "m \<le> unat (cb_size b) \<Longrightarrow> cb_empty (s_buffer (span_after b off0 m)) \<longleftrightarrow> m = unat (cb_size b)"
proof -
  assume m: "m \<le> unat (cb_size b)"
  moreover have "unat (cb_size b) < 2 ^ 64" using unsigned_less [of "cb_size b"] by simp
  ultimately have "unat (of_nat m :: size_t) = m" by (simp add: unat_of_nat)
  then have "unat (cb_size b - of_nat m) = unat (cb_size b) - m"
    using m by (subst unat_sub) (simp_all add: word_le_nat_alt)
  moreover have "cb_size b - of_nat m = 0 \<longleftrightarrow> unat (cb_size b - of_nat m) = 0" by (simp only: unat_eq_zero)
  ultimately show ?thesis using m by (auto simp: span_after_def cb_empty_def cb_make_def)
qed

lemma run_transfers:
  assumes "in_range b off0" "\<forall>r \<in> set rs. r > 0" "rs \<noteq> []" "m + sum_list rs = unat (cb_size b)"
  shows "bseq_run single_advance (\<lambda>s. cb_empty (s_buffer s)) (map (\<lambda>r. stream_round stop (int r)) rs)
      (span_after b off0 m) =
    (map (\<lambda>k. span_after b off0 (m + sum_list (take k rs))) [0..<length rs],
     Finished (span_after b off0 (unat (cb_size b))) (Set_Value ()))"
  using assms(2-)
proof (induction rs arbitrary: m)
  case (Cons r rs)
  let ?empty = "\<lambda>s. cb_empty (s_buffer s)"
  have le: "m + r \<le> unat (cb_size b)" using Cons.prems(3) by simp
  have step: "item_complete single_advance (Set_Value (of_nat r) :: (size_t, int) signal) (span_after b off0 m) = span_after b off0 (m + r)"
    using span_after_advance [OF assms(1) le] by (simp add: item_complete_def)
  have up: "[0..<length (r # rs)] = 0 # map Suc [0..<length rs]"
    by (simp add: map_Suc_upt upt_conv_Cons del: upt_Suc)
  show ?case
  proof (cases "rs = []")
    case True
    with Cons.prems(3) have "m + r = unat (cb_size b)" by simp
    with True step span_after_empty [OF le, of off0] show ?thesis
      by (simp add: stream_round_nat bseq_round_def next_complete_def)
  next
    case False
    then obtain r' rs' where "rs = r' # rs'" by (cases rs) auto
    with Cons.prems have "m + r \<noteq> unat (cb_size b)" "m + r + sum_list rs = unat (cb_size b)"
      "\<forall>r \<in> set rs. r > 0" by auto
    with Cons.IH [of "m + r"] False have IH:
      "bseq_run single_advance ?empty (map (\<lambda>r. stream_round stop (int r)) rs) (span_after b off0 (m + r)) =
        (map (\<lambda>k. span_after b off0 (m + r + sum_list (take k rs))) [0..<length rs],
         Finished (span_after b off0 (unat (cb_size b))) (Set_Value ()))" by simp
    have "bseq_round single_advance ?empty (stream_round stop (int r)) (span_after b off0 m) =
        Running (span_after b off0 (m + r))"
      using step span_after_empty [OF le, of off0] \<open>m + r \<noteq> unat (cb_size b)\<close>
      by (simp add: stream_round_nat bseq_round_def next_complete_def)
    with IH up show ?thesis by (simp add: add.assoc comp_def del: upt_Suc)
  qed
qed simp

lemma folded_sum:
  "folded (\<lambda>t n. Some (t + n)) (map of_nat rs) t = Some (t + of_nat (sum_list rs) :: u64)"
  by (induction rs arbitrary: t) (simp_all add: add.assoc)

lemma reduce_sum:
  assumes "rs \<noteq> []"
  shows "reduce (\<lambda>t n. Some (t + n)) (0 :: u64)
      (map (\<lambda>res. lift_error (io_complete res)) (map int rs)) (Set_Value () :: (unit, int + unit) signal) =
    Some (Set_Value (of_nat (sum_list rs)))"
proof -
  have eq: "map (\<lambda>res. lift_error (io_complete res) :: (size_t, int + unit) signal) (map int rs) =
      map Set_Value (map of_nat rs)"
    by (simp add: io_complete_nat lift_error_def)
  show ?thesis
    unfolding eq using assms reduce_values [OF folded_sum [of rs 0]] by simp
qed

text \<open>The submissions and the completion of a whole transfer, and of one that never gets all bytes.\<close>

lemma transfer_all:
  assumes "in_range data off0" "rs \<noteq> []" "\<forall>r \<in> set rs. r > 0" "sum_list rs = unat (cb_size data)"
  shows "stream_transfer submit stop (map int rs) \<lparr>s_buffer = data, s_offset = off0\<rparr> =
    (map (\<lambda>k. submit (span_after data off0 (sum_list (take k rs)))) [0..<length rs], Some (Set_Value (cb_size data)))"
proof -
  have start: "\<lparr>s_buffer = data, s_offset = off0\<rparr> = span_after data off0 0"
    by (simp add: span_after_def cb_make_def)
  have "0 + sum_list rs = unat (cb_size data)" using assms(4) by simp
  note run = run_transfers [OF assms(1,3,2) this, of stop]
  have rounds: "map (stream_round stop) (map int rs) = map (\<lambda>r. stream_round stop (int r)) rs" by simp
  have sum: "(of_nat (sum_list rs) :: u64) = cb_size data" by (simp add: assms(4))
  have "take (length (map f [0..<length rs])) (map int rs) = map int rs" for f :: "nat \<Rightarrow> single_span"
    by simp
  note reduced = reduce_sum [OF assms(2), unfolded sum] this
  show ?thesis
    unfolding stream_transfer_def start rounds run prod.case bseq.case reduced by simp
qed

lemma run_short:
  assumes "in_range b off0" "m + sum_list rs < unat (cb_size b)"
  shows "snd (bseq_run single_advance (\<lambda>s. cb_empty (s_buffer s)) (map (\<lambda>r. stream_round stop (int r)) rs)
      (span_after b off0 m)) = Running (span_after b off0 (m + sum_list rs))"
  using assms(2)
proof (induction rs arbitrary: m)
  case (Cons r rs)
  have le: "m + r \<le> unat (cb_size b)" using Cons.prems by simp
  have "item_complete single_advance (Set_Value (of_nat r) :: (size_t, int) signal) (span_after b off0 m) =
      span_after b off0 (m + r)"
    using span_after_advance [OF assms(1) le] by (simp add: item_complete_def)
  then have "bseq_round single_advance (\<lambda>s. cb_empty (s_buffer s)) (stream_round stop (int r)) (span_after b off0 m) =
      Running (span_after b off0 (m + r))"
    using span_after_empty [OF le, of off0] Cons.prems by (simp add: stream_round_nat bseq_round_def next_complete_def)
  with Cons.IH [of "m + r"] Cons.prems show ?case by (simp add: add.assoc case_prod_unfold Let_def)
qed simp

lemma transfer_short:
  assumes "in_range data off0" "sum_list rs < unat (cb_size data)"
  shows "snd (stream_transfer submit stop (map int rs) \<lparr>s_buffer = data, s_offset = off0\<rparr>) = None"
proof -
  have start: "\<lparr>s_buffer = data, s_offset = off0\<rparr> = span_after data off0 0"
    by (simp add: span_after_def cb_make_def)
  have rounds: "map (stream_round stop) (map int rs) = map (\<lambda>r. stream_round stop (int r)) rs" by simp
  obtain given where "bseq_run single_advance (\<lambda>s. cb_empty (s_buffer s)) (map (\<lambda>r. stream_round stop (int r)) rs)
      (span_after data off0 0) = (given, Running (span_after data off0 (sum_list rs)))"
    using run_short [of data off0 0 rs] assms by (metis add_0 prod.collapse)
  then show ?thesis unfolding stream_transfer_def start rounds by simp
qed

text \<open>C12 (stream_write). When every write of a buffer writes at least one byte, and together they write all of it, then
  the writes cover the buffer and the range of the file behind the offset without a gap or an
  overlap: each starts where the one before ended, or at the current position (-1). The sender completes with
  the size of the buffer.\<close>

theorem stream_write_all:
  assumes "in_range data off0" "rs \<noteq> []" "\<forall>r \<in> set rs. r > 0" "sum_list rs = unat (cb_size data)"
  shows "stream_write h data off0 stop (map int rs) =
    (map (\<lambda>k. let m = sum_list (take k rs) in (sqe_zero Op_Write)\<lparr>sqe_fd := h_fd h,
        sqe_off := (if off0 = - 1 then - 1 else off0 + of_nat m),
        sqe_addr := cb_data data + of_nat m, sqe_len := ucast (cb_size data - of_nat m)\<rparr>) [0..<length rs],
     Some (Set_Value (cb_size data)))"
  unfolding stream_write_def transfer_all [OF assms]
  by (simp add: write_submit_single_def span_after_def cb_make_def Let_def)

theorem stream_write_all_witness:
  "snd (stream_write \<lparr>h_context = Some (), h_fd = 3\<rparr> (cb_make 1000 5) 0 False (map int [2, 3])) =
     Some (Set_Value 5)"
  by (subst stream_write_all) (simp_all add: in_range_def cb_make_def)

subsection \<open>Single operations and files\<close>

text \<open>Remark (submissions). Without an offset \<^verbatim>\<open>write_some\<close> writes at the current position, but \<^verbatim>\<open>read_some\<close> always reads from the
  start of the file. The length of a buffer is cut off to 32 bits: a buffer of 4 GiB is read or written with
  length zero, which the sequence of the transfers repeats without end.\<close>

theorem submissions_lose:
  assumes "h_context h = Some c"
  shows "\<exists>r w. read_some h bufs = Some r \<and> write_some h data = Some w \<and>
    sqe_off (read_sender_submit r) = 0 \<and> sqe_off (write_sender_submit w) = - 1 \<and>
    unat (sqe_len (write_sender_submit w)) = unat (cb_size data) mod 2 ^ 32 \<and>
    unat (sqe_len (read_sender_submit r)) = unat (mb_size bufs) mod 2 ^ 32"
  using assms
  by (simp add: read_some_def write_some_def io_sender_of_def read_sender_submit_def write_sender_submit_def
      read_submit_single_def write_submit_single_def unsigned_ucast_eq take_bit_eq_mod)

theorem submissions_lose_witness:
  "\<exists>w. write_some \<lparr>h_context = Some (), h_fd = 3\<rparr> (cb_make 4096 (2 ^ 32)) = Some w \<and>
     unat (sqe_len (write_sender_submit w)) = 0"
proof -
  obtain w where "write_some \<lparr>h_context = Some (), h_fd = 3\<rparr> (cb_make 4096 (2 ^ 32)) = Some w"
    "unat (sqe_len (write_sender_submit w)) = unat (cb_size (cb_make 4096 (2 ^ 32))) mod 2 ^ 32"
    using submissions_lose [of "\<lparr>h_context = Some (), h_fd = 3\<rparr>" "()" "mb_make 0 0" "cb_make 4096 (2 ^ 32)"]
    by auto
  moreover have "unat (cb_size (cb_make 4096 (2 ^ 32))) mod 2 ^ 32 = 0" by (simp add: cb_make_def)
  ultimately show ?thesis by auto
qed

text \<open>Remark (file_flags). Opening a file never asks for the file to be created (\<^verbatim>\<open>O_CREAT\<close>), truncated (\<^verbatim>\<open>O_TRUNC\<close>) or appended to
  (\<^verbatim>\<open>O_APPEND\<close>), and the flags do not depend on the mode: the number of the creation is used as the
  access mode, so that \<^verbatim>\<open>open_existing\<close> opens for reading only, even with \<^verbatim>\<open>mode::write\<close>.\<close>

theorem file_open_flags:
  "let s = open_submit (file_resource path dir mode creat) in
     sqe_open_flags s AND (0x40 OR 0x200 OR 0x400) = 0 \<and>
     sqe_open_flags s = sqe_open_flags (open_submit (file_resource path dir mode' creat)) \<and>
     sqe_open_flags (open_submit (file_resource path dir Mode_Write Open_Existing)) = 0 \<and>
     sqe_len s = mode_value mode"
  by (cases creat) (simp_all add: open_submit_def file_resource_def Let_def)

end
