(* ===== verification/Std_Numbers.thy ===== *)
theory Std_Numbers
  imports Sio_Prelude
begin

text \<open>
  Numbers as text: what the programs under \<^verbatim>\<open>examples/\<close> use of \<^verbatim>\<open>std::stoull\<close>, \<^verbatim>\<open>std::stoi\<close>, \<^verbatim>\<open>std::tolower\<close>
  and of the output of integers.
\<close>

datatype std_error = Invalid_Argument | Out_Of_Range | System_Error string | Runtime_Error string
  | Bad_Alloc | Length_Error

subsection \<open>Printing\<close>

definition digit :: "nat \<Rightarrow> char" where
  "digit d = char_of (48 + d)"

fun decimal :: "nat \<Rightarrow> string" where
  "decimal n = (if n < 10 then [digit n] else decimal (n div 10) @ [digit (n mod 10)])"

declare decimal.simps [simp del]

text \<open>\<^verbatim>\<open>std::setw\<close> with the fill character \<^verbatim>\<open>'0'\<close>.\<close>

definition zero_padded :: "nat \<Rightarrow> nat \<Rightarrow> string" where
  "zero_padded w n = replicate (w - length (decimal n)) (CHR ''0'') @ decimal n"

subsection \<open>Reading\<close>

definition is_digit :: "char \<Rightarrow> bool" where
  "is_digit c \<longleftrightarrow> 48 \<le> (of_char c :: nat) \<and> (of_char c :: nat) \<le> 57"

definition is_space :: "char \<Rightarrow> bool" where
  "is_space c \<longleftrightarrow> (of_char c :: nat) = 32 \<or> 9 \<le> (of_char c :: nat) \<and> (of_char c :: nat) \<le> 13"

definition to_lower :: "char \<Rightarrow> char" where
  "to_lower c = (if 65 \<le> (of_char c :: nat) \<and> (of_char c :: nat) \<le> 90 then char_of ((of_char c :: nat) + 32) else c)"

definition digits_value :: "string \<Rightarrow> nat" where
  "digits_value ds = foldl (\<lambda>n c. 10 * n + (of_char c - 48)) 0 ds"

text \<open>Spaces, a sign and digits: the sign, the number and the index of the first character that is not read.\<close>

definition scan_number :: "string \<Rightarrow> (bool \<times> nat \<times> nat) option" where
  "scan_number s =
     (let s1 = dropWhile is_space s;
          sign = s1 \<noteq> [] \<and> (hd s1 = CHR ''-'' \<or> hd s1 = CHR ''+'');
          s2 = (if sign then tl s1 else s1);
          ds = takeWhile is_digit s2
      in if ds = [] then None
         else Some (sign \<and> hd s1 = CHR ''-'', digits_value ds, length s - length s2 + length ds))"

text \<open>\<^verbatim>\<open>stoull\<close> reads a negative number as its negation modulo \<open>2 ^ 64\<close>.\<close>

definition stoull :: "string \<Rightarrow> std_error + (u64 \<times> nat)" where
  "stoull s =
     (case scan_number s of
        None \<Rightarrow> Inl Invalid_Argument
      | Some (neg, n, pos) \<Rightarrow>
          if n \<ge> 2 ^ 64 then Inl Out_Of_Range
          else Inr (if neg then - of_nat n else of_nat n, pos))"

definition stoi :: "string \<Rightarrow> std_error + (int \<times> nat)" where
  "stoi s =
     (case scan_number s of
        None \<Rightarrow> Inl Invalid_Argument
      | Some (neg, n, pos) \<Rightarrow>
          let v = (if neg then - int n else int n)
          in if v < - (2 ^ 31) \<or> v \<ge> 2 ^ 31 then Inl Out_Of_Range else Inr (v, pos))"

subsection \<open>What is printed is read\<close>

lemma of_char_digit: "d < 10 \<Longrightarrow> (of_char (digit d) :: nat) = 48 + d"
  by (simp add: digit_def)

lemma is_digit_digit: "d < 10 \<Longrightarrow> is_digit (digit d)"
  by (simp add: is_digit_def of_char_digit)

lemma decimal_nonempty: "decimal n \<noteq> []"
  by (subst decimal.simps) simp

lemma decimal_digits: "\<forall>c \<in> set (decimal n). is_digit c"
proof (induction n rule: decimal.induct)
  case (1 n)
  then show ?case by (subst decimal.simps) (auto simp: is_digit_digit)
qed

lemma digits_value_snoc: "digits_value (ds @ [c]) = 10 * digits_value ds + (of_char c - 48)"
  by (simp add: digits_value_def)

lemma digits_value_decimal: "digits_value (decimal n) = n"
proof (induction n rule: decimal.induct)
  case (1 n)
  show ?case
  proof (cases "n < 10")
    case True
    then show ?thesis by (subst decimal.simps) (simp add: digits_value_def of_char_digit)
  next
    case False
    with 1 have "digits_value (decimal (n div 10)) = n div 10" by simp
    with False show ?thesis by (subst decimal.simps) (simp add: digits_value_snoc of_char_digit)
  qed
qed

lemma takeWhile_digits:
  "rest = [] \<or> \<not> is_digit (hd rest) \<Longrightarrow> takeWhile is_digit (decimal n @ rest) = decimal n"
  using decimal_digits [of n] by (cases rest) (simp_all add: takeWhile_append)

lemma digit_not_special: "is_digit c \<Longrightarrow> \<not> is_space c \<and> c \<noteq> CHR ''-'' \<and> c \<noteq> CHR ''+''"
  by (auto simp: is_digit_def is_space_def)

lemma scan_decimal:
  assumes "rest = [] \<or> \<not> is_digit (hd rest)"
  shows "scan_number (decimal n @ rest) = Some (False, n, length (decimal n))"
    and "scan_number (CHR ''-'' # decimal n @ rest) = Some (True, n, Suc (length (decimal n)))"
proof -
  obtain c cs where c: "decimal n = c # cs" using decimal_nonempty by (cases "decimal n") auto
  with decimal_digits [of n] have d: "is_digit c" by simp
  note nd = digit_not_special [OF d]
  have m: "\<not> is_space (CHR ''-'')" by (simp add: is_space_def)
  note tw = takeWhile_digits [OF assms, of n]
  have whole: "dropWhile is_space (decimal n @ rest) = decimal n @ rest"
    "hd (decimal n @ rest) \<noteq> CHR ''-''" "hd (decimal n @ rest) \<noteq> CHR ''+''"
    using c nd by simp_all
  show "scan_number (decimal n @ rest) = Some (False, n, length (decimal n))"
    using whole tw decimal_nonempty by (simp add: scan_number_def Let_def digits_value_decimal)
  show "scan_number (CHR ''-'' # decimal n @ rest) = Some (True, n, Suc (length (decimal n)))"
    using m tw decimal_nonempty by (simp add: scan_number_def Let_def digits_value_decimal)
qed

lemma stoull_decimal:
  "rest = [] \<or> \<not> is_digit (hd rest) \<Longrightarrow> n < 2 ^ 64 \<Longrightarrow> stoull (decimal n @ rest) = Inr (of_nat n, length (decimal n))"
  by (simp add: stoull_def scan_decimal)

lemma stoull_negative:
  "rest = [] \<or> \<not> is_digit (hd rest) \<Longrightarrow> n < 2 ^ 64 \<Longrightarrow>
     stoull (CHR ''-'' # decimal n @ rest) = Inr (- of_nat n, Suc (length (decimal n)))"
  by (simp add: stoull_def scan_decimal)

lemma stoi_decimal: "n < 2 ^ 31 \<Longrightarrow> stoi (decimal n) = Inr (int n, length (decimal n))"
  using scan_decimal(1) [of "[]" n] by (simp add: stoi_def Let_def)

lemma length_decimal_le: "n < 10 ^ k \<Longrightarrow> k > 0 \<Longrightarrow> length (decimal n) \<le> k"
proof (induction n arbitrary: k rule: decimal.induct)
  case (1 n)
  show ?case
  proof (cases "n < 10")
    case True
    with 1 show ?thesis by (subst decimal.simps) simp
  next
    case False
    with 1 obtain j where j: "k = Suc j" "j > 0" by (cases k; cases "k - 1") auto
    with 1 False have "length (decimal (n div 10)) \<le> j" by simp
    with j False show ?thesis by (subst decimal.simps) simp
  qed
qed

lemma digits_value_zeros: "digits_value (replicate k (CHR ''0'') @ ds) = digits_value ds"
  by (induction k) (simp_all add: digits_value_def)

lemma digits_value_padded: "digits_value (zero_padded w n) = n"
  by (simp add: zero_padded_def digits_value_zeros digits_value_decimal)

lemma zero_padded_length: "n < 10 ^ w \<Longrightarrow> w > 0 \<Longrightarrow> length (zero_padded w n) = w"
  using length_decimal_le [of n w] by (simp add: zero_padded_def)

end
