(* ===== verification/Byte_Order.thy ===== *)
theory Byte_Order
  imports Std_Numbers "HOL-Library.Char_ord" "HOL-Library.List_Lexorder"
begin

text \<open>
  How a 16-bit or 32-bit integer lies in memory, and the conversions between host and network order
  (\<open>htons\<close>, \<open>htonl\<close>, \<open>ntohs\<close>, \<open>ntohl\<close> and \<^verbatim>\<open>std::bit_cast\<close>) that the network code uses. The byte order
  of the machine is a parameter, so that every result holds for both. The last section has the
  functions of the C library on bytes and strings that the network code calls.
\<close>

datatype byte_order = Big_Endian | Little_Endian

type_synonym bytes4 = "u8 \<times> u8 \<times> u8 \<times> u8"

definition net_bytes :: "u32 \<Rightarrow> bytes4" where
  "net_bytes w = (ucast (drop_bit 24 w), ucast (drop_bit 16 w), ucast (drop_bit 8 w), ucast w)"

definition of_net_bytes :: "bytes4 \<Rightarrow> u32" where
  "of_net_bytes = (\<lambda>(a, b, c, d).
     push_bit 24 (ucast a) OR push_bit 16 (ucast b) OR push_bit 8 (ucast c) OR ucast d)"

definition swap_bytes :: "bytes4 \<Rightarrow> bytes4" where
  "swap_bytes = (\<lambda>(a, b, c, d). (d, c, b, a))"

text \<open>The bytes of a word in memory, and the word that lies in memory as these bytes.\<close>

definition mem_bytes :: "byte_order \<Rightarrow> u32 \<Rightarrow> bytes4" where
  "mem_bytes bo w = (case bo of Big_Endian \<Rightarrow> net_bytes w | Little_Endian \<Rightarrow> swap_bytes (net_bytes w))"

definition of_mem_bytes :: "byte_order \<Rightarrow> bytes4 \<Rightarrow> u32" where
  "of_mem_bytes bo bs = (case bo of Big_Endian \<Rightarrow> of_net_bytes bs | Little_Endian \<Rightarrow> of_net_bytes (swap_bytes bs))"

definition htonl :: "byte_order \<Rightarrow> u32 \<Rightarrow> u32" where
  "htonl bo w = of_mem_bytes bo (net_bytes w)"

definition ntohl :: "byte_order \<Rightarrow> u32 \<Rightarrow> u32" where
  "ntohl bo w = of_net_bytes (mem_bytes bo w)"

definition htons :: "byte_order \<Rightarrow> u16 \<Rightarrow> u16" where
  "htons bo w = (case bo of Big_Endian \<Rightarrow> w | Little_Endian \<Rightarrow> push_bit 8 w OR drop_bit 8 w)"

definition ntohs :: "byte_order \<Rightarrow> u16 \<Rightarrow> u16" where
  "ntohs bo w = htons bo w"

lemma of_net_net_bytes [simp]: "of_net_bytes (net_bytes w) = w"
proof (rule bit_word_eqI)
  fix n :: nat assume "n < LENGTH(32)"
  then consider "n < 8" | "8 \<le> n" "n < 16" | "16 \<le> n" "n < 24" | "24 \<le> n" "n < 32" by fastforce
  then show "bit (of_net_bytes (net_bytes w)) n = bit w n"
    by cases (auto simp: bit_simps of_net_bytes_def net_bytes_def)
qed

lemma not_bit_u8: "8 \<le> n \<Longrightarrow> \<not> bit (b :: u8) n"
  using bit_imp_le_length [of b n] by auto

lemma bit_u8_less: "bit (b :: u8) n \<Longrightarrow> n < 8"
  using not_bit_u8 linorder_not_le by blast

lemma net_of_net_bytes [simp]: "net_bytes (of_net_bytes bs) = bs"
  by (cases bs) (auto simp: net_bytes_def of_net_bytes_def bit_simps not_bit_u8 intro!: bit_word_eqI)

lemma swap_swap_bytes [simp]: "swap_bytes (swap_bytes bs) = bs"
  by (cases bs) (simp add: swap_bytes_def)

lemma mem_bytes_of_mem [simp]: "mem_bytes bo (of_mem_bytes bo bs) = bs"
  by (cases bo) (simp_all add: mem_bytes_def of_mem_bytes_def)

lemma of_mem_mem_bytes [simp]: "of_mem_bytes bo (mem_bytes bo w) = w"
  by (cases bo) (simp_all add: mem_bytes_def of_mem_bytes_def)

lemma mem_bytes_htonl [simp]: "mem_bytes bo (htonl bo w) = net_bytes w"
  by (simp add: htonl_def)

lemma ntohl_htonl [simp]: "ntohl bo (htonl bo w) = w"
  by (simp add: ntohl_def)

lemma ntohl_of_mem_bytes [simp]: "ntohl bo (of_mem_bytes bo bs) = of_net_bytes bs"
  by (simp add: ntohl_def)

lemma of_net_bytes_inject [simp]: "of_net_bytes x = of_net_bytes y \<longleftrightarrow> x = y"
  by (metis net_of_net_bytes)

lemma ntohs_htons [simp]: "ntohs bo (htons bo w) = w"
proof (cases bo)
  case Little_Endian
  have "push_bit 8 (push_bit 8 w OR drop_bit 8 w) OR drop_bit 8 (push_bit 8 w OR drop_bit 8 w) = w"
    (is "?x = w")
  proof (rule bit_word_eqI)
    fix n :: nat assume "n < LENGTH(16)"
    then consider "n < 8" | "8 \<le> n" "n < 16" by fastforce
    then show "bit ?x n = bit w n" by cases (auto simp: bit_simps dest: bit_imp_le_length)
  qed
  with Little_Endian show ?thesis by (simp add: ntohs_def htons_def)
qed (simp add: ntohs_def htons_def)

subsection \<open>The C library\<close>

text \<open>
  \<open>memcmp\<close> on two arrays of the same length is the order of lists; the clauses for lists of
  different lengths only make it total.
\<close>

fun memcmp :: "u8 list \<Rightarrow> u8 list \<Rightarrow> int" where
  "memcmp [] [] = 0"
| "memcmp [] (b # bs) = - 1"
| "memcmp (a # as) [] = 1"
| "memcmp (a # as) (b # bs) = (if a < b then - 1 else if b < a then 1 else memcmp as bs)"

lemma memcmp_0 [simp]: "memcmp as bs = 0 \<longleftrightarrow> as = bs"
  by (induction as bs rule: memcmp.induct) auto

lemma memcmp_less: "memcmp as bs < 0 \<longleftrightarrow> as < bs"
  by (induction as bs rule: memcmp.induct) auto

lemma memcmp_greater: "memcmp as bs > 0 \<longleftrightarrow> bs < as"
  by (induction as bs rule: memcmp.induct) auto

text \<open>The characters before the terminating zero of a string in memory.\<close>

definition c_str :: "string \<Rightarrow> string" where
  "c_str s = takeWhile (\<lambda>c. c \<noteq> CHR 0x00) s"

text \<open>\<open>atoi\<close>: an optional sign and digits after white space; a value outside \<open>int\<close> is undefined.\<close>

fun atoi_value :: "string \<Rightarrow> int \<Rightarrow> int" where
  "atoi_value [] n = n"
| "atoi_value (c # cs) n =
     (if is_digit c then atoi_value cs (10 * n + (of_char c - 48)) else n)"

definition atoi :: "string \<Rightarrow> int option" where
  "atoi s =
     (let s1 = dropWhile is_space s;
          n = (case s1 of
                 CHR ''-'' # s2 \<Rightarrow> - atoi_value s2 0
               | CHR ''+'' # s2 \<Rightarrow> atoi_value s2 0
               | _ \<Rightarrow> atoi_value s1 0)
      in if - (2 ^ 31) \<le> n \<and> n < 2 ^ 31 then Some n else None)"

end
