(* ===== verification/Ip_Address.thy ===== *)
theory Ip_Address
  imports Byte_Order
begin

text \<open>
  \<^verbatim>\<open>ip/address.hpp\<close>: IPv4 and IPv6 addresses, their queries, comparisons, hashes and the functions that
  make them from integers, bytes and strings.

  An IPv4 address holds its four bytes as an \<^verbatim>\<open>in_addr_t\<close>, that is the word that has these bytes in
  memory, so that what it is depends on the byte order \<open>bo\<close> of the machine. An IPv6 address is an array of
  16 bytes and a scope id. Parsing and printing are the system's: \<^verbatim>\<open>inet_pton\<close> and \<^verbatim>\<open>if_nametoindex\<close>
  are parameters, and the functions that only call \<^verbatim>\<open>inet_ntop\<close> are left out.
\<close>

subsection \<open>Version 4\<close>

datatype address_v4 = Address_V4 (addr_v4: u32)

definition v4_default :: address_v4 where
  "v4_default = Address_V4 0"

definition v4_of_uint :: "byte_order \<Rightarrow> u32 \<Rightarrow> address_v4" where
  "v4_of_uint bo addr = Address_V4 (htonl bo addr)"

definition v4_of_bytes :: "byte_order \<Rightarrow> bytes4 \<Rightarrow> address_v4" where
  "v4_of_bytes bo bs = Address_V4 (of_mem_bytes bo bs)"

definition v4_loopback :: "byte_order \<Rightarrow> address_v4" where
  "v4_loopback bo = v4_of_uint bo 0x7F000001"

definition v4_broadcast :: "byte_order \<Rightarrow> address_v4" where
  "v4_broadcast bo = v4_of_uint bo 0xFFFFFFFF"

definition v4_any :: "byte_order \<Rightarrow> address_v4" where
  "v4_any bo = v4_of_uint bo 0"

definition v4_to_uint :: "byte_order \<Rightarrow> address_v4 \<Rightarrow> u32" where
  "v4_to_uint bo a = ntohl bo (addr_v4 a)"

definition v4_to_bytes :: "byte_order \<Rightarrow> address_v4 \<Rightarrow> bytes4" where
  "v4_to_bytes bo a = mem_bytes bo (addr_v4 a)"

definition v4_is_loopback :: "byte_order \<Rightarrow> address_v4 \<Rightarrow> bool" where
  "v4_is_loopback bo a \<longleftrightarrow> v4_to_uint bo a AND 0xFF000000 = 0x7F000000"

definition v4_is_multicast :: "byte_order \<Rightarrow> address_v4 \<Rightarrow> bool" where
  "v4_is_multicast bo a \<longleftrightarrow> v4_to_uint bo a AND 0xF0000000 = 0xE0000000"

definition v4_is_unspecified :: "byte_order \<Rightarrow> address_v4 \<Rightarrow> bool" where
  "v4_is_unspecified bo a \<longleftrightarrow> v4_to_uint bo a = 0"

text \<open>The comparisons of version 4 are the defaulted ones: they compare the stored word.\<close>

definition v4_less :: "address_v4 \<Rightarrow> address_v4 \<Rightarrow> bool" where
  "v4_less a b \<longleftrightarrow> addr_v4 a < addr_v4 b"

subsection \<open>Version 6\<close>

datatype address_v6 = Address_V6 (addr_v6: "u8 list") (scope_id: u16)

definition s6_addr :: "address_v6 \<Rightarrow> nat \<Rightarrow> u8" where
  "s6_addr a i = addr_v6 a ! i"

definition v6_default :: address_v6 where
  "v6_default = Address_V6 (replicate 16 0) 0"

definition v6_any :: address_v6 where
  "v6_any = v6_default"

definition v6_loopback :: address_v6 where
  "v6_loopback = Address_V6 ((addr_v6 v6_default)[15 := 1]) (scope_id v6_default)"

definition v6_of_bytes :: "u8 list \<Rightarrow> u16 \<Rightarrow> address_v6" where
  "v6_of_bytes bs sid = Address_V6 bs sid"

definition v6_set_scope_id :: "u16 \<Rightarrow> address_v6 \<Rightarrow> address_v6" where
  "v6_set_scope_id sid a = Address_V6 (addr_v6 a) sid"

definition v6_to_bytes :: "address_v6 \<Rightarrow> u8 list" where
  "v6_to_bytes a = addr_v6 a"

definition v6_is_v4_mapped :: "address_v6 \<Rightarrow> bool" where
  "v6_is_v4_mapped a \<longleftrightarrow>
     (\<forall>i \<in> set [0..<10]. s6_addr a i = 0) \<and> s6_addr a 10 = 0xff \<and> s6_addr a 11 = 0xff"

definition v6_to_v4 :: "byte_order \<Rightarrow> address_v6 \<Rightarrow> address_v4" where
  "v6_to_v4 bo a =
     (if \<not> v6_is_v4_mapped a then v4_default
      else let bs = v6_to_bytes a in v4_of_bytes bo (bs ! 12, bs ! 13, bs ! 14, bs ! 15))"

definition v6_is_loopback :: "address_v6 \<Rightarrow> bool" where
  "v6_is_loopback a \<longleftrightarrow> (\<forall>i \<in> set [0..<15]. s6_addr a i = 0) \<and> s6_addr a 15 = 1"

definition v6_is_unspecified :: "address_v6 \<Rightarrow> bool" where
  "v6_is_unspecified a \<longleftrightarrow> (\<forall>i \<in> set [0..<16]. s6_addr a i = 0)"

definition v6_is_link_local :: "address_v6 \<Rightarrow> bool" where
  "v6_is_link_local a \<longleftrightarrow> s6_addr a 0 = 0xfe \<and> s6_addr a 1 AND 0xc0 = 0x80"

definition v6_is_site_local :: "address_v6 \<Rightarrow> bool" where
  "v6_is_site_local a \<longleftrightarrow> s6_addr a 0 = 0xfe \<and> s6_addr a 1 AND 0xc0 = 0xc0"

definition v6_is_multicast :: "address_v6 \<Rightarrow> bool" where
  "v6_is_multicast a \<longleftrightarrow> s6_addr a 0 = 0xff"

definition v6_is_multicast_global :: "address_v6 \<Rightarrow> bool" where
  "v6_is_multicast_global a \<longleftrightarrow> s6_addr a 0 = 0xff \<and> s6_addr a 1 AND 0x0f = 0x0e"

definition v6_is_multicast_link_local :: "address_v6 \<Rightarrow> bool" where
  "v6_is_multicast_link_local a \<longleftrightarrow> s6_addr a 0 = 0xff \<and> s6_addr a 1 AND 0x0f = 0x02"

definition v6_is_multicast_node_local :: "address_v6 \<Rightarrow> bool" where
  "v6_is_multicast_node_local a \<longleftrightarrow> s6_addr a 0 = 0xff \<and> s6_addr a 1 AND 0x0f = 0x01"

definition v6_is_multicast_org_local :: "address_v6 \<Rightarrow> bool" where
  "v6_is_multicast_org_local a \<longleftrightarrow> s6_addr a 0 = 0xff \<and> s6_addr a 1 AND 0x0f = 0x08"

definition v6_is_multicast_site_local :: "address_v6 \<Rightarrow> bool" where
  "v6_is_multicast_site_local a \<longleftrightarrow> s6_addr a 0 = 0xff \<and> s6_addr a 1 AND 0x0f = 0x05"

definition v6_eq :: "address_v6 \<Rightarrow> address_v6 \<Rightarrow> bool" where
  "v6_eq a1 a2 \<longleftrightarrow> memcmp (addr_v6 a1) (addr_v6 a2) = 0 \<and> scope_id a1 = scope_id a2"

definition v6_less :: "address_v6 \<Rightarrow> address_v6 \<Rightarrow> bool" where
  "v6_less a1 a2 =
     (let result = memcmp (addr_v6 a1) (addr_v6 a2)
      in if result < 0 then True
         else if result > 0 then False
         else scope_id a1 < scope_id a2)"

definition v6_less_eq :: "address_v6 \<Rightarrow> address_v6 \<Rightarrow> bool" where
  "v6_less_eq a1 a2 \<longleftrightarrow> \<not> v6_less a2 a1"

subsection \<open>Either version\<close>

datatype ip_address = Is_V4 address_v4 | Is_V6 address_v6

text \<open>Reading the other version throws.\<close>

datatype bad_variant_access = Bad_Variant_Access

definition addr_default :: ip_address where
  "addr_default = Is_V4 v4_default"

fun is_v4 :: "ip_address \<Rightarrow> bool" where
  "is_v4 (Is_V4 _) = True"
| "is_v4 (Is_V6 _) = False"

fun is_v6 :: "ip_address \<Rightarrow> bool" where
  "is_v6 (Is_V4 _) = False"
| "is_v6 (Is_V6 _) = True"

fun addr_to_v4 :: "ip_address \<Rightarrow> bad_variant_access + address_v4" where
  "addr_to_v4 (Is_V4 a) = Inr a"
| "addr_to_v4 (Is_V6 _) = Inl Bad_Variant_Access"

fun addr_to_v6 :: "ip_address \<Rightarrow> bad_variant_access + address_v6" where
  "addr_to_v6 (Is_V6 a) = Inr a"
| "addr_to_v6 (Is_V4 _) = Inl Bad_Variant_Access"

fun addr_is_loopback :: "byte_order \<Rightarrow> ip_address \<Rightarrow> bool" where
  "addr_is_loopback bo (Is_V4 a) = v4_is_loopback bo a"
| "addr_is_loopback bo (Is_V6 a) = v6_is_loopback a"

fun addr_is_unspecified :: "byte_order \<Rightarrow> ip_address \<Rightarrow> bool" where
  "addr_is_unspecified bo (Is_V4 a) = v4_is_unspecified bo a"
| "addr_is_unspecified bo (Is_V6 a) = v6_is_unspecified a"

fun addr_is_multicast :: "byte_order \<Rightarrow> ip_address \<Rightarrow> bool" where
  "addr_is_multicast bo (Is_V4 a) = v4_is_multicast bo a"
| "addr_is_multicast bo (Is_V6 a) = v6_is_multicast a"

fun addr_index :: "ip_address \<Rightarrow> nat" where
  "addr_index (Is_V4 _) = 0"
| "addr_index (Is_V6 _) = 1"

definition addr_less :: "ip_address \<Rightarrow> ip_address \<Rightarrow> bool" where
  "addr_less a1 a2 =
     (if addr_index a1 \<noteq> addr_index a2 then addr_index a1 < addr_index a2
      else case (a1, a2) of
          (Is_V4 x, Is_V4 y) \<Rightarrow> v4_less x y
        | (Is_V6 x, Is_V6 y) \<Rightarrow> v6_less x y
        | _ \<Rightarrow> False)"

definition addr_less_eq :: "ip_address \<Rightarrow> ip_address \<Rightarrow> bool" where
  "addr_less_eq a1 a2 \<longleftrightarrow> \<not> addr_less a2 a1"

subsection \<open>Making addresses\<close>

definition make_address_v4_uint :: "byte_order \<Rightarrow> u32 \<Rightarrow> address_v4" where
  "make_address_v4_uint bo addr = v4_of_uint bo addr"

definition make_address_v4_cstr ::
  "(string \<Rightarrow> bytes4 option) \<Rightarrow> byte_order \<Rightarrow> string \<Rightarrow> address_v4" where
  "make_address_v4_cstr inet_pton4 bo addr =
     (case inet_pton4 addr of Some bs \<Rightarrow> v4_of_bytes bo bs | None \<Rightarrow> v4_default)"

definition make_address_v4_string ::
  "(string \<Rightarrow> bytes4 option) \<Rightarrow> byte_order \<Rightarrow> string \<Rightarrow> address_v4" where
  "make_address_v4_string inet_pton4 bo s = make_address_v4_cstr inet_pton4 bo (c_str s)"

text \<open>The scope id is given as 32 bits and stored as 16.\<close>

definition make_address_v6_bytes :: "u8 list \<Rightarrow> u32 \<Rightarrow> address_v6" where
  "make_address_v6_bytes bs sid = v6_of_bytes bs (ucast sid)"

text \<open>
  The string \<open>str\<close> has no zero in it. The interface name is what follows a percent sign; without
  the name of an interface it is read as a number.
\<close>

definition make_address_v6_cstr ::
  "(string \<Rightarrow> u8 list option) \<Rightarrow> (string \<Rightarrow> u32) \<Rightarrow> string \<Rightarrow> address_v6 option" where
  "make_address_v6_cstr inet_pton6 if_nametoindex str =
     (let p = takeWhile (\<lambda>c. c \<noteq> CHR ''%'') str; if_name = dropWhile (\<lambda>c. c \<noteq> CHR ''%'') str
      in if if_name \<noteq> [] \<and> length p > 46 then Some v6_default
         else case inet_pton6 p of
             None \<Rightarrow> Some v6_default
           | Some addr \<Rightarrow>
               if if_name = [] then Some (v6_of_bytes addr 0)
               else let is_link_local = (addr ! 0 = 0xfe \<and> addr ! 1 AND 0xc0 = 0x80);
                        is_multicast_link_local = (addr ! 0 = 0xff \<and> addr ! 1 = 0x02);
                        sid = (if is_link_local \<or> is_multicast_link_local
                               then ucast (if_nametoindex (tl if_name)) else 0) :: u16
                    in if sid \<noteq> 0 then Some (v6_of_bytes addr sid)
                       else map_option (\<lambda>n. v6_of_bytes addr (word_of_int n)) (atoi (tl if_name)))"

definition make_address_v6_string ::
  "(string \<Rightarrow> u8 list option) \<Rightarrow> (string \<Rightarrow> u32) \<Rightarrow> string \<Rightarrow> address_v6 option" where
  "make_address_v6_string inet_pton6 if_nametoindex s =
     make_address_v6_cstr inet_pton6 if_nametoindex (c_str s)"

definition make_address_v4_mapped :: "byte_order \<Rightarrow> address_v6 \<Rightarrow> address_v4" where
  "make_address_v4_mapped bo a =
     (if \<not> v6_is_v4_mapped a then v4_default
      else let bs = v6_to_bytes a in v4_of_bytes bo (bs ! 12, bs ! 13, bs ! 14, bs ! 15))"

definition make_address_v6_mapped :: "byte_order \<Rightarrow> address_v4 \<Rightarrow> address_v6" where
  "make_address_v6_mapped bo a =
     (case v4_to_bytes bo a of (b0, b1, b2, b3) \<Rightarrow>
        v6_of_bytes (replicate 10 0 @ [0xFF, 0xFF, b0, b1, b2, b3]) 0)"

subsection \<open>Hashes\<close>

text \<open>
  The hash of an unsigned integer is the standard library's, a parameter. Shifting a byte
  gives a byte, so that what is shifted by 8 or more is lost.
\<close>

definition v4_hash :: "(u32 \<Rightarrow> size_t) \<Rightarrow> byte_order \<Rightarrow> address_v4 \<Rightarrow> size_t" where
  "v4_hash hash_uint bo a = hash_uint (v4_to_uint bo a)"

definition combine_4_bytes :: "u8 list \<Rightarrow> nat \<Rightarrow> size_t \<Rightarrow> size_t" where
  "combine_4_bytes bs i seed =
     (let bytes_hash = push_bit 24 (bs ! i) OR push_bit 16 (bs ! (i + 1)) OR push_bit 8 (bs ! (i + 2)) OR
            bs ! (i + 3)
      in seed XOR (ucast bytes_hash + 0x9e3779b9 + push_bit 6 seed + drop_bit 2 seed))"

definition v6_hash :: "address_v6 \<Rightarrow> size_t" where
  "v6_hash a =
     (let bs = v6_to_bytes a
      in combine_4_bytes bs 12 (combine_4_bytes bs 8 (combine_4_bytes bs 4 (combine_4_bytes bs 0
           (ucast (scope_id a))))))"

definition addr_hash :: "(u32 \<Rightarrow> size_t) \<Rightarrow> byte_order \<Rightarrow> ip_address \<Rightarrow> size_t" where
  "addr_hash hash_uint bo a = (case a of Is_V4 x \<Rightarrow> v4_hash hash_uint bo x | Is_V6 x \<Rightarrow> v6_hash x)"

end
