(* ===== verification/Ip_Address_Correct.thy ===== *)
theory Ip_Address_Correct
  imports Ip_Address
begin

text \<open>
  The laws of the addresses: the orders are linear orders, as instances of the type class, the
  conversions are inverse to each other on every machine, and where the order, the hash and the parser
  go wrong.
\<close>

subsection \<open>The comparisons as linear orders\<close>

instantiation address_v4 :: linorder
begin

definition less_eq_address_v4 :: "address_v4 \<Rightarrow> address_v4 \<Rightarrow> bool" where
  "less_eq_address_v4 a b \<longleftrightarrow> \<not> v4_less b a"

definition less_address_v4 :: "address_v4 \<Rightarrow> address_v4 \<Rightarrow> bool" where
  "less_address_v4 a b \<longleftrightarrow> v4_less a b"

instance
  by standard (auto simp: less_eq_address_v4_def less_address_v4_def v4_less_def address_v4.expand)

end

lemma v6_less_iff:
  "v6_less a b \<longleftrightarrow> addr_v6 a < addr_v6 b \<or> addr_v6 a = addr_v6 b \<and> scope_id a < scope_id b"
  by (auto simp: v6_less_def Let_def memcmp_less memcmp_greater)

instantiation address_v6 :: linorder
begin

definition less_eq_address_v6 :: "address_v6 \<Rightarrow> address_v6 \<Rightarrow> bool" where
  "less_eq_address_v6 a b \<longleftrightarrow> v6_less_eq a b"

definition less_address_v6 :: "address_v6 \<Rightarrow> address_v6 \<Rightarrow> bool" where
  "less_address_v6 a b \<longleftrightarrow> v6_less a b"

instance
proof
  fix x y z :: address_v6
  note defs = less_eq_address_v6_def less_address_v6_def v6_less_eq_def v6_less_iff
  show "x < y \<longleftrightarrow> x \<le> y \<and> \<not> y \<le> x" by (auto simp: defs)
  show "x \<le> x" by (simp add: defs)
  show "x \<le> y \<or> y \<le> x" by (auto simp: defs)
  show "x = y" if "x \<le> y" "y \<le> x" using that by (auto simp: defs intro: address_v6.expand)
  show "x \<le> z" if "x \<le> y" "y \<le> z" using that by (auto simp: defs)
qed

end

instantiation ip_address :: linorder
begin

definition less_eq_ip_address :: "ip_address \<Rightarrow> ip_address \<Rightarrow> bool" where
  "less_eq_ip_address a b \<longleftrightarrow> addr_less_eq a b"

definition less_ip_address :: "ip_address \<Rightarrow> ip_address \<Rightarrow> bool" where
  "less_ip_address a b \<longleftrightarrow> addr_less a b"

lemma addr_less_simps:
  "addr_less (Is_V4 x) (Is_V4 y) \<longleftrightarrow> x < y" "addr_less (Is_V6 v) (Is_V6 w) \<longleftrightarrow> v < w"
  "addr_less (Is_V4 x) (Is_V6 w)" "\<not> addr_less (Is_V6 v) (Is_V4 y)"
  by (simp_all add: addr_less_def less_address_v4_def less_address_v6_def)

instance
proof
  fix x y z :: ip_address
  note defs = less_eq_ip_address_def less_ip_address_def addr_less_eq_def addr_less_simps
  show "x < y \<longleftrightarrow> x \<le> y \<and> \<not> y \<le> x" by (cases x; cases y) (auto simp: defs)
  show "x \<le> x" by (cases x) (auto simp: defs)
  show "x \<le> y \<or> y \<le> x" by (cases x; cases y) (auto simp: defs)
  show "x = y" if "x \<le> y" "y \<le> x" using that by (cases x; cases y) (auto simp: defs)
  show "x \<le> z" if "x \<le> y" "y \<le> z" using that by (cases x; cases y; cases z) (auto simp: defs)
qed

end

subsection \<open>Integers, bytes and the order of version 4\<close>

lemma unat_of_net_bytes:
  "unat (of_net_bytes (a, b, c, d)) = unat a * 2 ^ 24 + unat b * 2 ^ 16 + unat c * 2 ^ 8 + unat d"
proof -
  have sum: "of_net_bytes (a, b, c, d) =
      push_bit 24 (ucast a) + (push_bit 16 (ucast b) + (push_bit 8 (ucast c) + ucast d))"
    by (subst disjunctive_add, force simp: bit_simps not_bit_u8)+
      (simp add: of_net_bytes_def ac_simps)
  have "unat a < 2 ^ 8" "unat b < 2 ^ 8" "unat c < 2 ^ 8" "unat d < 2 ^ 8"
    using unsigned_less [of a] unsigned_less [of b] unsigned_less [of c] unsigned_less [of d] by simp_all
  then show ?thesis unfolding sum
    by (simp add: push_bit_eq_mult unat_word_ariths unsigned_ucast_eq take_bit_nat_eq_self)
qed

definition bytes_list :: "bytes4 \<Rightarrow> u8 list" where
  "bytes_list = (\<lambda>(a, b, c, d). [a, b, c, d])"

lemma of_net_bytes_less: "of_net_bytes x < of_net_bytes y \<longleftrightarrow> bytes_list x < bytes_list y"
proof -
  obtain a b c d where x: "x = (a, b, c, d)" by (cases x)
  obtain a' b' c' d' where y: "y = (a', b', c', d')" by (cases y)
  have "unat z < 2 ^ 8" for z :: u8 using unsigned_less [of z] by simp
  from this [of a] this [of b] this [of c] this [of d] this [of a'] this [of b'] this [of c'] this [of d']
  show ?thesis
    by (auto simp: x y bytes_list_def word_less_nat_alt unat_of_net_bytes word_unat_eq_iff)
qed

lemma mask_byte:
  "of_net_bytes (a, b, c, d) AND 0xFF000000 = push_bit 24 (ucast a)"
  "of_net_bytes (a, b, c, d) AND 0xF0000000 = push_bit 28 (ucast (drop_bit 4 a))"
proof -
  have m: "(0xFF000000 :: u32) = push_bit 24 (mask 8)" "(0xF0000000 :: u32) = push_bit 28 (mask 4)"
    by (simp_all add: mask_eq_exp_minus_1 push_bit_eq_mult)
  show "of_net_bytes (a, b, c, d) AND 0xFF000000 = push_bit 24 (ucast a)"
    unfolding m of_net_bytes_def by (rule bit_word_eqI) (auto simp: bit_simps not_bit_u8)
  show "of_net_bytes (a, b, c, d) AND 0xF0000000 = push_bit 28 (ucast (drop_bit 4 a))"
    unfolding m of_net_bytes_def
    by (rule bit_word_eqI) (auto simp: bit_simps not_bit_u8 le_diff_conv2 not_le)
qed

lemma push_bit_byte_eq:
  fixes b :: u8
  shows "push_bit 24 (ucast b) = (0x7F000000 :: u32) \<longleftrightarrow> b = 127"
    "push_bit 28 (ucast (drop_bit 4 b)) = (0xE0000000 :: u32) \<longleftrightarrow> drop_bit 4 b = 14"
proof -
  have shift: "drop_bit 24 (push_bit 24 (ucast b :: u32)) = ucast b"
    "drop_bit 28 (push_bit 28 (ucast (drop_bit 4 b) :: u32)) = ucast (drop_bit 4 b)"
    by (rule bit_word_eqI, auto simp: bit_simps dest: bit_u8_less)+
  have inj: "ucast x = (ucast y :: u32) \<longleftrightarrow> x = y" for x y :: u8
    by (rule iffI, rule bit_word_eqI) (auto simp: bit_eq_iff [of "ucast x"] bit_simps)
  show "push_bit 24 (ucast b) = (0x7F000000 :: u32) \<longleftrightarrow> b = 127"
  proof
    assume "push_bit 24 (ucast b) = (0x7F000000 :: u32)"
    then have "ucast b = (ucast (127 :: u8) :: u32)" using shift(1) by simp
    then show "b = 127" by (simp only: inj)
  qed simp
  show "push_bit 28 (ucast (drop_bit 4 b)) = (0xE0000000 :: u32) \<longleftrightarrow> drop_bit 4 b = 14"
  proof
    assume "push_bit 28 (ucast (drop_bit 4 b)) = (0xE0000000 :: u32)"
    then have "ucast (drop_bit 4 b) = (ucast (14 :: u8) :: u32)" using shift(2) by simp
    then show "drop_bit 4 b = 14" by (simp only: inj)
  qed simp
qed

lemma v4_bytes [simp]: "v4_to_bytes bo (v4_of_bytes bo bs) = bs" "v4_of_bytes bo (v4_to_bytes bo a) = a"
  by (simp_all add: v4_to_bytes_def v4_of_bytes_def)

lemma v4_to_uint_bytes: "v4_to_uint bo a = of_net_bytes (v4_to_bytes bo a)"
  by (simp add: v4_to_uint_def v4_to_bytes_def ntohl_def)

lemma mapped_bytes:
  "v4_to_bytes bo a = (b0, b1, b2, b3) \<Longrightarrow> make_address_v6_mapped bo a =
     Address_V6 [0, 0, 0, 0, 0, 0, 0, 0, 0, 0, 0xFF, 0xFF, b0, b1, b2, b3] 0"
  by (simp add: make_address_v6_mapped_def v6_of_bytes_def numeral_eq_Suc)

lemma mapped_bytes_obtain:
  obtains b0 b1 b2 b3 where "v4_to_bytes bo a = (b0, b1, b2, b3)"
    "make_address_v6_mapped bo a = Address_V6 [0, 0, 0, 0, 0, 0, 0, 0, 0, 0, 0xFF, 0xFF, b0, b1, b2, b3] 0"
  using mapped_bytes by (metis prod_cases4)

lemma length_16:
  "length xs = 16 \<Longrightarrow> xs = [xs ! 0, xs ! 1, xs ! 2, xs ! 3, xs ! 4, xs ! 5, xs ! 6, xs ! 7,
     xs ! 8, xs ! 9, xs ! 10, xs ! 11, xs ! 12, xs ! 13, xs ! 14, xs ! 15]"
  by (auto simp: numeral_eq_Suc length_Suc_conv)

text \<open>Remark (v4_roundtrip). An IPv4 address made from an integer or from bytes gives them back, and its bytes are those of the
  integer in network order, on machines of either byte order. The loopback addresses are 127.0.0.0/8
  and the multicast addresses 224.0.0.0/4.\<close>

theorem v4_roundtrip:
  "v4_to_uint bo (v4_of_uint bo u) = u \<and> v4_to_bytes bo (v4_of_uint bo u) = net_bytes u \<and>
   v4_to_bytes bo (v4_of_bytes bo bs) = bs \<and> v4_of_bytes bo (v4_to_bytes bo a) = a \<and>
   v4_to_uint bo (v4_of_bytes bo bs) = of_net_bytes bs \<and>
   v4_is_loopback bo (v4_of_bytes bo (b0, b1, b2, b3)) = (b0 = 127) \<and>
   v4_is_multicast bo (v4_of_bytes bo (b0, b1, b2, b3)) = (drop_bit 4 b0 = 14) \<and>
   v4_is_loopback bo (v4_loopback bo) \<and> v4_is_unspecified bo (v4_any bo)"
  by (simp add: v4_to_uint_def v4_of_uint_def v4_to_bytes_def v4_of_bytes_def v4_is_loopback_def
      v4_is_multicast_def v4_is_unspecified_def v4_loopback_def v4_any_def mask_byte push_bit_byte_eq)

text \<open>Remark (v4_mapped). An IPv4 address is mapped into the IPv6 addresses and back without loss, and every mapped IPv6
  address is the image of its IPv4 address, except for its scope.\<close>

theorem v4_mapped_roundtrip:
  assumes "length (addr_v6 w) = 16"
  shows "v6_is_v4_mapped (make_address_v6_mapped bo a) \<and>
    v6_to_v4 bo (make_address_v6_mapped bo a) = a \<and>
    make_address_v6_mapped bo (v6_to_v4 bo w) =
      (if v6_is_v4_mapped w then v6_set_scope_id 0 w else make_address_v6_mapped bo v4_default)"
proof -
  obtain b0 b1 b2 b3 where b: "v4_to_bytes bo a = (b0, b1, b2, b3)"
    "make_address_v6_mapped bo a = Address_V6 [0, 0, 0, 0, 0, 0, 0, 0, 0, 0, 0xFF, 0xFF, b0, b1, b2, b3] 0"
    by (rule mapped_bytes_obtain)
  have map: "v6_is_v4_mapped (make_address_v6_mapped bo a)"
    by (simp add: b v6_is_v4_mapped_def s6_addr_def numeral_eq_Suc)
  then have "v6_to_v4 bo (make_address_v6_mapped bo a) = v4_of_bytes bo (v4_to_bytes bo a)"
    by (simp add: v6_to_v4_def v6_to_bytes_def b)
  moreover have "make_address_v6_mapped bo (v6_to_v4 bo w) = v6_set_scope_id 0 w" if "v6_is_v4_mapped w"
  proof -
    let ?bs = "addr_v6 w"
    have "v6_to_v4 bo w = v4_of_bytes bo (?bs ! 12, ?bs ! 13, ?bs ! 14, ?bs ! 15)"
      using that by (simp add: v6_to_v4_def v6_to_bytes_def Let_def)
    then have "make_address_v6_mapped bo (v6_to_v4 bo w) = Address_V6
        [0, 0, 0, 0, 0, 0, 0, 0, 0, 0, 0xFF, 0xFF, ?bs ! 12, ?bs ! 13, ?bs ! 14, ?bs ! 15] 0"
      by (intro mapped_bytes) simp
    moreover have "?bs = [0, 0, 0, 0, 0, 0, 0, 0, 0, 0, 0xFF, 0xFF, ?bs ! 12, ?bs ! 13, ?bs ! 14, ?bs ! 15]"
      using length_16 [OF assms] that by (simp add: v6_is_v4_mapped_def s6_addr_def)
    ultimately show ?thesis by (simp add: v6_set_scope_id_def)
  qed
  moreover have "v6_to_v4 bo w = v4_default" if "\<not> v6_is_v4_mapped w" using that by (simp add: v6_to_v4_def)
  ultimately show ?thesis using map by simp
qed

theorem v4_mapped_roundtrip_witness:
  "v6_to_v4 Little_Endian (make_address_v6_mapped Little_Endian (Address_V4 5)) = Address_V4 5"
  using v4_mapped_roundtrip [of v6_default Little_Endian "Address_V4 5"] by (simp add: v6_default_def)

text \<open>Remark (addr_order). The order of the IPv6 addresses is the order of their bytes, then of their scopes, so that on the mapped
  addresses it is the numeric order of the IPv4 addresses. The order of the IPv4 addresses themselves
  is that of the stored words: on a little-endian machine it is a different one.\<close>

theorem address_orders:
  "v6_less (make_address_v6_mapped bo a) (make_address_v6_mapped bo b) = (v4_to_uint bo a < v4_to_uint bo b) \<and>
   v4_less x y = (v4_to_uint Big_Endian x < v4_to_uint Big_Endian y) \<and>
   addr_less (Is_V4 (v4_of_bytes Little_Endian (10, 0, 1, 0))) (Is_V4 (v4_of_bytes Little_Endian (10, 0, 0, 1))) \<and>
   v4_to_uint Little_Endian (v4_of_bytes Little_Endian (10, 0, 0, 1)) <
     v4_to_uint Little_Endian (v4_of_bytes Little_Endian (10, 0, 1, 0))"
proof -
  obtain a0 a1 a2 a3 where a: "v4_to_bytes bo a = (a0, a1, a2, a3)"
    "make_address_v6_mapped bo a = Address_V6 [0, 0, 0, 0, 0, 0, 0, 0, 0, 0, 0xFF, 0xFF, a0, a1, a2, a3] 0"
    by (rule mapped_bytes_obtain)
  obtain b0 b1 b2 b3 where b: "v4_to_bytes bo b = (b0, b1, b2, b3)"
    "make_address_v6_mapped bo b = Address_V6 [0, 0, 0, 0, 0, 0, 0, 0, 0, 0, 0xFF, 0xFF, b0, b1, b2, b3] 0"
    by (rule mapped_bytes_obtain)
  have "v6_less (make_address_v6_mapped bo a) (make_address_v6_mapped bo b) =
      (v4_to_uint bo a < v4_to_uint bo b)"
    by (simp add: v4_to_uint_bytes of_net_bytes_less a b bytes_list_def v6_less_iff)
  moreover have "v4_less x y = (v4_to_uint Big_Endian x < v4_to_uint Big_Endian y)"
    by (simp add: v4_less_def v4_to_uint_def ntohl_def mem_bytes_def)
  moreover have "addr_less (Is_V4 (v4_of_bytes Little_Endian (10, 0, 1, 0)))
      (Is_V4 (v4_of_bytes Little_Endian (10, 0, 0, 1)))"
    by (simp add: addr_less_def v4_less_def v4_of_bytes_def of_mem_bytes_def of_net_bytes_less
        swap_bytes_def bytes_list_def)
  moreover have "v4_to_uint Little_Endian (v4_of_bytes Little_Endian (10, 0, 0, 1)) <
      v4_to_uint Little_Endian (v4_of_bytes Little_Endian (10, 0, 1, 0))"
    by (simp add: v4_to_uint_bytes of_net_bytes_less bytes_list_def)
  ultimately show ?thesis by blast
qed

text \<open>Remark (v6_hash). The hash of an IPv6 address ignores three of every four bytes: addresses that agree in the other four
  and in the scope collide, such as all addresses \<open>2001:0db8:x:0:0:0:0:1\<close> with the same last byte of \<open>x\<close>.\<close>

theorem v6_hash_collides:
  assumes "\<forall>i \<in> {3, 7, 11, 15}. addr_v6 a ! i = addr_v6 b ! i" "scope_id a = scope_id b"
  shows "v6_hash a = v6_hash b"
  using assms by (simp add: v6_hash_def combine_4_bytes_def Let_def v6_to_bytes_def)

theorem v6_hash_collides_witness:
  "v6_hash (Address_V6 [0x20, 1, 0xd, 0xb8, 0, 1, 0, 0, 0, 0, 0, 0, 0, 0, 0, 1] 0) =
   v6_hash (Address_V6 [0x20, 1, 0xd, 0xb8, 0, 2, 0, 0, 0, 0, 0, 0, 0, 0, 0, 1] 0)"
  by (rule v6_hash_collides) simp_all

text \<open>Remark (v6_scope). The interface name after a link-local multicast address is looked up only if its flags are zero,
  although the address is link-local to \<^verbatim>\<open>is_multicast_link_local\<close> with any flags; and an interface index of more
  than 16 bits is cut off.\<close>

theorem v6_scope_lost:
  assumes "inet_pton6 ''ff12::1'' = Some addr" "addr = [0xff, 0x12, 0, 0, 0, 0, 0, 0, 0, 0, 0, 0, 0, 0, 0, 1]"
    and "inet_pton6 ''fe80::1'' = Some link" "link = [0xfe, 0x80, 0, 0, 0, 0, 0, 0, 0, 0, 0, 0, 0, 0, 0, 1]"
  shows "make_address_v6_cstr inet_pton6 if_nametoindex ''ff12::1%eth0'' = Some (Address_V6 addr 0) \<and>
    v6_is_multicast_link_local (Address_V6 addr 0) \<and>
    make_address_v6_cstr inet_pton6 (\<lambda>_. 0x10002) ''fe80::1%eth0'' = Some (Address_V6 link 2)"
  using assms by (simp add: make_address_v6_cstr_def Let_def atoi_def is_space_def is_digit_def v6_of_bytes_def v6_is_multicast_link_local_def s6_addr_def)

theorem v6_scope_lost_witness:
  "make_address_v6_cstr
     (map_of [(''ff12::1'', [0xff, 0x12, 0, 0, 0, 0, 0, 0, 0, 0, 0, 0, 0, 0, 0, 1]),
        (''fe80::1'', [0xfe, 0x80, 0, 0, 0, 0, 0, 0, 0, 0, 0, 0, 0, 0, 0, 1])])
     (\<lambda>_. 0x10002) ''fe80::1%eth0'' =
   Some (Address_V6 [0xfe, 0x80, 0, 0, 0, 0, 0, 0, 0, 0, 0, 0, 0, 0, 0, 1] 2)"
  using v6_scope_lost [of "map_of [(''ff12::1'', [0xff, 0x12, 0, 0, 0, 0, 0, 0, 0, 0, 0, 0, 0, 0, 0, 1]),
      (''fe80::1'', [0xfe, 0x80, 0, 0, 0, 0, 0, 0, 0, 0, 0, 0, 0, 0, 0, 1])]" _ _ "\<lambda>_. 0"]
  by simp

end
