(* ===== verification/Ip_Endpoint.thy ===== *)
theory Ip_Endpoint
  imports Ip_Address_Correct
begin

text \<open>
  Endpoints and protocols: \<^verbatim>\<open>ip/endpoint.hpp\<close>, \<^verbatim>\<open>ip/tcp.hpp\<close>, \<^verbatim>\<open>ip/udp.hpp\<close>, \<^verbatim>\<open>local/endpoint.hpp\<close>,
  \<^verbatim>\<open>local/stream_protocol.hpp\<close>, \<^verbatim>\<open>can/endpoint.hpp\<close> and \<^verbatim>\<open>can/raw_protocol.hpp\<close>.

  An IP endpoint is a union of socket addresses. It is modelled by the member that was written:
  \<open>No_Addr\<close> is the union as it is created, all zero, and reading an address or a port from it is undefined.
\<close>

subsection \<open>Constants of the system\<close>

definition AF_LOCAL :: int where "AF_LOCAL = 1"
definition AF_INET :: int where "AF_INET = 2"
definition AF_INET6 :: int where "AF_INET6 = 10"
definition PF_CAN :: int where "PF_CAN = 29"
definition SOCK_STREAM :: int where "SOCK_STREAM = 1"
definition SOCK_DGRAM :: int where "SOCK_DGRAM = 2"
definition SOCK_RAW :: int where "SOCK_RAW = 3"
definition IPPROTO_TCP :: int where "IPPROTO_TCP = 6"
definition IPPROTO_UDP :: int where "IPPROTO_UDP = 17"
definition CAN_RAW :: int where "CAN_RAW = 1"

lemmas socket_constants = AF_LOCAL_def AF_INET_def AF_INET6_def PF_CAN_def SOCK_STREAM_def
  SOCK_DGRAM_def SOCK_RAW_def IPPROTO_TCP_def IPPROTO_UDP_def CAN_RAW_def

subsection \<open>IP endpoints\<close>

text \<open>The ports and the version 4 address are as they lie in memory; a version 6 scope is never written.\<close>

datatype endpoint =
  No_Addr
| Sockaddr_In (sin_port: u16) (sin_addr: u32)
| Sockaddr_In6 (sin6_port: u16) (sin6_addr: "u8 list") (sin6_scope_id: u32)

definition ep_default :: endpoint where
  "ep_default = No_Addr"

definition ep_of_family :: "byte_order \<Rightarrow> int \<Rightarrow> u16 \<Rightarrow> endpoint" where
  "ep_of_family bo fam port =
     (if fam = AF_INET then Sockaddr_In (htons bo port) 0
      else if fam = AF_INET6 then Sockaddr_In6 (htons bo port) (replicate 16 0) 0
      else No_Addr)"

definition ep_of_address :: "byte_order \<Rightarrow> ip_address \<Rightarrow> u16 \<Rightarrow> endpoint" where
  "ep_of_address bo addr port =
     (case addr of
        Is_V4 a \<Rightarrow> Sockaddr_In (htons bo port) (of_mem_bytes bo (v4_to_bytes bo a))
      | Is_V6 a \<Rightarrow> Sockaddr_In6 (htons bo port) (v6_to_bytes a) 0)"

fun ep_is_v4 :: "endpoint \<Rightarrow> bool" where
  "ep_is_v4 (Sockaddr_In _ _) = True"
| "ep_is_v4 _ = False"

fun ep_port :: "byte_order \<Rightarrow> endpoint \<Rightarrow> u16 option" where
  "ep_port bo (Sockaddr_In p _) = Some (ntohs bo p)"
| "ep_port bo (Sockaddr_In6 p _ _) = Some (ntohs bo p)"
| "ep_port bo No_Addr = None"

fun ep_address :: "byte_order \<Rightarrow> endpoint \<Rightarrow> ip_address option" where
  "ep_address bo (Sockaddr_In _ a) = Some (Is_V4 (v4_of_bytes bo (mem_bytes bo a)))"
| "ep_address bo (Sockaddr_In6 _ a _) = Some (Is_V6 (v6_of_bytes a 0))"
| "ep_address bo No_Addr = None"

text \<open>The sizes of \<^verbatim>\<open>sockaddr_in\<close> and \<^verbatim>\<open>sockaddr_in6\<close>.\<close>

definition ep_size :: "endpoint \<Rightarrow> size_t" where
  "ep_size e = (if ep_is_v4 e then 16 else 28)"

definition ep_eq :: "byte_order \<Rightarrow> endpoint \<Rightarrow> endpoint \<Rightarrow> bool option" where
  "ep_eq bo e1 e2 = do {
     a1 \<leftarrow> ep_address bo e1;
     a2 \<leftarrow> ep_address bo e2;
     if a1 \<noteq> a2 then Some False
     else do {
       p1 \<leftarrow> ep_port bo e1;
       p2 \<leftarrow> ep_port bo e2;
       Some (p1 = p2)
     }
   }"

definition ep_less :: "byte_order \<Rightarrow> endpoint \<Rightarrow> endpoint \<Rightarrow> bool option" where
  "ep_less bo e1 e2 = do {
     a1 \<leftarrow> ep_address bo e1;
     a2 \<leftarrow> ep_address bo e2;
     if addr_less a1 a2 then Some True
     else if a1 \<noteq> a2 then Some False
     else do {
       p1 \<leftarrow> ep_port bo e1;
       p2 \<leftarrow> ep_port bo e2;
       Some (p1 < p2)
     }
   }"

definition ep_less_eq :: "byte_order \<Rightarrow> endpoint \<Rightarrow> endpoint \<Rightarrow> bool option" where
  "ep_less_eq bo e1 e2 = map_option Not (ep_less bo e2 e1)"

definition ep_hash ::
  "(u32 \<Rightarrow> size_t) \<Rightarrow> (u16 \<Rightarrow> size_t) \<Rightarrow> byte_order \<Rightarrow> endpoint \<Rightarrow> size_t option" where
  "ep_hash hash_uint hash_port bo e = do {
     a \<leftarrow> ep_address bo e;
     p \<leftarrow> ep_port bo e;
     let hash1 = addr_hash hash_uint bo a;
     let hash2 = hash_port p;
     Some (hash1 XOR (hash2 + 0x9e3779b9 + push_bit 6 hash1 + drop_bit 2 hash1))
   }"

subsection \<open>Protocols\<close>

record protocol =
  proto_type :: int
  proto_protocol :: int
  proto_family :: int

definition tcp :: "int \<Rightarrow> protocol" where
  "tcp fam = \<lparr>proto_type = SOCK_STREAM, proto_protocol = IPPROTO_TCP, proto_family = fam\<rparr>"

definition tcp_v4 :: protocol where "tcp_v4 = tcp AF_INET"
definition tcp_v6 :: protocol where "tcp_v6 = tcp AF_INET6"

definition udp :: "int \<Rightarrow> protocol" where
  "udp fam = \<lparr>proto_type = SOCK_DGRAM, proto_protocol = IPPROTO_UDP, proto_family = fam\<rparr>"

definition udp_v4 :: protocol where "udp_v4 = udp AF_INET"
definition udp_v6 :: protocol where "udp_v6 = udp AF_INET6"

definition stream_protocol :: protocol where
  "stream_protocol = \<lparr>proto_type = SOCK_STREAM, proto_protocol = 0, proto_family = AF_LOCAL\<rparr>"

definition raw_protocol :: protocol where
  "raw_protocol = \<lparr>proto_type = SOCK_RAW, proto_protocol = CAN_RAW, proto_family = PF_CAN\<rparr>"

definition proto_eq :: "protocol \<Rightarrow> protocol \<Rightarrow> bool" where
  "proto_eq p1 p2 \<longleftrightarrow> proto_family p1 = proto_family p2"

subsection \<open>Local and CAN endpoints\<close>

text \<open>The path lies in an array of 108 characters, which \<open>local_endpoint\<close> gives whole; it was zero before.\<close>

definition local_endpoint :: "string \<Rightarrow> string" where
  "local_endpoint path =
     (let len = min (length path) (108 - 1)
      in take len path @ CHR 0x00 # replicate (108 - 1 - len) (CHR 0x00))"

definition local_path :: "string \<Rightarrow> string" where
  "local_path sun_path = c_str sun_path"

definition can_endpoint :: "int \<Rightarrow> int \<times> int" where
  "can_endpoint ifindex = (PF_CAN, ifindex)"

definition can_eq :: "int \<times> int \<Rightarrow> int \<times> int \<Rightarrow> bool" where
  "can_eq e1 e2 \<longleftrightarrow> e1 = e2"

subsection \<open>Correctness\<close>

text \<open>Remark (endpoint). An endpoint gives back the port and the address it was made from, on machines of either byte order,
  except for the scope of an IPv6 address, which it loses.\<close>

theorem endpoint_roundtrip:
  "ep_port bo (ep_of_address bo a p) = Some p \<and>
   ep_address bo (ep_of_address bo (Is_V4 x) p) = Some (Is_V4 x) \<and>
   ep_address bo (ep_of_address bo (Is_V6 y) p) = Some (Is_V6 (v6_set_scope_id 0 y)) \<and>
   ep_port bo (ep_of_family bo AF_INET p) = Some p \<and> ep_port bo (ep_of_family bo AF_INET6 p) = Some p \<and>
   ep_address bo (ep_of_family bo AF_INET p) = Some (Is_V4 (v4_any bo)) \<and>
   ep_address bo (ep_of_family bo AF_INET6 p) = Some (Is_V6 v6_any)"
proof -
  have "v4_any bo = Address_V4 0"
    by (cases bo) (simp_all add: v4_any_def v4_of_uint_def htonl_def net_bytes_def of_mem_bytes_def
        of_net_bytes_def swap_bytes_def)
  then show ?thesis
    by (auto simp: ep_of_address_def ep_of_family_def v6_of_bytes_def v6_to_bytes_def v6_set_scope_id_def
        v4_of_bytes_def v4_to_bytes_def v6_any_def v6_default_def socket_constants split: ip_address.split)
qed

lemma ep_defined: "e \<noteq> No_Addr \<Longrightarrow> \<exists>a p. ep_address bo e = Some a \<and> ep_port bo e = Some p"
  by (cases e) simp_all

text \<open>Remark (endpoint_order). On endpoints that have an address the comparisons are defined and make a linear order: of the
  addresses, and of the ports where the addresses agree; endpoints that are equal have the same hash.\<close>

theorem endpoint_order:
  assumes "e1 \<noteq> No_Addr" "e2 \<noteq> No_Addr" "e3 \<noteq> No_Addr"
  shows "(\<exists>l g e. ep_less bo e1 e2 = Some l \<and> ep_less bo e2 e1 = Some g \<and> ep_eq bo e1 e2 = Some e \<and>
      length (filter id [l, g, e]) = 1) \<and>
    (ep_less bo e1 e2 = Some True \<and> ep_less bo e2 e3 = Some True \<longrightarrow> ep_less bo e1 e3 = Some True) \<and>
    (ep_eq bo e1 e2 = Some True \<longrightarrow> ep_hash hu hp bo e1 = ep_hash hu hp bo e2)"
proof -
  obtain a1 p1 where 1: "ep_address bo e1 = Some a1" "ep_port bo e1 = Some p1"
    using ep_defined assms(1) by blast
  obtain a2 p2 where 2: "ep_address bo e2 = Some a2" "ep_port bo e2 = Some p2"
    using ep_defined assms(2) by blast
  obtain a3 p3 where 3: "ep_address bo e3 = Some a3" "ep_port bo e3 = Some p3"
    using ep_defined assms(3) by blast
  have less: "addr_less a b \<longleftrightarrow> a < b" for a b by (simp add: less_ip_address_def)
  have lt: "ep_less bo e1 e2 = Some (a1 < a2 \<or> a1 = a2 \<and> p1 < p2)"
    "ep_less bo e2 e1 = Some (a2 < a1 \<or> a2 = a1 \<and> p2 < p1)"
    "ep_less bo e2 e3 = Some (a2 < a3 \<or> a2 = a3 \<and> p2 < p3)"
    "ep_less bo e1 e3 = Some (a1 < a3 \<or> a1 = a3 \<and> p1 < p3)"
    by (simp_all add: ep_less_def less 1 2 3)
  have eq: "ep_eq bo e1 e2 = Some (a1 = a2 \<and> p1 = p2)" by (simp add: ep_eq_def 1 2)
  show ?thesis
  proof (intro conjI impI)
    show "\<exists>l g e. ep_less bo e1 e2 = Some l \<and> ep_less bo e2 e1 = Some g \<and> ep_eq bo e1 e2 = Some e \<and>
        length (filter id [l, g, e]) = 1"
      unfolding lt eq
      by (intro exI conjI, (rule refl)+) (use less_linear [of a1 a2] less_linear [of p1 p2] in auto)
    assume "ep_less bo e1 e2 = Some True \<and> ep_less bo e2 e3 = Some True"
    then show "ep_less bo e1 e3 = Some True" unfolding lt by auto
  next
    assume "ep_eq bo e1 e2 = Some True"
    then show "ep_hash hu hp bo e1 = ep_hash hu hp bo e2" by (auto simp: eq ep_hash_def 1 2)
  qed
qed

theorem endpoint_order_witness:
  "\<exists>l g e. ep_less Little_Endian (Sockaddr_In 1 2) (Sockaddr_In 1 3) = Some l \<and>
     ep_less Little_Endian (Sockaddr_In 1 3) (Sockaddr_In 1 2) = Some g \<and>
     ep_eq Little_Endian (Sockaddr_In 1 2) (Sockaddr_In 1 3) = Some e \<and> length (filter id [l, g, e]) = 1"
  using endpoint_order [of "Sockaddr_In 1 2" "Sockaddr_In 1 3" "Sockaddr_In 1 2" Little_Endian] by blast

text \<open>Remark (local_path). The path of a local endpoint is the path it was made from up to its first zero, and not more than 107
  characters of it: a longer path is cut off without an error, and an abstract name becomes empty.\<close>

theorem local_endpoint_path:
  "length (local_endpoint path) = 108 \<and> local_path (local_endpoint path) = take 107 (c_str path) \<and>
   local_path (local_endpoint (CHR 0x00 # name)) = []"
proof -
  have "c_str (take n xs @ CHR 0x00 # ys) = take n (c_str xs)" for n xs ys
  proof (induction xs arbitrary: n)
    case (Cons x xs)
    then show ?case by (cases n) (auto simp: c_str_def)
  qed (simp add: c_str_def)
  from this [of "min (length path) 107" path] this [of "min (length (CHR 0x00 # name)) 107" "CHR 0x00 # name"]
  have "local_path (local_endpoint path) = take (min (length path) 107) (c_str path)"
    "local_path (local_endpoint (CHR 0x00 # name)) = []"
    by (simp_all add: local_endpoint_def local_path_def Let_def) (simp_all add: c_str_def)
  moreover have "take (min (length path) 107) (c_str path) = take 107 (c_str path)"
    using length_takeWhile_le [of "\<lambda>c. c \<noteq> CHR 0x00" path] by (auto simp: c_str_def min_def)
  ultimately show ?thesis by (simp add: local_endpoint_def Let_def)
qed

end
