(* ===== verification/Io_Uring_Socket.thy ===== *)
theory Io_Uring_Socket
  imports Io_Uring Ip_Endpoint
begin

text \<open>
  \<^verbatim>\<open>io_uring/socket_handle.hpp\<close>: sockets, connections and acceptors. The results of the system calls
  \<^verbatim>\<open>socket\<close>, \<^verbatim>\<open>setsockopt\<close>, \<^verbatim>\<open>bind\<close> and \<^verbatim>\<open>listen\<close> are arguments, as are the addresses of objects in memory.
\<close>

record ('c, 'p) socket_handle =
  sk_handle :: "'c native_fd_handle"
  sk_protocol :: 'p

subsection \<open>Opening a socket\<close>

text \<open>The operation is ready at once: it submits nothing, and completes with the call of \<^verbatim>\<open>socket\<close>.\<close>

definition socket_ready :: bool where
  "socket_ready = True"

definition socket_complete ::
  "'c \<Rightarrow> protocol \<Rightarrow> (protocol \<Rightarrow> int) \<Rightarrow> int \<Rightarrow> (('c, protocol) socket_handle, int) signal" where
  "socket_complete ctx proto socket_call errno =
     (let rc = socket_call proto
      in if rc = - 1 then Set_Error errno
         else Set_Value \<lparr>sk_handle = \<lparr>h_context = Some ctx, h_fd = rc\<rparr>, sk_protocol = proto\<rparr>)"

subsection \<open>Connecting and sending\<close>

definition connect_submit :: "int \<Rightarrow> u64 \<Rightarrow> size_t \<Rightarrow> sqe" where
  "connect_submit fd ep_data ep_sz = (sqe_zero Op_Connect)\<lparr>sqe_fd := fd, sqe_addr := ep_data, sqe_off := ep_sz\<rparr>"

definition connect_complete :: "int \<Rightarrow> (unit, int) signal" where
  "connect_complete res = (if res = 0 then Set_Value () else Set_Error (- res))"

definition sendmsg_submit :: "int \<Rightarrow> u64 \<Rightarrow> sqe" where
  "sendmsg_submit fd msg = (sqe_zero Op_Sendmsg)\<lparr>sqe_fd := fd, sqe_addr := msg\<rparr>"

definition sendmsg_complete :: "int \<Rightarrow> (int, int) signal" where
  "sendmsg_complete res = (if res \<ge> 0 then Set_Value res else Set_Error (- res))"

text \<open>\<^verbatim>\<open>bind\<close> throws the error number.\<close>

definition socket_bind :: "int \<Rightarrow> int \<Rightarrow> int + unit" where
  "socket_bind rc errno = (if rc = - 1 then Inl errno else Inr ())"

subsection \<open>Accepting\<close>

definition accept_submit :: "int \<Rightarrow> u64 \<Rightarrow> u64 \<Rightarrow> sqe" where
  "accept_submit fd ep_data addrlen_ptr =
     (sqe_zero Op_Accept)\<lparr>sqe_fd := fd, sqe_addr := ep_data, sqe_addr2 := addrlen_ptr\<rparr>"

definition accept_complete :: "'c \<Rightarrow> 'p \<Rightarrow> int \<Rightarrow> (('c, 'p) socket_handle, int) signal" where
  "accept_complete ctx proto res =
     (if res \<ge> 0 then Set_Value \<lparr>sk_handle = \<lparr>h_context = Some ctx, h_fd = res\<rparr>, sk_protocol = proto\<rparr>
      else Set_Error (- res))"

record ('c, 'p, 'ep) acceptor_handle =
  ac_handle :: "'c native_fd_handle"
  ac_protocol :: 'p
  ac_endpoint :: 'ep

record ('c, 'p, 'ep) accept_sender =
  as_context :: "'c ptr"
  as_fd :: int
  as_protocol :: 'p
  as_endpoint :: 'ep

definition accept_once :: "('c, 'p, 'ep) acceptor_handle \<Rightarrow> ('c, 'p, 'ep) accept_sender" where
  "accept_once a = \<lparr>as_context = h_context (ac_handle a), as_fd = h_fd (ac_handle a),
     as_protocol = ac_protocol a, as_endpoint = ac_endpoint a\<rparr>"

text \<open>
  Opening an acceptor opens a socket and then makes three calls, whose return codes are \<open>rcs\<close>. A code
  that is not zero is thrown as an error of its own value. The state is the set of open
  descriptors: nothing closes the socket when a call fails. The error is that of the socket (\<open>Inl\<close>) or
  the exception (\<open>Inr\<close>).
\<close>

definition throw_on_error :: "int \<Rightarrow> int + unit" where
  "throw_on_error rc = (if rc \<noteq> 0 then Inl rc else Inr ())"

definition setup_calls :: "int \<times> int \<times> int \<Rightarrow> int + unit" where
  "setup_calls rcs = (case rcs of (setsockopt_rc, bind_rc, listen_rc) \<Rightarrow>
     (case throw_on_error setsockopt_rc of
        Inl ec \<Rightarrow> Inl ec
      | Inr _ \<Rightarrow> (case throw_on_error bind_rc of
          Inl ec \<Rightarrow> Inl ec
        | Inr _ \<Rightarrow> throw_on_error listen_rc)))"

definition acceptor_open ::
  "'c \<Rightarrow> protocol \<Rightarrow> 'ep \<Rightarrow> (protocol \<Rightarrow> int) \<Rightarrow> int \<Rightarrow> int \<times> int \<times> int \<Rightarrow> int set \<Rightarrow>
     (('c, protocol, 'ep) acceptor_handle, int + int) signal \<times> int set" where
  "acceptor_open ctx proto ep socket_call errno rcs fds =
     (case socket_complete ctx proto socket_call errno of
        Set_Error ec \<Rightarrow> (Set_Error (Inl ec), fds)
      | Set_Stopped \<Rightarrow> (Set_Stopped, fds)
      | Set_Value sk \<Rightarrow>
          (case setup_calls rcs of
             Inl ec \<Rightarrow> (Set_Error (Inr ec), insert (h_fd (sk_handle sk)) fds)
           | Inr _ \<Rightarrow>
               (Set_Value \<lparr>ac_handle = \<lparr>h_context = Some ctx, h_fd = h_fd (sk_handle sk)\<rparr>,
                  ac_protocol = proto, ac_endpoint = ep\<rparr>, insert (h_fd (sk_handle sk)) fds)))"

text \<open>Remark (acceptor). Opening an acceptor gives an acceptor on the new socket when every call succeeds. When a call fails,
  the error is -1, which is no error number, whatever \<^verbatim>\<open>errno\<close> is, and the socket stays open although
  no one has its descriptor.\<close>

theorem acceptor_open_leaks:
  assumes "socket_call proto = fd" "fd \<ge> 0" "rcs \<in> {0, - 1} \<times> {0, - 1} \<times> {0, - 1}"
  shows "acceptor_open ctx proto ep socket_call errno rcs fds =
    (if rcs = (0, 0, 0)
     then (Set_Value \<lparr>ac_handle = \<lparr>h_context = Some ctx, h_fd = fd\<rparr>, ac_protocol = proto, ac_endpoint = ep\<rparr>,
       insert fd fds)
     else (Set_Error (Inr (- 1)), insert fd fds))"
  using assms by (auto simp: acceptor_open_def socket_complete_def setup_calls_def throw_on_error_def)

theorem acceptor_open_leaks_witness:
  "acceptor_open () tcp_v4 (Sockaddr_In 80 0) (\<lambda>_. 7) 98 (0, - 1, 0) {} = (Set_Error (Inr (- 1)), {7})"
  by (subst acceptor_open_leaks [of _ _ 7]) simp_all

end
