(* ===== verification/Io_Uring_Operations.thy ===== *)
theory Io_Uring_Operations
  imports Io_Uring_Correct Io_Uring_Socket
begin

text \<open>
  The senders of \<^verbatim>\<open>io_uring/file_handle.hpp\<close> and \<^verbatim>\<open>io_uring/socket_handle.hpp\<close>, and the operations that
  connecting them makes.

  An operation state is on a context, says whether it is ready without the ring, and has the functions
  \<^verbatim>\<open>submit\<close> and \<^verbatim>\<open>complete\<close>; the facade of the library that runs it is not in the repository.
\<close>

subsection \<open>Operations\<close>

record ('c, 's) io_operation =
  op_context :: 'c
  op_ready :: bool
  op_submit :: "sqe option"
  op_complete :: "int \<Rightarrow> 's"

text \<open>
  What an operation submits is an object of its own: what to transfer, the descriptor and the offset. None of them is
  ready without the ring.
\<close>

record 'c close_submission =
  cls_context :: 'c
  cls_fd :: int

definition close_submission_ready :: "'c close_submission \<Rightarrow> bool" where
  "close_submission_ready s = False"

definition close_submission_submit :: "'c close_submission \<Rightarrow> sqe" where
  "close_submission_submit s = close_submit (cls_fd s)"

record open_submission =
  ops_data :: open_data

definition open_submission_ready :: "open_submission \<Rightarrow> bool" where
  "open_submission_ready s = False"

definition open_submission_submit :: "open_submission \<Rightarrow> sqe" where
  "open_submission_submit s = open_submit (ops_data s)"

record read_submission =
  rsub_buffers :: mbuffer_array_span
  rsub_fd :: int
  rsub_offset :: off_t

definition read_submission_ready :: "read_submission \<Rightarrow> bool" where
  "read_submission_ready s = False"

definition read_submission_submit :: "u64 \<Rightarrow> read_submission \<Rightarrow> sqe" where
  "read_submission_submit base s = read_submit base (rsub_buffers s) (rsub_fd s) (rsub_offset s)"

record read_submission_single =
  rsub1_buffers :: mutable_buffer
  rsub1_fd :: int
  rsub1_offset :: off_t

definition read_submission_single_ready :: "read_submission_single \<Rightarrow> bool" where
  "read_submission_single_ready s = False"

definition read_submission_single_submit :: "read_submission_single \<Rightarrow> sqe" where
  "read_submission_single_submit s = read_submit_single (rsub1_buffers s) (rsub1_fd s) (rsub1_offset s)"

record write_submission =
  wsub_buffers :: buffer_array_span
  wsub_fd :: int
  wsub_offset :: off_t

definition write_submission_ready :: "write_submission \<Rightarrow> bool" where
  "write_submission_ready s = False"

definition write_submission_submit :: "u64 \<Rightarrow> write_submission \<Rightarrow> sqe" where
  "write_submission_submit base s = write_submit base (wsub_buffers s) (wsub_fd s) (wsub_offset s)"

record write_submission_single =
  wsub1_buffers :: const_buffer
  wsub1_fd :: int
  wsub1_offset :: off_t

definition write_submission_single_ready :: "write_submission_single \<Rightarrow> bool" where
  "write_submission_single_ready s = False"

definition write_submission_single_submit :: "write_submission_single \<Rightarrow> sqe" where
  "write_submission_single_submit s = write_submit_single (wsub1_buffers s) (wsub1_fd s) (wsub1_offset s)"

lemmas submission_defs [simp] = read_submission.make_def read_submission_single.make_def write_submission.make_def
  write_submission_single.make_def close_submission_ready_def close_submission_submit_def open_submission_ready_def
  open_submission_submit_def read_submission_ready_def read_submission_submit_def read_submission_single_ready_def
  read_submission_single_submit_def write_submission_ready_def write_submission_submit_def write_submission_single_ready_def
  write_submission_single_submit_def

text \<open>The base class of an operation over a submission: the constructors of both, and the submission's functions.\<close>

definition io_operation_base ::
  "('b \<Rightarrow> int \<Rightarrow> off_t \<Rightarrow> 's) \<Rightarrow> ('s \<Rightarrow> bool) \<Rightarrow> ('s \<Rightarrow> sqe) \<Rightarrow> 'c \<Rightarrow> 'b \<Rightarrow> int \<Rightarrow> off_t \<Rightarrow>
     ('c, (size_t, int) signal) io_operation" where
  "io_operation_base submission_base ready submit ctx data fd off0 =
     (let s = submission_base data fd off0
      in \<lparr>op_context = ctx, op_ready = ready s, op_submit = Some (submit s), op_complete = io_complete\<rparr>)"

lemma io_operation_base_simps [simp]:
  "io_operation_base mk rdy sm ctx data fd off0 = \<lparr>op_context = ctx, op_ready = rdy (mk data fd off0),
     op_submit = Some (sm (mk data fd off0)), op_complete = io_complete\<rparr>"
  by (simp add: io_operation_base_def Let_def)

definition close_operation_base :: "'c \<Rightarrow> int \<Rightarrow> ('c, (unit, int) signal option) io_operation" where
  "close_operation_base ctx fd =
     (let s = \<lparr>cls_context = ctx, cls_fd = fd\<rparr>
      in \<lparr>op_context = cls_context s, op_ready = close_submission_ready s, op_submit = Some (close_submission_submit s),
          op_complete = close_complete\<rparr>)"

definition open_operation_base :: "open_data \<Rightarrow> 'c \<Rightarrow> ('c, ('c native_fd_handle, int) signal) io_operation" where
  "open_operation_base data ctx =
     (let s = \<lparr>ops_data = data\<rparr>
      in \<lparr>op_context = ctx, op_ready = open_submission_ready s, op_submit = Some (open_submission_submit s),
          op_complete = open_complete ctx\<rparr>)"

lemma close_operation_base_simps [simp]:
  "close_operation_base ctx fd =
     \<lparr>op_context = ctx, op_ready = False, op_submit = Some (close_submit fd), op_complete = close_complete\<rparr>"
  by (simp add: close_operation_base_def)

lemma open_operation_base_simps [simp]:
  "open_operation_base data ctx =
     \<lparr>op_context = ctx, op_ready = False, op_submit = Some (open_submit data), op_complete = open_complete ctx\<rparr>"
  by (simp add: open_operation_base_def)

text \<open>An operation without a submission leaves the entry alone. Where a sender has a null context, connecting it is undefined.\<close>

record 'c close_sender =
  cs_context :: "'c ptr"
  cs_fd :: int

definition handle_close_sender :: "'c native_fd_handle \<Rightarrow> 'c close_sender" where
  "handle_close_sender h = \<lparr>cs_context = h_context h, cs_fd = h_fd h\<rparr>"

definition close_connect :: "'c close_sender \<Rightarrow> ('c, (unit, int) signal option) io_operation option" where
  "close_connect s = do {
     ctx \<leftarrow> cs_context s;
     Some (close_operation_base ctx (cs_fd s))
   }"

text \<open>Connecting moves the data, with its path, out of the sender: the path of a sender that was connected is empty.\<close>

record 'c open_sender =
  os_context :: 'c
  os_data :: open_data
  os_moved :: bool

definition open_connect ::
  "'c open_sender \<Rightarrow> (('c, ('c native_fd_handle, int) signal) io_operation \<times> 'c open_sender) option" where
  "open_connect s =
     (if os_moved s then None
      else Some (open_operation_base (os_data s) (os_context s), s\<lparr>os_moved := True\<rparr>))"

definition read_sender_connect ::
  "u64 \<Rightarrow> ('c, mbuffer_array_span) io_sender \<Rightarrow> ('c, (size_t, int) signal) io_operation" where
  "read_sender_connect base s =
     io_operation_base read_submission.make read_submission_ready (read_submission_submit base) (io_context s) (io_buffers s) (io_fd s) (io_offset s)"

definition read_single_connect :: "('c, mutable_buffer) io_sender \<Rightarrow> ('c, (size_t, int) signal) io_operation" where
  "read_single_connect s =
     io_operation_base read_submission_single.make read_submission_single_ready read_submission_single_submit (io_context s) (io_buffers s) (io_fd s) (io_offset s)"

definition write_sender_connect ::
  "u64 \<Rightarrow> ('c, buffer_array_span) io_sender \<Rightarrow> ('c, (size_t, int) signal) io_operation" where
  "write_sender_connect base s =
     io_operation_base write_submission.make write_submission_ready (write_submission_submit base) (io_context s) (io_buffers s) (io_fd s) (io_offset s)"

definition write_single_connect :: "('c, const_buffer) io_sender \<Rightarrow> ('c, (size_t, int) signal) io_operation" where
  "write_single_connect s =
     io_operation_base write_submission_single.make write_submission_single_ready write_submission_single_submit (io_context s) (io_buffers s) (io_fd s) (io_offset s)"

subsection \<open>Factories\<close>

text \<open>What the buffered sequences of a stream make their item senders with.\<close>

definition read_factory ::
  "'c native_fd_handle \<Rightarrow> mutable_buffer \<Rightarrow> off_t \<Rightarrow> ('c, mutable_buffer) io_sender option" where
  "read_factory h data off0 = io_sender_of h data off0"

definition write_factory ::
  "'c native_fd_handle \<Rightarrow> const_buffer \<Rightarrow> off_t \<Rightarrow> ('c, const_buffer) io_sender option" where
  "write_factory h data off0 = io_sender_of h data off0"

subsection \<open>Sockets\<close>

text \<open>The operation of opening a socket has nothing to submit.\<close>

record ('c, 'p) socket_operation =
  so_context :: 'c
  so_protocol :: 'p

definition socket_operation_submit :: "('c, 'p) socket_operation \<Rightarrow> sqe option" where
  "socket_operation_submit op = None"

record ('c, 'p) socket_sender =
  ss_context :: 'c
  ss_protocol :: 'p

definition socket_connect ::
  "(protocol \<Rightarrow> int) \<Rightarrow> int \<Rightarrow> ('c, protocol) socket_sender \<Rightarrow>
     ('c, (('c, protocol) socket_handle, int) signal) io_operation" where
  "socket_connect socket_call errno s =
     (let op = \<lparr>so_context = ss_context s, so_protocol = ss_protocol s\<rparr>
      in \<lparr>op_context = so_context op, op_ready = socket_ready, op_submit = socket_operation_submit op,
          op_complete = (\<lambda>_. socket_complete (so_context op) (so_protocol op) socket_call errno)\<rparr>)"

definition socket_open_sender :: "'c \<Rightarrow> 'p \<Rightarrow> ('c, 'p) socket_sender" where
  "socket_open_sender ctx proto = \<lparr>ss_context = ctx, ss_protocol = proto\<rparr>"

text \<open>A socket that is not open, of a context given by reference or by pointer; a null pointer is dereferenced.\<close>

record ('c, 'p) socket =
  sock_context :: 'c
  sock_protocol :: 'p

definition socket_of :: "'c \<Rightarrow> 'p \<Rightarrow> ('c, 'p) socket" where
  "socket_of ctx proto = \<lparr>sock_context = ctx, sock_protocol = proto\<rparr>"

definition socket_of_ptr :: "'c ptr \<Rightarrow> 'p \<Rightarrow> ('c, 'p) socket option" where
  "socket_of_ptr ctx proto = map_option (\<lambda>c. \<lparr>sock_context = c, sock_protocol = proto\<rparr>) ctx"

definition socket_open_member :: "('c, 'p) socket \<Rightarrow> ('c, 'p) socket_sender" where
  "socket_open_member s = socket_open_sender (sock_context s) (sock_protocol s)"

record ('c, 'ep) connect_sender =
  cn_context :: "'c ptr"
  cn_endpoint :: 'ep
  cn_fd :: int

definition handle_connect_sender :: "('c, 'p) socket_handle \<Rightarrow> 'ep \<Rightarrow> ('c, 'ep) connect_sender" where
  "handle_connect_sender h ep =
     \<lparr>cn_context = h_context (sk_handle h), cn_endpoint = ep, cn_fd = h_fd (sk_handle h)\<rparr>"

text \<open>\<open>ep_data\<close> is the address of the copy of the endpoint in the operation state, \<open>msg\<close> of the copy of the message there.\<close>

record 'ep connect_operation =
  co_fd :: int
  co_peer_endpoint :: 'ep

definition connect_operation_ready :: "'ep connect_operation \<Rightarrow> bool" where
  "connect_operation_ready op = False"

definition connect_connect ::
  "u64 \<Rightarrow> ('ep \<Rightarrow> size_t) \<Rightarrow> ('c, 'ep) connect_sender \<Rightarrow> ('c, (unit, int) signal) io_operation option" where
  "connect_connect ep_data ep_length s = do {
     ctx \<leftarrow> cn_context s;
     let op = \<lparr>co_fd = cn_fd s, co_peer_endpoint = cn_endpoint s\<rparr>;
     Some \<lparr>op_context = ctx, op_ready = connect_operation_ready op,
       op_submit = Some (connect_submit (co_fd op) ep_data (ep_length (co_peer_endpoint op))), op_complete = connect_complete\<rparr>
   }"

record ('c, 'm) sendmsg_sender =
  sm_context :: "'c ptr"
  sm_fd :: int
  sm_msg :: 'm

definition handle_sendmsg_sender :: "('c, 'p) socket_handle \<Rightarrow> 'm \<Rightarrow> ('c, 'm) sendmsg_sender" where
  "handle_sendmsg_sender h m = \<lparr>sm_context = h_context (sk_handle h), sm_fd = h_fd (sk_handle h), sm_msg = m\<rparr>"

record 'm sendmsg_operation =
  so_fd :: int
  so_msg :: 'm

definition sendmsg_operation_ready :: "'m sendmsg_operation \<Rightarrow> bool" where
  "sendmsg_operation_ready op = False"

definition sendmsg_connect :: "u64 \<Rightarrow> ('c, 'm) sendmsg_sender \<Rightarrow> ('c, (int, int) signal) io_operation option" where
  "sendmsg_connect msg s = do {
     ctx \<leftarrow> sm_context s;
     let op = \<lparr>so_fd = sm_fd s, so_msg = sm_msg s\<rparr>;
     Some \<lparr>op_context = ctx, op_ready = sendmsg_operation_ready op, op_submit = Some (sendmsg_submit (so_fd op) msg),
       op_complete = sendmsg_complete\<rparr>
   }"

text \<open>The operation of accepting has the endpoint and its size, where the address of the peer is written.\<close>

record ('p, 'ep) accept_operation =
  ao_fd :: int
  ao_protocol :: 'p
  ao_local_endpoint :: 'ep
  ao_addrlen :: u32

definition accept_operation_of :: "('ep \<Rightarrow> size_t) \<Rightarrow> int \<Rightarrow> 'p \<Rightarrow> 'ep \<Rightarrow> ('p, 'ep) accept_operation" where
  "accept_operation_of ep_length fd proto ep =
     \<lparr>ao_fd = fd, ao_protocol = proto, ao_local_endpoint = ep, ao_addrlen = ucast (ep_length ep)\<rparr>"

definition accept_operation_ready :: "('p, 'ep) accept_operation \<Rightarrow> bool" where
  "accept_operation_ready op = False"

definition accept_connect ::
  "('ep \<Rightarrow> size_t) \<Rightarrow> u64 \<Rightarrow> u64 \<Rightarrow> ('c, 'p, 'ep) accept_sender \<Rightarrow>
     ('c, (('c, 'p) socket_handle, int) signal) io_operation option" where
  "accept_connect ep_length ep_data addrlen_ptr s = do {
     ctx \<leftarrow> as_context s;
     let op = accept_operation_of ep_length (as_fd s) (as_protocol s) (as_endpoint s);
     Some \<lparr>op_context = ctx, op_ready = accept_operation_ready op, op_submit = Some (accept_submit (ao_fd op) ep_data addrlen_ptr),
       op_complete = accept_complete ctx (ao_protocol op)\<rparr>
   }"

lemmas socket_operation_defs [simp] = socket_operation_submit_def connect_operation_ready_def sendmsg_operation_ready_def
  accept_operation_of_def accept_operation_ready_def

text \<open>An acceptor that is not open. Opening it opens a socket of its context.\<close>

record ('c, 'p, 'ep) acceptor =
  acc_context :: 'c
  acc_protocol :: 'p
  acc_endpoint :: 'ep

definition acceptor_of :: "'c \<Rightarrow> 'p \<Rightarrow> 'ep \<Rightarrow> ('c, 'p, 'ep) acceptor" where
  "acceptor_of ctx proto ep = \<lparr>acc_context = ctx, acc_protocol = proto, acc_endpoint = ep\<rparr>"

definition acceptor_of_ptr :: "'c ptr \<Rightarrow> 'p \<Rightarrow> 'ep \<Rightarrow> ('c, 'p, 'ep) acceptor option" where
  "acceptor_of_ptr ctx proto ep = map_option (\<lambda>c. \<lparr>acc_context = c, acc_protocol = proto, acc_endpoint = ep\<rparr>) ctx"

definition acceptor_socket_sender :: "('c, 'p, 'ep) acceptor \<Rightarrow> ('c, 'p) socket_sender" where
  "acceptor_socket_sender a = socket_open_member (socket_of (acc_context a) (acc_protocol a))"

subsection \<open>Running them\<close>

text \<open>
  What the facade is documented to do: an operation that is ready is completed at once, any other is submitted
  and completed with the result of its entry.
\<close>

definition facade_law :: "(('c, 's) io_operation \<Rightarrow> int \<Rightarrow> sqe list \<times> 's) \<Rightarrow> bool" where
  "facade_law run \<longleftrightarrow> (\<forall>p res. run p res =
     (if op_ready p then ([], op_complete p 0)
      else (case op_submit p of None \<Rightarrow> [] | Some q \<Rightarrow> [q], op_complete p res)))"

text \<open>The items of a sequence whose factory was given the spans \<open>given\<close>, each connected and run.\<close>

definition run_items ::
  "(('c, 's) io_operation \<Rightarrow> int \<Rightarrow> sqe list \<times> 's) \<Rightarrow> (single_span \<Rightarrow> ('c, 's) io_operation option) \<Rightarrow>
     single_span list \<Rightarrow> int list \<Rightarrow> (sqe list \<times> 's) list option" where
  "run_items run mk given results =
     those (map (\<lambda>(s, res). map_option (\<lambda>p. run p res) (mk s)) (zip given results))"

definition write_item :: "'c native_fd_handle \<Rightarrow> single_span \<Rightarrow> ('c, (size_t, int) signal) io_operation option" where
  "write_item h s = map_option write_single_connect (write_factory h (s_buffer s) (s_offset s))"

definition read_item :: "'c native_fd_handle \<Rightarrow> single_span \<Rightarrow> ('c, (size_t, int) signal) io_operation option" where
  "read_item h s = map_option read_single_connect
     (read_factory h (mb_make (cb_data (s_buffer s)) (cb_size (s_buffer s))) (s_offset s))"

lemma run_items_law:
  assumes "facade_law run"
    "\<And>s. \<exists>p. mk s = Some p \<and> \<not> op_ready p \<and> op_submit p = Some (submit s) \<and> op_complete p = complete"
    "length given \<le> length results"
  shows "run_items run mk given results =
    Some (map (\<lambda>(s, res). ([submit s], complete res)) (zip given (take (length given) results)))"
  using assms(3)
proof (induction given arbitrary: results)
  case (Cons s given)
  then obtain r rs where r: "results = r # rs" "length given \<le> length rs" by (cases results) auto
  obtain p where p: "mk s = Some p" "\<not> op_ready p" "op_submit p = Some (submit s)" "op_complete p = complete"
    using assms(2) by blast
  have "run p r = ([submit s], complete r)" using assms(1) p unfolding facade_law_def by simp
  with Cons.IH [OF r(2)] r p show ?case by (simp add: run_items_def)
qed (simp add: run_items_def)

lemma given_length: "length (fst (bseq_run adv emp rs s)) \<le> length rs"
  by (induction rs arbitrary: s) (auto simp: Let_def case_prod_unfold split: bseq.split)

lemma transfer_submissions:
  "fst (stream_transfer submit stop results s) = map submit
     (fst (bseq_run single_advance (\<lambda>s. cb_empty (s_buffer s)) (map (stream_round stop) results) s))"
  by (simp add: stream_transfer_def split: prod.split bseq.split)

lemma run_items_transfer:
  assumes "facade_law run"
    "\<And>s. \<exists>p. mk s = Some p \<and> \<not> op_ready p \<and> op_submit p = Some (submit s) \<and> op_complete p = complete"
    "given = fst (bseq_run single_advance (\<lambda>s. cb_empty (s_buffer s)) (map (stream_round stop) results) s)"
  shows "\<exists>items. run_items run mk given results = Some items \<and>
    concat (map fst items) = fst (stream_transfer submit stop results s) \<and>
    map snd items = map complete (take (length given) results)"
proof -
  have len: "length given \<le> length results"
    unfolding assms(3) by (rule order_trans [OF given_length]) simp
  have "concat (map fst (map (\<lambda>(s, res). ([submit s], complete res)) (zip xs ys))) = map submit xs \<and>
      map snd (map (\<lambda>(s, res). ([submit s], complete res)) (zip xs ys)) = map complete ys"
    if "length xs = length ys" for xs ys
    using that by (induction xs ys rule: list_induct2) simp_all
  from this [of given "take (length given) results"] len
  show ?thesis unfolding run_items_law [OF assms(1,2) len] transfer_submissions assms(3) [symmetric] by simp
qed

text \<open>Remark (io_operations). A whole write and a whole read of a stream are what the operations do that the factories' senders are
  connected to: run by the facade, each submits its entry once, these are the entries of the transfer, and their
  completions are those that the transfer reduces.\<close>

theorem transfers_run_operations:
  assumes "h_context h = Some ctx" "facade_law run"
  shows "\<exists>given items. run_items run (write_item h) given results = Some items \<and>
      concat (map fst items) = fst (stream_write h data off0 stop results) \<and>
      map snd items = map io_complete (take (length given) results)"
    and "\<exists>given items. run_items run (read_item h) given results = Some items \<and>
      concat (map fst items) = fst (stream_read h buf off0 stop results) \<and>
      map snd items = map io_complete (take (length given) results)"
proof -
  have items: "\<And>s. \<exists>p. write_item h s = Some p \<and> \<not> op_ready p \<and>
      op_submit p = Some (write_submit_single (s_buffer s) (h_fd h) (s_offset s)) \<and> op_complete p = io_complete"
    using assms(1) by (simp add: write_item_def write_factory_def io_sender_of_def write_single_connect_def)
  from run_items_transfer [where mk = "write_item h" and complete = io_complete and
      submit = "\<lambda>s. write_submit_single (s_buffer s) (h_fd h) (s_offset s)", OF assms(2) items refl]
  show "\<exists>given items. run_items run (write_item h) given results = Some items \<and>
      concat (map fst items) = fst (stream_write h data off0 stop results) \<and>
      map snd items = map io_complete (take (length given) results)"
    unfolding stream_write_def by blast
next
  have items: "\<And>s. \<exists>p. read_item h s = Some p \<and> \<not> op_ready p \<and>
      op_submit p = Some (read_submit_single (mb_make (cb_data (s_buffer s)) (cb_size (s_buffer s))) (h_fd h) (s_offset s)) \<and>
      op_complete p = io_complete"
    using assms(1) by (simp add: read_item_def read_factory_def io_sender_of_def read_single_connect_def)
  from run_items_transfer [where mk = "read_item h" and complete = io_complete and
      submit = "\<lambda>s. read_submit_single (mb_make (cb_data (s_buffer s)) (cb_size (s_buffer s))) (h_fd h) (s_offset s)",
      OF assms(2) items refl]
  show "\<exists>given items. run_items run (read_item h) given results = Some items \<and>
      concat (map fst items) = fst (stream_read h buf off0 stop results) \<and>
      map snd items = map io_complete (take (length given) results)"
    unfolding stream_read_def by blast
qed

text \<open>A facade.\<close>

definition simple_facade :: "('c, 's) io_operation \<Rightarrow> int \<Rightarrow> sqe list \<times> 's" where
  "simple_facade p res = (if op_ready p then ([], op_complete p 0)
     else (case op_submit p of None \<Rightarrow> [] | Some q \<Rightarrow> [q], op_complete p res))"

theorem transfers_run_operations_witness:
  "\<exists>given items. run_items simple_facade (write_item \<lparr>h_context = Some (), h_fd = 3\<rparr>) given [2, 3] = Some items \<and>
     concat (map fst items) = fst (stream_write \<lparr>h_context = Some (), h_fd = 3\<rparr> (cb_make 1000 5) 0 False [2, 3])"
proof -
  have "facade_law (simple_facade :: (unit, (size_t, int) signal) io_operation \<Rightarrow> int \<Rightarrow> sqe list \<times> (size_t, int) signal)"
    by (simp add: facade_law_def simple_facade_def)
  from transfers_run_operations(1) [OF _ this, of "\<lparr>h_context = Some (), h_fd = 3\<rparr>" "()" "[2, 3]" "cb_make 1000 5" 0 False]
  show ?thesis by auto
qed

text \<open>Remark (open_moves). Connecting a sender that opens a file moves its path away: it can be connected once only. The operation of
  a socket is ready and submits nothing.\<close>

theorem open_sender_once:
  assumes "open_connect s = Some (p, s1)"
  shows "op_context p = os_context s \<and> op_submit p = Some (open_submit (os_data s)) \<and> open_connect s1 = None \<and>
    op_ready (socket_connect socket_call errno so) \<and> op_submit (socket_connect socket_call errno so) = None"
  using assms by (auto simp: open_connect_def socket_connect_def socket_ready_def split: if_splits)

theorem open_sender_once_witness:
  "\<exists>p s1. open_connect \<lparr>os_context = (), os_data = path_open 4096, os_moved = False\<rparr> = Some (p, s1) \<and> open_connect s1 = None"
  using open_sender_once [of "\<lparr>os_context = (), os_data = path_open 4096, os_moved = False\<rparr>" _ _ "\<lambda>_. 3" 0 "\<lparr>ss_context = (), ss_protocol = tcp_v4\<rparr>"]
  by (auto simp: open_connect_def)

text \<open>Remark (accepting). An acceptor that was made from a context and opened is a handle on the socket that the system gave; the senders that it makes
  submit an accept for this socket and for the endpoint of the acceptor, and complete with handles of the same context and protocol. An acceptor of a null
  context is undefined.\<close>

theorem acceptor_accepts:
  assumes "acceptor_of_ptr ctx proto ep = Some a"
    "acceptor_open (acc_context a) (acc_protocol a) (acc_endpoint a) socket_call errno rcs fds = (Set_Value h, fds1)"
  shows "ctx \<noteq> None \<and> (\<exists>sk. op_complete (socket_connect socket_call errno (acceptor_socket_sender a)) r = Set_Value sk \<and>
      h_fd (sk_handle sk) = h_fd (ac_handle h) \<and> h_fd (ac_handle h) = socket_call proto) \<and>
    (\<exists>p. accept_connect ep_length ep_data addrlen_ptr (accept_once h) = Some p \<and> ctx = Some (op_context p) \<and>
      op_submit p = Some (accept_submit (socket_call proto) ep_data addrlen_ptr) \<and>
      as_endpoint (accept_once h) = ep \<and>
      (res \<ge> 0 \<longrightarrow> op_complete p res = Set_Value \<lparr>sk_handle = \<lparr>h_context = ctx, h_fd = res\<rparr>, sk_protocol = proto\<rparr>))"
  using assms
  by (auto simp: acceptor_of_ptr_def acceptor_open_def socket_connect_def acceptor_socket_sender_def socket_open_member_def socket_of_def
      socket_open_sender_def socket_complete_def accept_connect_def accept_once_def accept_complete_def Let_def
      split: if_splits signal.splits sum.splits)

theorem acceptor_accepts_witness:
  "\<exists>p. accept_connect (\<lambda>_. 16) 0 0 (accept_once \<lparr>ac_handle = \<lparr>h_context = Some (), h_fd = 3\<rparr>, ac_protocol = tcp_v4, ac_endpoint = ()\<rparr>) = Some p \<and>
     op_complete p 5 = Set_Value \<lparr>sk_handle = \<lparr>h_context = Some (), h_fd = 5\<rparr>, sk_protocol = tcp_v4\<rparr>"
proof -
  have "acceptor_open () tcp_v4 () (\<lambda>_. 3) 0 (0, 0, 0) {} =
      (Set_Value \<lparr>ac_handle = \<lparr>h_context = Some (), h_fd = 3\<rparr>, ac_protocol = tcp_v4, ac_endpoint = ()\<rparr>, {3})"
    by (simp add: acceptor_open_def socket_complete_def setup_calls_def throw_on_error_def)
  with acceptor_accepts [of "Some ()" tcp_v4 "()" "acceptor_of () tcp_v4 ()" "\<lambda>_. 3" 0 "(0, 0, 0)" "{}" _ _ 0 "\<lambda>_. 16" 0 0 5]
  show ?thesis by (auto simp: acceptor_of_ptr_def acceptor_of_def)
qed

subsection \<open>Null contexts\<close>

text \<open>Remark (null_contexts). The handle that a socket was opened as, or that was accepted, can be connected, written to and
  closed, always on the context and with the descriptor it was made with; on a handle that was default-constructed all of this is
  undefined.\<close>

theorem null_contexts:
  fixes ep_len :: "'ep \<Rightarrow> size_t"
  assumes "op_complete (socket_connect socket_call errno (socket_open_sender ctx proto)) res = Set_Value h"
  shows "(\<exists>p. connect_connect ep_data ep_len (handle_connect_sender h ep) = Some p \<and> op_context p = ctx \<and>
      op_submit p = Some (connect_submit (socket_call proto) ep_data (ep_len ep))) \<and>
    (\<exists>p. sendmsg_connect msg (handle_sendmsg_sender h m) = Some p \<and> op_context p = ctx \<and>
      op_submit p = Some (sendmsg_submit (socket_call proto) msg)) \<and>
    (\<exists>p. close_connect (handle_close_sender (sk_handle h)) = Some p \<and> op_context p = ctx \<and>
      op_submit p = Some (close_submit (socket_call proto))) \<and>
    socket_call proto \<noteq> - 1 \<and>
    (h_context (sk_handle k) = None \<longrightarrow>
      connect_connect ep_data ep_len (handle_connect_sender k ep) = None \<and>
      sendmsg_connect msg (handle_sendmsg_sender k m) = None \<and>
      close_connect (handle_close_sender (sk_handle k)) = None)"
  using assms by (auto simp: socket_connect_def socket_open_sender_def socket_complete_def Let_def
      connect_connect_def handle_connect_sender_def sendmsg_connect_def handle_sendmsg_sender_def
      close_connect_def handle_close_sender_def split: if_splits)

theorem null_contexts_witness:
  "\<exists>p. close_connect (handle_close_sender \<lparr>h_context = Some (), h_fd = 3\<rparr>) = Some p \<and>
     op_submit p = Some (close_submit 3)"
  using null_contexts [of "\<lambda>_. 3" 0 "()" tcp_v4 0 "\<lparr>sk_handle = \<lparr>h_context = Some (), h_fd = 3\<rparr>, sk_protocol = tcp_v4\<rparr>"
      0 "\<lambda>_. 16" "()" 0 "()" "\<lparr>sk_handle = \<lparr>h_context = Some (), h_fd = 3\<rparr>, sk_protocol = tcp_v4\<rparr>"]
  by (simp add: socket_connect_def socket_open_sender_def socket_complete_def)

subsection \<open>Completion schedulers\<close>

text \<open>The environment of a sender is the scheduler of its context; it answers the query for the completion scheduler of a value.\<close>

record 'c uring_env =
  env_scheduler :: 'c

definition env_query :: "'c uring_env \<Rightarrow> 'c" where
  "env_query e = env_scheduler e"

definition close_env :: "'c close_sender \<Rightarrow> 'c uring_env option" where
  "close_env s = map_option (\<lambda>ctx. \<lparr>env_scheduler = ctx\<rparr>) (cs_context s)"

definition open_env :: "'c open_sender \<Rightarrow> 'c uring_env" where
  "open_env s = \<lparr>env_scheduler = os_context s\<rparr>"

definition read_env :: "('c, mbuffer_array_span) io_sender \<Rightarrow> 'c uring_env" where
  "read_env s = \<lparr>env_scheduler = io_context s\<rparr>"

definition read_single_env :: "('c, mutable_buffer) io_sender \<Rightarrow> 'c uring_env" where
  "read_single_env s = \<lparr>env_scheduler = io_context s\<rparr>"

definition write_env :: "('c, buffer_array_span) io_sender \<Rightarrow> 'c uring_env" where
  "write_env s = \<lparr>env_scheduler = io_context s\<rparr>"

definition write_single_env :: "('c, const_buffer) io_sender \<Rightarrow> 'c uring_env" where
  "write_single_env s = \<lparr>env_scheduler = io_context s\<rparr>"

definition socket_env :: "('c, 'p) socket_sender \<Rightarrow> 'c uring_env" where
  "socket_env s = \<lparr>env_scheduler = ss_context s\<rparr>"

definition connect_env :: "('c, 'ep) connect_sender \<Rightarrow> 'c uring_env option" where
  "connect_env s = map_option (\<lambda>ctx. \<lparr>env_scheduler = ctx\<rparr>) (cn_context s)"

lemmas env_defs = env_query_def close_env_def open_env_def read_env_def read_single_env_def write_env_def write_single_env_def
  socket_env_def connect_env_def

text \<open>Remark (schedulers). The completion scheduler that a sender names is the one of the context on which its operation runs. For the sender of a closed
  or connecting handle it is defined exactly if connecting the sender is.\<close>

theorem completion_schedulers:
  "map_option env_query (close_env cs) = map_option op_context (close_connect cs) \<and>
   map_option env_query (connect_env cn) = map_option op_context (connect_connect ep_data ep_len cn) \<and>
   (case open_connect os of None \<Rightarrow> os_moved os | Some (p, s1) \<Rightarrow> env_query (open_env os) = op_context p \<and> open_env s1 = open_env os) \<and>
   env_query (read_env rs) = op_context (read_sender_connect base rs) \<and>
   env_query (read_single_env r1) = op_context (read_single_connect r1) \<and>
   env_query (write_env ws) = op_context (write_sender_connect base ws) \<and>
   env_query (write_single_env w1) = op_context (write_single_connect w1) \<and>
   env_query (socket_env so) = op_context (socket_connect socket_call errno so)"
  by (simp add: env_defs close_connect_def connect_connect_def open_connect_def read_sender_connect_def read_single_connect_def
      write_sender_connect_def write_single_connect_def socket_connect_def option.map_comp comp_def bind_map_option map_conv_bind_option)

end
