(* ===== verification/Sequence_Adaptors.thy ===== *)
theory Sequence_Adaptors
  imports Sequence_Core
begin

text \<open>
  \<^verbatim>\<open>sequence/repeat.hpp\<close>, \<^verbatim>\<open>sequence/finally.hpp\<close>, \<^verbatim>\<open>tap.hpp\<close> and \<^verbatim>\<open>sequence/merge_each.hpp\<close>: adaptors that
  pass the items of their children on and differ in how the sequence completes.

  An exception that an operation lets through to its receiver is the error \<open>Inr ()\<close>, an error of a
  child \<open>Inl e\<close>.
\<close>

subsection \<open>Repeat\<close>

datatype 'e repeat_state = Subscribed | Completed "(unit, 'e + unit) signal"

text \<open>\<open>subscribe_throws\<close> says whether subscribing the child again throws.\<close>

definition repeat_again :: "stop_token \<Rightarrow> bool \<Rightarrow> 'e repeat_state" where
  "repeat_again token subscribe_throws =
     (if stop_requested token then Completed (Set_Value ())
      else if subscribe_throws then Completed (Set_Error (Inr ()))
      else Subscribed)"

definition repeat_start :: "stop_token \<Rightarrow> bool \<Rightarrow> 'e repeat_state" where
  "repeat_start token subscribe_throws = repeat_again token subscribe_throws"

definition repeat_child_complete ::
  "stop_token \<Rightarrow> bool \<Rightarrow> (unit, 'e) signal \<Rightarrow> 'e repeat_state" where
  "repeat_child_complete token subscribe_throws sig =
     (case sig of
        Set_Value _ \<Rightarrow> repeat_again token subscribe_throws
      | Set_Stopped \<Rightarrow> Completed (set_value_unless_stopped token)
      | Set_Error e \<Rightarrow> Completed (Set_Error (Inl e)))"

text \<open>
  A run: how each subscription of the child completed, with the token and the subscribe outcome at
  that moment. The number counts subscriptions.
\<close>

fun repeat_run ::
  "(stop_token \<times> bool \<times> (unit, 'e) signal) list \<Rightarrow> 'e repeat_state \<times> nat \<Rightarrow> 'e repeat_state \<times> nat" where
  "repeat_run [] s = s"
| "repeat_run (r # rs) (Completed sig, n) = (Completed sig, n)"
| "repeat_run ((token, throws, sig) # rs) (Subscribed, n) =
     (case repeat_child_complete token throws sig of
        Subscribed \<Rightarrow> repeat_run rs (Subscribed, Suc n)
      | Completed out \<Rightarrow> (Completed out, n))"

definition keeps_going :: "stop_token \<times> bool \<times> (unit, 'e) signal \<Rightarrow> bool" where
  "keeps_going r = (case r of (token, throws, sig) \<Rightarrow>
     sig = Set_Value () \<and> \<not> stop_requested token \<and> \<not> throws)"

lemma keeps_going_step:
  "keeps_going (token, throws, sig) \<longleftrightarrow> repeat_child_complete token throws sig = Subscribed"
  by (auto simp: keeps_going_def repeat_child_complete_def repeat_again_def split: signal.split)

lemma repeat_run_prefix:
  "\<forall>r \<in> set rs. keeps_going r \<Longrightarrow>
     repeat_run (rs @ rest) (Subscribed, n) = repeat_run rest (Subscribed, n + length rs)"
proof (induction rs arbitrary: n)
  case (Cons r rs)
  obtain token throws sig where r: "r = (token, throws, sig)" by (cases r)
  with Cons.prems keeps_going_step [of token throws sig]
  have "repeat_child_complete token throws sig = Subscribed" by auto
  with Cons r show ?case by simp
qed simp

lemma repeat_run_completed: "repeat_run rs (Completed sig, n) = (Completed sig, n)"
  by (cases rs) simp_all

text \<open>Remark (repeat). The child is subscribed again exactly as long as it completes with a value, stop is not
  requested and subscribing does not throw. The first time one of these fails the sequence ends:
  with the child's error, with the exception, with a value when stop was requested between two
  rounds, and when the child stopped, as stopped exactly if stop was requested.\<close>

theorem repeat_resubscribes:
  assumes "\<forall>r \<in> set rs. keeps_going r" "\<not> keeps_going (token, throws, sig)"
  shows "repeat_run (rs @ (token, throws, sig) # rest) (Subscribed, 1) =
    (Completed (case sig of
        Set_Error e \<Rightarrow> Set_Error (Inl e)
      | Set_Stopped \<Rightarrow> if stop_requested token then Set_Stopped else Set_Value ()
      | Set_Value _ \<Rightarrow> if stop_requested token then Set_Value () else Set_Error (Inr ())),
     Suc (length rs))"
  using assms repeat_run_prefix [OF assms(1)]
  by (auto simp: repeat_child_complete_def repeat_again_def keeps_going_def
      set_value_unless_stopped_def stop_requested_def split: signal.split stop_token.split)

theorem repeat_resubscribes_witness:
  "repeat_run ([(Stoppable False, False, Set_Value ())] @
      (Stoppable True, False, Set_Stopped :: (unit, nat) signal) # []) (Subscribed, 1) =
     (Completed Set_Stopped, 2)"
  using repeat_resubscribes [of "[(Stoppable False, False, Set_Value () :: (unit, nat) signal)]"
      "Stoppable True" False Set_Stopped "[]"]
  by (simp add: keeps_going_def stop_requested_def)

subsection \<open>Finally\<close>

text \<open>The initial sequence starts the final sender however it completes; its error is dropped.\<close>

datatype finally_state = Initial_Running | Final_Running

definition finally_initial_complete :: "(unit, 'e) signal \<Rightarrow> finally_state" where
  "finally_initial_complete sig =
     (case sig of
        Set_Value _ \<Rightarrow> Final_Running
      | Set_Error _ \<Rightarrow> Final_Running
      | Set_Stopped \<Rightarrow> Final_Running)"

definition receiver_ref_complete :: "stop_token \<Rightarrow> (unit, 'e) signal \<Rightarrow> (unit, 'e) signal" where
  "receiver_ref_complete token sig =
     (case sig of
        Set_Value _ \<Rightarrow> Set_Value ()
      | Set_Error e \<Rightarrow> Set_Error e
      | Set_Stopped \<Rightarrow> set_value_unless_stopped token)"

definition finally_run ::
  "stop_token \<Rightarrow> (unit, 'e) signal \<Rightarrow> (unit, 'e) signal \<Rightarrow> (unit, 'e) signal" where
  "finally_run token initial final =
     (case finally_initial_complete initial of
        Final_Running \<Rightarrow> receiver_ref_complete token final
      | Initial_Running \<Rightarrow> Set_Stopped)"

subsection \<open>Tap\<close>

text \<open>
  The item of \<^verbatim>\<open>tap\<close> records in \<open>success\<close> whether the initial sender failed or stopped; the final
  sender runs only if it did not.
\<close>

definition tap_next_sender :: "('v, 'e) signal \<Rightarrow> bool \<Rightarrow> ('v, 'e) signal \<times> bool" where
  "tap_next_sender sig success =
     (case sig of
        Set_Value v \<Rightarrow> (Set_Value v, success)
      | Set_Error e \<Rightarrow> (Set_Error e, False)
      | Set_Stopped \<Rightarrow> (Set_Stopped, False))"

datatype 'e tap_state = Tap_Final | Tap_Completed "(unit, 'e) signal"

definition tap_initial_complete :: "stop_token \<Rightarrow> bool \<Rightarrow> (unit, 'x) signal \<Rightarrow> 'e tap_state" where
  "tap_initial_complete token success sig =
     (if success then Tap_Final else Tap_Completed (set_value_unless_stopped token))"

definition tap_receiver_ref_complete :: "stop_token \<Rightarrow> (unit, 'e) signal \<Rightarrow> (unit, 'e) signal" where
  "tap_receiver_ref_complete token sig =
     (case sig of
        Set_Value _ \<Rightarrow> Set_Value ()
      | Set_Error e \<Rightarrow> Set_Error e
      | Set_Stopped \<Rightarrow> set_value_unless_stopped token)"

text \<open>The whole operation; \<open>next\<close> is how the receiver's sender completes after the item.\<close>

definition tap_run ::
  "stop_token \<Rightarrow> ('v, 'e) signal \<Rightarrow> (unit, 'x) signal \<Rightarrow> (unit, 'e) signal \<Rightarrow>
     (unit, 'e) signal \<times> bool" where
  "tap_run token item next final =
     (let (passed, success) = tap_next_sender item True
      in case tap_initial_complete token success next of
           Tap_Final \<Rightarrow> (tap_receiver_ref_complete token final, True)
         | Tap_Completed sig \<Rightarrow> (sig, False))"

text \<open>Remark (finally). \<^verbatim>\<open>finally\<close> runs the final sender after every completion of the initial sequence and completes as it
  does, so that an error of the initial sequence is lost. \<^verbatim>\<open>tap\<close> runs the final sender exactly if the
  initial sender completed with a value, and otherwise completes with a value unless stop was
  requested.\<close>

theorem finally_tap_completion:
  "finally_run token initial final = finally_run token initial' final \<and>
   finally_run token (Set_Error e) (Set_Value ()) = Set_Value () \<and>
   (snd (tap_run token item next final) \<longleftrightarrow> (\<exists>v. item = Set_Value v)) \<and>
   fst (tap_run token item next final) =
     (case item of
        Set_Value _ \<Rightarrow> (if final = Set_Stopped \<and> \<not> stop_requested token then Set_Value () else final)
      | _ \<Rightarrow> (if stop_requested token then Set_Stopped else Set_Value ()))"
  by (auto simp: finally_run_def finally_initial_complete_def receiver_ref_complete_def tap_run_def
      tap_next_sender_def tap_initial_complete_def tap_receiver_ref_complete_def
      set_value_unless_stopped_def stop_requested_def
      split: signal.split stop_token.split)

subsection \<open>Merge each\<close>

record 'e merge =
  n_pending :: int
  m_error :: "'e option"
  error_emplaced :: int
  m_stop_source :: bool
  m_completed :: "(unit, 'e) signal list"

definition merge_init :: "nat \<Rightarrow> 'e merge" where
  "merge_init n = \<lparr>n_pending = int n, m_error = None, error_emplaced = 0, m_stop_source = False,
     m_completed = []\<rparr>"

text \<open>A visit of the error variant when it holds no error sends nothing.\<close>

definition merge_complete :: "stop_token \<Rightarrow> 'e merge \<Rightarrow> 'e merge" where
  "merge_complete token s =
     (let s1 = s\<lparr>n_pending := n_pending s - 1\<rparr>
      in if n_pending s = 1 then
           (if error_emplaced s1 = 2 then
              (case m_error s1 of
                 Some e \<Rightarrow> s1\<lparr>m_completed := m_completed s1 @ [Set_Error e]\<rparr>
               | None \<Rightarrow> s1)
            else s1\<lparr>m_completed := m_completed s1 @ [set_value_unless_stopped token]\<rparr>)
         else s1)"

definition merge_set_error :: "'e \<Rightarrow> 'e merge \<Rightarrow> 'e merge" where
  "merge_set_error e s =
     (if error_emplaced s = 0
      then s\<lparr>error_emplaced := 2, m_error := Some e\<rparr> else s)"

definition merge_child_complete :: "stop_token \<Rightarrow> (unit, 'e) signal \<Rightarrow> 'e merge \<Rightarrow> 'e merge" where
  "merge_child_complete token sig s =
     (case sig of
        Set_Value _ \<Rightarrow> merge_complete token s
      | Set_Stopped \<Rightarrow> merge_complete token (s\<lparr>m_stop_source := True\<rparr>)
      | Set_Error e \<Rightarrow> merge_complete token ((merge_set_error e s)\<lparr>m_stop_source := True\<rparr>))"

fun merge_children :: "stop_token \<Rightarrow> (unit, 'e) signal list \<Rightarrow> 'e merge \<Rightarrow> 'e merge" where
  "merge_children token [] s = s"
| "merge_children token (sig # sigs) s = merge_children token sigs (merge_child_complete token sig s)"

text \<open>The first error of a list of completions.\<close>

fun first_error :: "(unit, 'e) signal list \<Rightarrow> 'e option" where
  "first_error [] = None"
| "first_error (Set_Error e # sigs) = Some e"
| "first_error (_ # sigs) = first_error sigs"

definition merge_ok :: "'e merge \<Rightarrow> bool" where
  "merge_ok s \<longleftrightarrow> (error_emplaced s = 0 \<and> m_error s = None \<or> error_emplaced s = 2 \<and> m_error s \<noteq> None)"

definition merge_result :: "stop_token \<Rightarrow> 'e option \<Rightarrow> (unit, 'e) signal" where
  "merge_result token err = (case err of Some e \<Rightarrow> Set_Error e | None \<Rightarrow> set_value_unless_stopped token)"

lemma merge_children_run:
  assumes "merge_ok s" "n_pending s \<ge> int (length sigs)" "m_completed s = []"
  shows "(let s' = merge_children token sigs s; err = (case m_error s of Some e \<Rightarrow> Some e | None \<Rightarrow> first_error sigs)
    in merge_ok s' \<and> m_error s' = err \<and> n_pending s' = n_pending s - int (length sigs) \<and>
      m_completed s' = (if n_pending s' = 0 \<and> sigs \<noteq> [] then [merge_result token err] else []))"
  using assms
proof (induction sigs arbitrary: s)
  case Nil
  then show ?case by (simp split: option.split)
next
  case (Cons sig sigs)
  let ?s = "merge_child_complete token sig s"
  have ok: "merge_ok ?s" "n_pending ?s = n_pending s - 1"
    using Cons.prems
    by (auto simp: merge_child_complete_def merge_complete_def merge_set_error_def merge_ok_def
        Let_def split: signal.split option.split)
  have err: "m_error ?s = (case m_error s of Some e \<Rightarrow> Some e |
      None \<Rightarrow> (case sig of Set_Error e \<Rightarrow> Some e | _ \<Rightarrow> None))"
    using Cons.prems
    by (auto simp: merge_child_complete_def merge_complete_def merge_set_error_def merge_ok_def
        Let_def split: signal.split option.split)
  have done_: "m_completed ?s = (if n_pending s = 1 then [merge_result token (m_error ?s)] else [])"
    using Cons.prems
    by (auto simp: merge_child_complete_def merge_complete_def merge_set_error_def merge_ok_def
        merge_result_def Let_def split: signal.split option.split)
  show ?case
  proof (cases "n_pending s = 1")
    case True
    with Cons.prems have "sigs = []" by simp
    with True ok err done_ show ?thesis
      by (auto simp: Let_def split: signal.split option.split)
  next
    case False
    with Cons.prems done_ ok have "m_completed ?s = []" "n_pending ?s \<ge> int (length sigs)" by simp_all
    from Cons.IH [OF ok(1) this(2,1)] ok(2) err False show ?thesis
      by (cases sig; cases "m_error s"; cases sigs) (auto simp: Let_def)
  qed
qed

text \<open>Remark (merge). Merging \<open>n\<close> sequences completes once, after the last of them has completed and not before: with
  the first error there was, in whatever order they completed, or else with a value unless stop was
  requested. Any error or stop requests stop of the others.\<close>

theorem merge_completes_last:
  assumes "length sigs \<le> n" "n > 0"
  shows "m_completed (merge_children token sigs (merge_init n)) =
      (if length sigs = n then [merge_result token (first_error sigs)] else []) \<and>
    (m_stop_source (merge_child_complete token sig s) \<longleftrightarrow> m_stop_source s \<or> sig \<noteq> Set_Value ())"
  using merge_children_run [of "merge_init n" sigs token] assms
  by (auto simp: merge_init_def merge_ok_def Let_def merge_child_complete_def merge_complete_def
      merge_set_error_def split: signal.split option.split)

theorem merge_completes_last_witness:
  "m_completed (merge_children Unstoppable [Set_Value (), Set_Error 4, Set_Error 5] (merge_init 3)) =
     [Set_Error (4 :: nat)]"
  using merge_completes_last [THEN conjunct1, of "[Set_Value (), Set_Error (4 :: nat), Set_Error 5]" 3
      Unstoppable]
  by (simp add: merge_result_def)

end
