(* ===== verification/Fork.thy ===== *)
theory Fork
  imports Sequence_Core
begin

text \<open>
  \<^verbatim>\<open>sequence/fork.hpp\<close>: the items of a sequence run detached from it, each in an operation that is
  allocated for it. A reference count holds the fork operation alive: one for the sequence and one
  for each item.

  The allocation of an item operation and its release are asynchronous (parameters of the steps).
  The operations below are the code's, on one state; the step relation runs them in any order.
\<close>

subsection \<open>The operation\<close>

record 'e fork_op =
  ref_counter :: int
  is_stop_requested :: bool
  completion_type :: int
  fork_error :: "'e option"
  fork_stop_source :: bool
  has_callback :: bool
  fork_completed :: "(unit, 'e) signal list"

definition fork_init :: "'e fork_op" where
  "fork_init = \<lparr>ref_counter = 0, is_stop_requested = False, completion_type = 0,
     fork_error = None, fork_stop_source = False, has_callback = False, fork_completed = []\<rparr>"

text \<open>
  The loop compares with \<open>expected\<close>, which starts as 1 and is then what the last comparison found; it
  gives up when that is 0. Without interference from others the second comparison succeeds.
\<close>

fun increase_ref_loop :: "nat \<Rightarrow> int \<Rightarrow> 'e fork_op \<Rightarrow> (bool \<times> 'e fork_op) option" where
  "increase_ref_loop 0 expected s = None"
| "increase_ref_loop (Suc k) expected s =
     (if ref_counter s = expected then Some (True, s\<lparr>ref_counter := expected + 1\<rparr>)
      else let expected1 = ref_counter s
           in if expected1 = 0 then Some (False, s) else increase_ref_loop k expected1 s)"

definition increase_ref :: "'e fork_op \<Rightarrow> (bool \<times> 'e fork_op) option" where
  "increase_ref s = increase_ref_loop 2 1 s"

lemma increase_ref_spec:
  "increase_ref s =
     Some (ref_counter s \<noteq> 0, s\<lparr>ref_counter := ref_counter s + (if ref_counter s = 0 then 0 else 1)\<rparr>)"
  by (simp add: increase_ref_def numeral_2_eq_2 Let_def)

definition fork_set_error :: "'e \<Rightarrow> 'e fork_op \<Rightarrow> 'e fork_op" where
  "fork_set_error err s =
     (if completion_type s = 0
      then (let s1 = s\<lparr>completion_type := 1, fork_error := Some err\<rparr>
            in if completion_type s1 = 1 then s1\<lparr>completion_type := 2\<rparr> else s1)
      else s)"

definition fork_set_stopped :: "'e fork_op \<Rightarrow> 'e fork_op" where
  "fork_set_stopped s = s\<lparr>completion_type := 3\<rparr>"

definition fork_complete :: "stop_token \<Rightarrow> 'e fork_op \<Rightarrow> 'e fork_op" where
  "fork_complete token s =
     (let s1 = s\<lparr>has_callback := False\<rparr>
      in if completion_type s1 = 3 then
           s1\<lparr>fork_completed := fork_completed s1 @ [Set_Stopped]\<rparr>
         else if completion_type s1 = 2 then
           (case fork_error s1 of
              None \<Rightarrow> s1
            | Some e \<Rightarrow> s1\<lparr>fork_completed := fork_completed s1 @ [Set_Error e]\<rparr>)
         else s1\<lparr>fork_completed := fork_completed s1 @ [set_value_unless_stopped token]\<rparr>)"

definition decrease_ref :: "stop_token \<Rightarrow> 'e fork_op \<Rightarrow> 'e fork_op" where
  "decrease_ref token s =
     (let s1 = s\<lparr>ref_counter := ref_counter s - 1\<rparr>
      in if ref_counter s = 1 then fork_complete token s1 else s1)"

definition request_stop :: "'e fork_op \<Rightarrow> 'e fork_op" where
  "request_stop s =
     (let s1 = s\<lparr>is_stop_requested := True\<rparr>
      in if \<not> is_stop_requested s then s1\<lparr>fork_stop_source := True\<rparr> else s1)"

definition on_stop_requested :: "stop_token \<Rightarrow> 'e fork_op \<Rightarrow> 'e fork_op" where
  "on_stop_requested token s = decrease_ref token (request_stop s)"

text \<open>\<^verbatim>\<open>start\<close>: the result says whether the child sequence is started.\<close>

definition fork_start :: "stop_token \<Rightarrow> 'e fork_op \<Rightarrow> 'e fork_op \<times> bool" where
  "fork_start token s =
     (let s1 = s\<lparr>has_callback := True\<rparr>;
          s2 = (if stop_requested token then on_stop_requested token s1 else s1)
      in if fork_stop_source s2 then
           (s2\<lparr>has_callback := False, fork_completed := fork_completed s2 @ [Set_Stopped]\<rparr>, False)
         else (s2\<lparr>ref_counter := 1\<rparr>, True))"

subsection \<open>The receiver of the sequence\<close>

definition fork_sequence_complete ::
  "stop_token \<Rightarrow> (unit, 'e) signal \<Rightarrow> 'e fork_op \<Rightarrow> 'e fork_op" where
  "fork_sequence_complete token sig s =
     (case sig of
        Set_Value _ \<Rightarrow> decrease_ref token s
      | Set_Error e \<Rightarrow> decrease_ref token (request_stop (fork_set_error e s))
      | Set_Stopped \<Rightarrow> decrease_ref token (request_stop (fork_set_stopped s)))"

text \<open>
  An item first takes a reference; without one it is stopped before it starts. Then the item sender
  runs; its values go into an item operation. \<open>Inl\<close> is the state after an item that ended here.
\<close>

definition fork_item_stopped :: "stop_token \<Rightarrow> 'e fork_op \<Rightarrow> 'e fork_op" where
  "fork_item_stopped token s = decrease_ref token (request_stop s)"

definition fork_item_error :: "stop_token \<Rightarrow> 'e \<Rightarrow> 'e fork_op \<Rightarrow> 'e fork_op" where
  "fork_item_error token e s = decrease_ref token (request_stop (fork_set_error e s))"

definition fork_set_next :: "stop_token \<Rightarrow> 'e fork_op \<Rightarrow> ('e fork_op + 'e fork_op) option" where
  "fork_set_next token s = do {
     (ok, s1) \<leftarrow> increase_ref s;
     Some (if ok then Inr s1 else Inl (fork_item_stopped token s1))
   }"

subsection \<open>Item operations\<close>

text \<open>
  A started item operation is released at once when stop was requested. Otherwise its next sender
  runs and completes, and then it is released; when the release is done a reference is given back.
\<close>

definition item_starts :: "'e fork_op \<Rightarrow> bool" where
  "item_starts s \<longleftrightarrow> \<not> fork_stop_source s"

definition item_op_set_stopped :: "'e fork_op \<Rightarrow> 'e fork_op" where
  "item_op_set_stopped s = request_stop s"

definition final_set_value :: "stop_token \<Rightarrow> 'e fork_op \<Rightarrow> 'e fork_op" where
  "final_set_value token s = decrease_ref token s"

subsection \<open>All interleavings\<close>

datatype item_phase = Item_Running | Next_Running | Deleting

text \<open>
  A configuration is the operation, the items that hold a reference, and whether the sequence has
  completed and stop was requested from outside.
\<close>

record ('i, 'e) fork_config =
  op :: "'e fork_op"
  items :: "'i \<rightharpoonup> item_phase"
  sequence_done :: bool
  stopped_outside :: bool

definition token_of :: "('i, 'e) fork_config \<Rightarrow> stop_token" where
  "token_of c = Stoppable (stopped_outside c)"

inductive fork_step :: "('i, 'e) fork_config \<Rightarrow> ('i, 'e) fork_config \<Rightarrow> bool" where
  set_next: "\<not> sequence_done c \<Longrightarrow> items c i = None \<Longrightarrow>
    fork_set_next (token_of c) (op c) = Some (Inr s) \<Longrightarrow>
    fork_step c (c\<lparr>op := s, items := (items c)(i \<mapsto> Item_Running)\<rparr>)"
| set_next_refused: "\<not> sequence_done c \<Longrightarrow> fork_set_next (token_of c) (op c) = Some (Inl s) \<Longrightarrow>
    fork_step c (c\<lparr>op := s\<rparr>)"
| item_stopped: "items c i = Some Item_Running \<Longrightarrow>
    fork_step c (c\<lparr>op := fork_item_stopped (token_of c) (op c), items := (items c)(i := None)\<rparr>)"
| item_error: "items c i = Some Item_Running \<Longrightarrow>
    fork_step c (c\<lparr>op := fork_item_error (token_of c) e (op c), items := (items c)(i := None)\<rparr>)"
| item_start: "items c i = Some Item_Running \<Longrightarrow>
    fork_step c (c\<lparr>items := (items c)(i \<mapsto> (if item_starts (op c) then Next_Running else Deleting))\<rparr>)"
| next_value: "items c i = Some Next_Running \<Longrightarrow>
    fork_step c (c\<lparr>items := (items c)(i \<mapsto> Deleting)\<rparr>)"
| next_stopped: "items c i = Some Next_Running \<Longrightarrow>
    fork_step c (c\<lparr>op := item_op_set_stopped (op c), items := (items c)(i \<mapsto> Deleting)\<rparr>)"
| deleted: "items c i = Some Deleting \<Longrightarrow>
    fork_step c (c\<lparr>op := final_set_value (token_of c) (op c), items := (items c)(i := None)\<rparr>)"
| sequence_complete: "\<not> sequence_done c \<Longrightarrow>
    fork_step c (c\<lparr>op := fork_sequence_complete (token_of c) sig (op c), sequence_done := True\<rparr>)"
| stop: "\<not> stopped_outside c \<Longrightarrow> has_callback (op c) \<Longrightarrow>
    fork_step c (c\<lparr>op := on_stop_requested (Stoppable True) (op c), stopped_outside := True\<rparr>)"

inductive fork_reach :: "('i, 'e) fork_config \<Rightarrow> bool" where
  start: "fork_reach \<lparr>op = fst (fork_start (Stoppable False) fork_init), items = Map.empty,
    sequence_done = False, stopped_outside = False\<rparr>"
| step: "fork_reach c \<Longrightarrow> fork_step c c' \<Longrightarrow> fork_reach c'"


subsection \<open>What the reference count counts\<close>

definition holders :: "('i, 'e) fork_config \<Rightarrow> int" where
  "holders c = int (card (dom (items c))) + (if sequence_done c then 0 else 1)"

definition fork_ok :: "'e fork_op \<Rightarrow> bool" where
  "fork_ok s \<longleftrightarrow> completion_type s \<in> {0, 2, 3} \<and> (completion_type s = 2 \<longrightarrow> fork_error s \<noteq> None)"

lemma fork_updates [simp]:
  "ref_counter (request_stop s) = ref_counter s" "fork_completed (request_stop s) = fork_completed s"
  "has_callback (request_stop s) = has_callback s" "fork_ok (request_stop s) = fork_ok s"
  "ref_counter (fork_set_error e s) = ref_counter s"
  "fork_completed (fork_set_error e s) = fork_completed s"
  "has_callback (fork_set_error e s) = has_callback s"
  "ref_counter (fork_set_stopped s) = ref_counter s"
  "fork_completed (fork_set_stopped s) = fork_completed s"
  "has_callback (fork_set_stopped s) = has_callback s"
  "fork_ok s \<Longrightarrow> fork_ok (fork_set_error e s)" "fork_ok s \<Longrightarrow> fork_ok (fork_set_stopped s)"
  by (auto simp: request_stop_def fork_set_error_def fork_set_stopped_def fork_ok_def Let_def)

lemma decrease_ref_simps [simp]:
  "ref_counter (decrease_ref t s) = ref_counter s - 1"
  "has_callback (decrease_ref t s) \<longleftrightarrow> ref_counter s \<noteq> 1 \<and> has_callback s"
  "fork_ok (decrease_ref t s) = fork_ok s"
  by (auto simp: decrease_ref_def fork_complete_def fork_ok_def Let_def split: option.split)

lemma decrease_ref_completed [simp]:
  assumes "fork_ok s"
  shows "length (fork_completed (decrease_ref t s)) =
      length (fork_completed s) + (if ref_counter s = 1 then 1 else 0)"
    "fork_completed (decrease_ref t s) = [] \<longleftrightarrow> fork_completed s = [] \<and> ref_counter s \<noteq> 1"
  using assms
  by (auto simp: decrease_ref_def fork_complete_def fork_ok_def Let_def split: option.split)

definition fork_inv :: "('i, 'e) fork_config \<Rightarrow> bool" where
  "fork_inv c \<longleftrightarrow> finite (dom (items c)) \<and> fork_ok (op c) \<and> length (fork_completed (op c)) \<le> 1 \<and>
     (if stopped_outside c then
        (fork_completed (op c) = [] \<longrightarrow> ref_counter (op c) = holders c - 1 \<and> ref_counter (op c) \<ge> 1) \<and>
        (fork_completed (op c) \<noteq> [] \<longrightarrow> ref_counter (op c) \<le> 0)
      else ref_counter (op c) = holders c \<and> (has_callback (op c) \<longleftrightarrow> fork_completed (op c) = []) \<and>
        (fork_completed (op c) = [] \<longleftrightarrow> holders c \<noteq> 0))"

lemma holders_ge: "holders c \<ge> 0"
  by (simp add: holders_def)

lemma card_dom_insert: "finite (dom m) \<Longrightarrow> m i = None \<Longrightarrow> int (card (dom (m(i \<mapsto> x)))) = int (card (dom m)) + 1"
  by (simp add: domIff)

lemma card_dom_same: "m i = Some y \<Longrightarrow> insert i (dom m) = dom m"
  by auto

lemma card_dom_remove:
  assumes "finite (dom m)" "m i = Some x"
  shows "int (card (dom (m(i := None)))) = int (card (dom m)) - 1" "card (dom m) > 0"
proof -
  have i: "i \<in> dom m" using assms(2) by blast
  with assms(1) show pos: "card (dom m) > 0" by (auto simp: card_gt_0_iff)
  have "dom (m(i := None)) = dom m - {i}" by auto
  with assms(1) i pos show "int (card (dom (m(i := None)))) = int (card (dom m)) - 1"
    by (simp add: card_Diff_singleton of_nat_diff)
qed

text \<open>An item or the sequence gives its reference back.\<close>

lemma fork_inv_release:
  assumes inv: "fork_inv c" and s: "ref_counter s = ref_counter (op c)" "fork_ok s"
      "fork_completed s = fork_completed (op c)" "has_callback s = has_callback (op c)"
    and c': "op c' = decrease_ref t s" "finite (dom (items c'))" "holders c' = holders c - 1"
      "stopped_outside c' = stopped_outside c"
  shows "fork_inv c'"
  using inv s c' holders_ge [of c'] holders_ge [of c] unfolding fork_inv_def by auto

lemma fork_step_inv:
  assumes "fork_step c c'" "fork_inv c"
  shows "fork_inv c'"
  using assms
proof (cases rule: fork_step.cases)
  case (set_next i s)
  with assms(2) have fin: "finite (dom (items c))" by (simp add: fork_inv_def)
  from set_next have "ref_counter (op c) \<noteq> 0" "s = (op c)\<lparr>ref_counter := ref_counter (op c) + 1\<rparr>"
    by (auto simp: fork_set_next_def increase_ref_spec split: if_splits)
  moreover have "holders c' = holders c + 1"
    using set_next card_dom_insert [OF fin] by (simp add: holders_def)
  ultimately show ?thesis
    using set_next assms(2) holders_ge [of c] unfolding fork_inv_def by (auto simp: fork_ok_def)
next
  case (set_next_refused s)
  then have ref: "ref_counter (op c) = 0"
    "s = fork_item_stopped (token_of c) ((op c)\<lparr>ref_counter := 0\<rparr>)"
    by (auto simp: fork_set_next_def increase_ref_spec split: if_splits)
  moreover from ref(1) have "(op c)\<lparr>ref_counter := 0\<rparr> = op c" by (cases "op c") simp
  ultimately have "ref_counter (op c) = 0" "s = fork_item_stopped (token_of c) (op c)" by simp_all
  moreover have "holders c > 0" "holders c' = holders c"
    using set_next_refused by (simp_all add: holders_def)
  ultimately show ?thesis
    using ref(1) set_next_refused assms(2) unfolding fork_inv_def
    by (auto simp: fork_item_stopped_def split: if_splits)
next
  case (item_stopped i)
  with assms(2) have fin: "finite (dom (items c))" by (simp add: fork_inv_def)
  show ?thesis
    by (rule fork_inv_release [OF assms(2), of "request_stop (op c)" c' "token_of c"])
      (use item_stopped assms(2) fin card_dom_remove [OF fin] in
        \<open>auto simp: fork_inv_def fork_item_stopped_def holders_def\<close>)
next
  case (item_error i e)
  with assms(2) have fin: "finite (dom (items c))" by (simp add: fork_inv_def)
  show ?thesis
    by (rule fork_inv_release [OF assms(2), of "request_stop (fork_set_error e (op c))" c' "token_of c"])
      (use item_error assms(2) fin card_dom_remove [OF fin] in
        \<open>auto simp: fork_inv_def fork_item_error_def holders_def\<close>)
next
  case (deleted i)
  with assms(2) have fin: "finite (dom (items c))" by (simp add: fork_inv_def)
  show ?thesis
    by (rule fork_inv_release [OF assms(2), of "op c" c' "token_of c"])
      (use deleted assms(2) fin card_dom_remove [OF fin] in
        \<open>auto simp: fork_inv_def final_set_value_def holders_def\<close>)
next
  case (sequence_complete sig)
  show ?thesis
    by (rule fork_inv_release [OF assms(2), of "case sig of Set_Value _ \<Rightarrow> op c
        | Set_Error e \<Rightarrow> request_stop (fork_set_error e (op c))
        | Set_Stopped \<Rightarrow> request_stop (fork_set_stopped (op c))" c' "token_of c"])
      (use sequence_complete assms(2) in
        \<open>auto simp: fork_inv_def fork_sequence_complete_def holders_def split: signal.split\<close>)
next
  case stop
  then have "holders c' = holders c" by (simp add: holders_def)
  with stop assms(2) holders_ge [of c] show ?thesis
    by (auto simp: fork_inv_def on_stop_requested_def)
qed (auto simp: fork_inv_def holders_def card_dom_same item_op_set_stopped_def)

lemma fork_reach_inv: "fork_reach c \<Longrightarrow> fork_inv c"
proof (induction rule: fork_reach.induct)
  case start
  show ?case
    by (simp add: fork_start_def fork_init_def fork_inv_def fork_ok_def holders_def stop_requested_def
        Let_def)
qed (rule fork_step_inv)


subsection \<open>Properties\<close>

text \<open>C10 (fork). As long as no stop request came from outside, the fork operation completes exactly once: when the
  sequence has completed and every item operation has been released, and not before. In no case
  does it complete twice.\<close>

theorem fork_completes_last:
  assumes "fork_reach c"
  shows "length (fork_completed (op c)) \<le> 1 \<and>
    (\<not> stopped_outside c \<longrightarrow>
      (fork_completed (op c) \<noteq> [] \<longleftrightarrow> sequence_done c \<and> items c = Map.empty))"
proof -
  have inv: "fork_inv c" using fork_reach_inv [OF assms] .
  then have "finite (dom (items c))" by (simp add: fork_inv_def)
  then have "holders c = 0 \<longleftrightarrow> sequence_done c \<and> items c = Map.empty"
    by (auto simp: holders_def)
  with inv show ?thesis by (auto simp: fork_inv_def)
qed

lemma fork_start_op:
  "fst (fork_start (Stoppable False) fork_init) = fork_init\<lparr>has_callback := True, ref_counter := 1\<rparr>"
  by (simp add: fork_start_def fork_init_def stop_requested_def)

definition fork_started :: "(nat, nat) fork_config" where
  "fork_started = \<lparr>op = fst (fork_start (Stoppable False) fork_init), items = Map.empty,
     sequence_done = False, stopped_outside = False\<rparr>"

lemma fork_started_reach: "fork_reach fork_started"
  unfolding fork_started_def by (rule fork_reach.start)

definition fork_finished :: "(nat, nat) fork_config" where
  "fork_finished = fork_started\<lparr>op := fork_sequence_complete (Stoppable False) (Set_Value ())
     (op fork_started), sequence_done := True\<rparr>"

lemma fork_finished_reach: "fork_reach fork_finished"
  using fork_reach.step [OF fork_started_reach
      fork_step.sequence_complete [of fork_started "Set_Value ()"]]
  by (simp add: fork_finished_def fork_started_def token_of_def)

theorem fork_completes_last_witness:
  "fork_completed (op fork_finished) \<noteq> [] \<and> sequence_done fork_finished"
  using fork_completes_last [OF fork_finished_reach]
  by (simp add: fork_finished_def fork_started_def)

text \<open>Remark (fork_stop). A stop request from outside gives back a reference that nobody took, so that the operation then
  completes while one holder is still left: as soon as only the sequence or only one item remains,
  the operation has completed already, and what remains runs on an operation its owner may have
  destroyed.\<close>

theorem fork_stop_completes_early:
  assumes "fork_reach c" "stopped_outside c" "holders c = 1"
  shows "fork_completed (op c) \<noteq> [] \<and>
    (\<not> sequence_done c \<and> items c = Map.empty \<or> sequence_done c \<and> (\<exists>i. dom (items c) = {i}))"
proof -
  have inv: "fork_inv c" using fork_reach_inv [OF assms(1)] .
  with assms(2,3) have "fork_completed (op c) \<noteq> []" by (auto simp: fork_inv_def)
  moreover have "\<not> sequence_done c \<and> items c = Map.empty \<or> sequence_done c \<and> (\<exists>i. dom (items c) = {i})"
    using assms(3) inv by (auto simp: holders_def fork_inv_def card_1_singleton_iff split: if_splits)
  ultimately show ?thesis by blast
qed

theorem fork_stop_completes_early_witness:
  "fork_completed (op (fork_started\<lparr>op := on_stop_requested (Stoppable True) (op fork_started),
     stopped_outside := True\<rparr>)) = [Set_Stopped]"
proof -
  let ?c = "fork_started\<lparr>op := on_stop_requested (Stoppable True) (op fork_started),
    stopped_outside := True\<rparr>"
  have "fork_reach ?c"
    by (rule fork_reach.step [OF fork_started_reach], rule fork_step.stop)
      (simp_all add: fork_started_def fork_start_op)
  from fork_stop_completes_early [OF this] have "fork_completed (op ?c) \<noteq> []"
    by (simp add: fork_started_def holders_def)
  then show ?thesis
    unfolding fork_started_def fork_start_op
    by (simp add: on_stop_requested_def decrease_ref_def request_stop_def fork_complete_def
        fork_init_def set_value_unless_stopped_def Let_def)
qed

end
