(* ===== verification/Fork_Items.thy ===== *)
theory Fork_Items
  imports Fork
begin

text \<open>
  The storage of the item operations of \<^verbatim>\<open>sequence/fork.hpp\<close>. An item operation is made with \<^verbatim>\<open>async_new\<close>. To release
  itself it connects \<^verbatim>\<open>async_delete\<close> in its own storage, so that the operation which deletes the object is a part of the object.
  The delete operations of both allocators (\<^verbatim>\<open>async_allocator.hpp\<close> and \<^verbatim>\<open>memory_pool.hpp\<close>) are modelled statement by
  statement, with a check that what a statement reads is alive.
\<close>

subsection \<open>Lifetimes\<close>

text \<open>The union in an item operation holds the operation of its next sender, then the delete operation.\<close>

datatype inner_operation = Next_Op | Delete_Op | No_Op

datatype item_storage = Raw_Storage | Item_Object inner_operation

type_synonym item_heap = "u64 \<rightharpoonup> item_storage"

definition storage_free :: "u64 \<Rightarrow> item_heap \<Rightarrow> item_heap option" where
  "storage_free p h = (if h p = Some Raw_Storage then Some (h(p := None)) else None)"

definition item_construct :: "u64 \<Rightarrow> item_heap \<Rightarrow> item_heap option" where
  "item_construct p h = (if h p = Some Raw_Storage then Some (h(p \<mapsto> Item_Object Next_Op)) else None)"

text \<open>The destructor destroys the delete operation in the union, whatever is in it.\<close>

definition item_destroy :: "u64 \<Rightarrow> item_heap \<Rightarrow> item_heap option" where
  "item_destroy p h = (if h p = Some (Item_Object Delete_Op) then Some (h(p \<mapsto> Raw_Storage)) else None)"

definition destroy_next :: "u64 \<Rightarrow> item_heap \<Rightarrow> item_heap option" where
  "destroy_next p h = (if h p = Some (Item_Object Next_Op) then Some (h(p \<mapsto> Item_Object No_Op)) else None)"

definition construct_delete :: "u64 \<Rightarrow> item_heap \<Rightarrow> item_heap option" where
  "construct_delete p h = (if h p = Some (Item_Object No_Op) then Some (h(p \<mapsto> Item_Object Delete_Op)) else None)"

text \<open>\<^verbatim>\<open>start_delete_operation\<close>, up to the start of the delete operation.\<close>

definition start_delete_operation :: "u64 \<Rightarrow> item_heap \<Rightarrow> item_heap option" where
  "start_delete_operation p h = do {
     h1 \<leftarrow> destroy_next p h;
     construct_delete p h1
   }"

text \<open>Allocation at a free address and construction; when the constructor throws the storage is given back.\<close>

definition item_new :: "bool \<Rightarrow> u64 \<Rightarrow> item_heap \<Rightarrow> item_heap option" where
  "item_new throws p h =
     (let h1 = h(p \<mapsto> Raw_Storage) in if throws then storage_free p h1 else item_construct p h1)"

subsection \<open>The delete operations\<close>

text \<open>A delete operation is in the object at \<open>self\<close>, or not in an object (\<open>None\<close>). Its members can be read while it is alive.\<close>

definition read_member :: "u64 option \<Rightarrow> item_heap \<Rightarrow> unit option" where
  "read_member self h =
     (case self of
        None \<Rightarrow> Some ()
      | Some p \<Rightarrow> if h p = Some (Item_Object Delete_Op) then Some () else None)"

text \<open>\<^verbatim>\<open>delete_operation::start\<close> moves the receiver and the pointer to the stack first.\<close>

definition delete_operation_start :: "u64 option \<Rightarrow> u64 \<Rightarrow> item_heap \<Rightarrow> item_heap option" where
  "delete_operation_start self pointer h = do {
     rcvr \<leftarrow> read_member self h;
     p \<leftarrow> map_option (\<lambda>_. pointer) (read_member self h);
     h1 \<leftarrow> item_destroy p h;
     storage_free p h1
   }"

text \<open>\<^verbatim>\<open>deallocate_operation::start\<close> of a pool destroys the object, and then moves the receiver and reads the pool and the pointer.\<close>

definition deallocate_operation_start :: "bool \<Rightarrow> u64 option \<Rightarrow> u64 \<Rightarrow> item_heap \<Rightarrow> item_heap option" where
  "deallocate_operation_start destroy self pointer h = do {
     d \<leftarrow> map_option (\<lambda>_. destroy) (read_member self h);
     h1 \<leftarrow> (if d then do {
               p \<leftarrow> map_option (\<lambda>_. pointer) (read_member self h);
               item_destroy p h
             } else Some h);
     receiver \<leftarrow> read_member self h1;
     p \<leftarrow> map_option (\<lambda>_. pointer) (read_member self h1);
     storage_free p h1
   }"

datatype item_allocator = New_Delete | Over_Pool

fun async_delete_start :: "item_allocator \<Rightarrow> u64 option \<Rightarrow> u64 \<Rightarrow> item_heap \<Rightarrow> item_heap option" where
  "async_delete_start New_Delete self pointer h = delete_operation_start self pointer h"
| "async_delete_start Over_Pool self pointer h = deallocate_operation_start True self pointer h"

lemmas lifetime_defs = storage_free_def item_construct_def item_destroy_def destroy_next_def construct_delete_def
  start_delete_operation_def item_new_def

lemma item_new_simps [simp]:
  "item_new False p h = Some (h(p \<mapsto> Item_Object Next_Op))"
  "item_new True p h = Some (h(p := None))"
  by (simp_all add: lifetime_defs)

lemma start_delete_operation_eq:
  "start_delete_operation p h =
     (if h p = Some (Item_Object Next_Op) then Some (h(p \<mapsto> Item_Object Delete_Op)) else None)"
  by (simp add: lifetime_defs)

lemma delete_operation_start_eq:
  "delete_operation_start (Some p) p h =
     (if h p = Some (Item_Object Delete_Op) then Some (h(p := None)) else None)"
  by (simp add: delete_operation_start_def read_member_def lifetime_defs)

subsection \<open>All interleavings, with the storage\<close>

record ('i, 'e) fork_storage =
  fk :: "('i, 'e) fork_config"
  ih :: item_heap
  item_at :: "'i \<rightharpoonup> u64"

definition item_op_phase :: "('i, 'e) fork_config \<Rightarrow> 'i \<Rightarrow> item_phase option" where
  "item_op_phase c i = (if items c i = Some Item_Running then None else items c i)"

text \<open>
  \<open>other\<close> are the steps of the operation that do not touch an item operation. The values of an item make an item operation,
  which is started, and released at once when stop was requested; allocating or constructing can fail. When its
  next sender completes it starts to release itself, and \<open>released\<close> is the delete operation.
\<close>

inductive items_step :: "item_allocator \<Rightarrow> ('i, 'e) fork_storage \<Rightarrow> ('i, 'e) fork_storage \<Rightarrow> bool" for al where
  other: "fork_step (fk s) c' \<Longrightarrow> item_op_phase c' = item_op_phase (fk s) \<Longrightarrow> items_step al s (s\<lparr>fk := c'\<rparr>)"
| created: "items (fk s) i = Some Item_Running \<Longrightarrow> ih s p = None \<Longrightarrow> item_starts (op (fk s)) \<Longrightarrow>
    item_new False p (ih s) = Some h \<Longrightarrow>
    items_step al s (s\<lparr>fk := (fk s)\<lparr>items := (items (fk s))(i \<mapsto> Next_Running)\<rparr>, ih := h, item_at := (item_at s)(i \<mapsto> p)\<rparr>)"
| created_stopped: "items (fk s) i = Some Item_Running \<Longrightarrow> ih s p = None \<Longrightarrow> \<not> item_starts (op (fk s)) \<Longrightarrow>
    item_new False p (ih s) = Some h \<Longrightarrow> start_delete_operation p h = Some h1 \<Longrightarrow>
    items_step al s (s\<lparr>fk := (fk s)\<lparr>items := (items (fk s))(i \<mapsto> Deleting)\<rparr>, ih := h1, item_at := (item_at s)(i \<mapsto> p)\<rparr>)"
| new_throws: "items (fk s) i = Some Item_Running \<Longrightarrow> ih s p = None \<Longrightarrow> item_new True p (ih s) = Some h \<Longrightarrow>
    items_step al s (s\<lparr>fk := (fk s)\<lparr>op := fork_item_error (token_of (fk s)) e (op (fk s)),
      items := (items (fk s))(i := None)\<rparr>, ih := h\<rparr>)"
| next_value: "items (fk s) i = Some Next_Running \<Longrightarrow> item_at s i = Some p \<Longrightarrow>
    start_delete_operation p (ih s) = Some h \<Longrightarrow>
    items_step al s (s\<lparr>fk := (fk s)\<lparr>items := (items (fk s))(i \<mapsto> Deleting)\<rparr>, ih := h\<rparr>)"
| next_stopped: "items (fk s) i = Some Next_Running \<Longrightarrow> item_at s i = Some p \<Longrightarrow>
    start_delete_operation p (ih s) = Some h \<Longrightarrow>
    items_step al s (s\<lparr>fk := (fk s)\<lparr>op := item_op_set_stopped (op (fk s)), items := (items (fk s))(i \<mapsto> Deleting)\<rparr>, ih := h\<rparr>)"
| released: "items (fk s) i = Some Deleting \<Longrightarrow> item_at s i = Some p \<Longrightarrow>
    async_delete_start al (Some p) p (ih s) = Some h \<Longrightarrow>
    items_step al s (s\<lparr>fk := (fk s)\<lparr>op := final_set_value (token_of (fk s)) (op (fk s)), items := (items (fk s))(i := None)\<rparr>,
      ih := h, item_at := (item_at s)(i := None)\<rparr>)"

definition items_init :: "('i, 'e) fork_storage" where
  "items_init = \<lparr>fk = \<lparr>op = fst (fork_start (Stoppable False) fork_init), items = Map.empty, sequence_done = False,
     stopped_outside = False\<rparr>, ih = Map.empty, item_at = Map.empty\<rparr>"

inductive items_reach :: "item_allocator \<Rightarrow> ('i, 'e) fork_storage \<Rightarrow> bool" for al where
  init: "items_reach al items_init"
| step: "items_reach al s \<Longrightarrow> items_step al s s' \<Longrightarrow> items_reach al s'"

text \<open>The configuration of \<open>Fork\<close> is an abstraction of this one.\<close>

lemma items_step_refines: "items_step al s s' \<Longrightarrow> fork_step (fk s) (fk s')"
proof (induction rule: items_step.induct)
  case (created s i p h)
  then show ?case using fork_step.item_start [of "fk s" i] by simp
next
  case (created_stopped s i p h h1)
  then show ?case using fork_step.item_start [of "fk s" i] by simp
qed (auto intro: fork_step.intros)

lemma items_reach_fork: "items_reach al s \<Longrightarrow> fork_reach (fk s)"
proof (induction rule: items_reach.induct)
  case init
  show ?case using fork_reach.start by (simp add: items_init_def)
next
  case (step s s')
  then show ?case by (blast intro: fork_reach.step items_step_refines)
qed

subsection \<open>What is alive\<close>

fun inner_of :: "item_phase \<Rightarrow> inner_operation" where
  "inner_of Item_Running = No_Op"
| "inner_of Next_Running = Next_Op"
| "inner_of Deleting = Delete_Op"

text \<open>The allocated storage is that of the item operations, and the union of each holds what its phase needs.\<close>

definition item_storage_ok :: "('i \<rightharpoonup> item_phase) \<Rightarrow> ('i \<rightharpoonup> u64) \<Rightarrow> item_heap \<Rightarrow> bool" where
  "item_storage_ok phase at h \<longleftrightarrow>
     (\<forall>i. at i = None \<longleftrightarrow> phase i = None) \<and> inj_on at (dom at) \<and>
     (\<forall>i p. at i = Some p \<longrightarrow> h p = map_option (\<lambda>ph. Item_Object (inner_of ph)) (phase i)) \<and> dom h = ran at"

lemma item_storage_add:
  assumes "item_storage_ok phase at h" "phase i = None" "h p = None"
  shows "item_storage_ok (phase(i \<mapsto> ph)) (at(i \<mapsto> p)) (h(p \<mapsto> Item_Object (inner_of ph)))"
proof -
  have new: "at i = None" "p \<notin> ran at" using assms by (auto simp: item_storage_ok_def)
  then have "at j \<noteq> Some p" for j by (auto simp: ran_def)
  with assms new show ?thesis by (auto simp: item_storage_ok_def inj_on_def dom_def)
qed

lemma storage_change:
  assumes "item_storage_ok phase at h" "at i = Some p"
  shows "item_storage_ok (phase(i \<mapsto> ph)) at (h(p \<mapsto> Item_Object (inner_of ph)))"
proof -
  have at: "j \<noteq> i \<Longrightarrow> at j \<noteq> Some p" for j using assms by (auto simp: item_storage_ok_def inj_on_def dom_def)
  have "p \<in> ran at" using assms(2) by (auto simp: ran_def)
  moreover have "phase i \<noteq> None" using assms by (metis item_storage_ok_def option.distinct(1))
  ultimately have "p \<in> ran at" "phase i \<noteq> None" .
  with assms at show ?thesis by (auto simp: item_storage_ok_def)
qed

lemma storage_remove:
  assumes "item_storage_ok phase at h" "at i = Some p"
  shows "item_storage_ok (phase(i := None)) (at(i := None)) (h(p := None))"
proof -
  have at: "j \<noteq> i \<Longrightarrow> at j \<noteq> Some p" for j using assms by (auto simp: item_storage_ok_def inj_on_def dom_def)
  have "ran (at(i := None)) = ran at - {p}" using at assms(2) by (force simp: ran_def)
  with assms at show ?thesis by (auto simp: item_storage_ok_def inj_on_def)
qed

lemma item_op_phase_simps [simp]:
  "ph \<noteq> Item_Running \<Longrightarrow> item_op_phase (c\<lparr>items := (items c)(i \<mapsto> ph)\<rparr>) = (item_op_phase c)(i \<mapsto> ph)"
  "item_op_phase (c\<lparr>items := (items c)(i := None)\<rparr>) = (item_op_phase c)(i := None)"
  "item_op_phase (c\<lparr>op := s\<rparr>) = item_op_phase c"
  "item_op_phase (c\<lparr>op := s, items := m\<rparr>) = item_op_phase (c\<lparr>items := m\<rparr>)"
  by (auto simp: item_op_phase_def fun_eq_iff)

lemma items_step_storage:
  assumes "items_step al s s'" "item_storage_ok (item_op_phase (fk s)) (item_at s) (ih s)"
  shows "item_storage_ok (item_op_phase (fk s')) (item_at s') (ih s')"
  using assms
proof (induction rule: items_step.induct)
  case (created s i p h)
  moreover from this have "item_op_phase (fk s) i = None" by (simp add: item_op_phase_def)
  ultimately show ?case using item_storage_add [of "item_op_phase (fk s)" "item_at s" "ih s" i p Next_Running]
    by simp (simp only: fun_upd_def)
next
  case (created_stopped s i p h h1)
  moreover from this have "item_op_phase (fk s) i = None" "h1 = (ih s)(p \<mapsto> Item_Object Delete_Op)"
    by (auto simp: item_op_phase_def start_delete_operation_eq)
  ultimately show ?case using item_storage_add [of "item_op_phase (fk s)" "item_at s" "ih s" i p Deleting]
    by simp (simp only: fun_upd_def)
next
  case (new_throws s i p h e)
  then have "(item_op_phase (fk s))(i := None) = item_op_phase (fk s)" "h = ih s"
    by (simp_all add: item_op_phase_def fun_upd_idem)
  with new_throws show ?case by simp
next
  case (next_value s i p h)
  then have "h = (ih s)(p \<mapsto> Item_Object Delete_Op)" by (auto simp: start_delete_operation_eq split: if_splits)
  with next_value storage_change [of "item_op_phase (fk s)" "item_at s" "ih s" i p Deleting] show ?case
    by simp (simp only: fun_upd_def)
next
  case (next_stopped s i p h)
  then have "h = (ih s)(p \<mapsto> Item_Object Delete_Op)" by (auto simp: start_delete_operation_eq split: if_splits)
  with next_stopped storage_change [of "item_op_phase (fk s)" "item_at s" "ih s" i p Deleting] show ?case
    by simp (simp only: fun_upd_def)
next
  case (released s i p h)
  then have "h = (ih s)(p := None)"
    by (cases al) (auto simp: delete_operation_start_eq deallocate_operation_start_def read_member_def lifetime_defs
        split: if_splits bind_splits)
  with released storage_remove [of "item_op_phase (fk s)" "item_at s" "ih s" i p] show ?case by simp (simp only: fun_upd_def)
qed simp

lemma items_reach_storage: "items_reach al s \<Longrightarrow> item_storage_ok (item_op_phase (fk s)) (item_at s) (ih s)"
proof (induction rule: items_reach.induct)
  case init
  show ?case by (simp add: items_init_def item_storage_ok_def item_op_phase_def)
next
  case (step s s')
  then show ?case by (blast intro: items_step_storage)
qed

lemma item_alive:
  assumes "items_reach al s" "items (fk s) i = Some ph" "ph \<noteq> Item_Running"
  shows "\<exists>p. item_at s i = Some p \<and> ih s p = Some (Item_Object (inner_of ph))"
proof -
  have ok: "item_storage_ok (item_op_phase (fk s)) (item_at s) (ih s)" by (rule items_reach_storage [OF assms(1)])
  have ph: "item_op_phase (fk s) i = Some ph" using assms(2,3) by (simp add: item_op_phase_def)
  with ok have "item_at s i \<noteq> None" by (simp add: item_storage_ok_def)
  then obtain p where p: "item_at s i = Some p" by blast
  with ok have "ih s p = map_option (\<lambda>ph. Item_Object (inner_of ph)) (item_op_phase (fk s) i)"
    unfolding item_storage_ok_def by blast
  with p ph show ?thesis by simp
qed

subsection \<open>Properties\<close>


text \<open>C40 (fork_over_pool). Over a memory pool every release of an item operation is undefined: the deallocate operation destroys the item operation, and
  so itself, and then reads its own receiver. The delete operation of \<^verbatim>\<open>new_delete_allocator\<close> is defined in the same state, and so is the
  deallocate operation when it is not in the object it destroys.\<close>

theorem fork_over_pool_undefined:
  assumes "items_reach al s" "items (fk s) i = Some Deleting" "item_at s i = Some p"
  shows "async_delete_start Over_Pool (Some p) p (ih s) = None \<and>
    async_delete_start New_Delete (Some p) p (ih s) = Some ((ih s)(p := None)) \<and>
    async_delete_start Over_Pool None p (ih s) = Some ((ih s)(p := None))"
proof -
  have "ih s p = Some (Item_Object Delete_Op)" using item_alive [OF assms(1,2)] assms(3) by auto
  then show ?thesis
    by (simp add: delete_operation_start_eq deallocate_operation_start_def read_member_def lifetime_defs)
qed

text \<open>An item whose next sender has completed.\<close>

lemma one_item_deleting:
  "\<exists>s :: (nat, nat) fork_storage. items_reach al s \<and> items (fk s) 0 = Some Deleting \<and> item_at s 0 = Some 64 \<and>
     ih s = [64 \<mapsto> Item_Object Delete_Op]"
proof -
  let ?s0 = "items_init :: (nat, nat) fork_storage"
  let ?c = "fk ?s0"
  have op: "op ?c = fork_init\<lparr>has_callback := True, ref_counter := 1\<rparr>" by (simp add: items_init_def fork_start_op)
  let ?s1 = "?s0\<lparr>fk := ?c\<lparr>op := (op ?c)\<lparr>ref_counter := 2\<rparr>, items := (items ?c)(0 \<mapsto> Item_Running)\<rparr>\<rparr>"
  have "fork_step ?c (?c\<lparr>op := (op ?c)\<lparr>ref_counter := 2\<rparr>, items := (items ?c)(0 \<mapsto> Item_Running)\<rparr>)"
    by (rule fork_step.set_next) (simp_all add: op fork_set_next_def increase_ref_def numeral_2_eq_2, simp_all add: items_init_def fork_init_def)
  then have "items_step al ?s0 ?s1"
    by (rule items_step.other) (auto simp: item_op_phase_def items_init_def fun_eq_iff)
  then have r1: "items_reach al ?s1" by (rule items_reach.step [OF items_reach.init])
  let ?s2 = "?s1\<lparr>fk := (fk ?s1)\<lparr>items := (items (fk ?s1))(0 \<mapsto> Next_Running)\<rparr>, ih := [64 \<mapsto> Item_Object Next_Op], item_at := [0 \<mapsto> 64]\<rparr>"
  have "items_step al ?s1 ?s2"
  proof -
    have "item_starts (op (fk ?s1))" by (simp add: op item_starts_def) (simp add: fork_init_def)
    moreover have "item_new False 64 (ih ?s1) = Some [64 \<mapsto> Item_Object Next_Op]" "ih ?s1 64 = None" "item_at ?s1 = Map.empty"
      by (simp_all add: items_init_def)
    moreover have "items (fk ?s1) 0 = Some Item_Running" by simp
    ultimately show ?thesis using items_step.created [of ?s1 0 64 "[64 \<mapsto> Item_Object Next_Op]" al] by simp
  qed
  then have r2: "items_reach al ?s2" by (rule items_reach.step [OF r1])
  let ?s3 = "?s2\<lparr>fk := (fk ?s2)\<lparr>items := (items (fk ?s2))(0 \<mapsto> Deleting)\<rparr>, ih := [64 \<mapsto> Item_Object Delete_Op]\<rparr>"
  have "items_step al ?s2 ?s3"
    by (rule items_step.next_value [where i = 0 and p = 64]) (simp_all add: start_delete_operation_eq)
  then have "items_reach al ?s3" by (rule items_reach.step [OF r2])
  then show ?thesis by (intro exI [of _ ?s3]) simp
qed


theorem fork_over_pool_undefined_witness:
  "\<exists>s :: (nat, nat) fork_storage. items_reach Over_Pool s \<and> async_delete_start Over_Pool (Some 64) 64 (ih s) = None"
proof -
  obtain s :: "(nat, nat) fork_storage" where s: "items_reach Over_Pool s" "items (fk s) 0 = Some Deleting" "item_at s 0 = Some 64"
    using one_item_deleting [of Over_Pool] by blast
  from fork_over_pool_undefined [OF this] s(1) show ?thesis by blast
qed

end
