(* ===== verification/Zip.thy ===== *)
theory Zip
  imports Sequence_Core
begin

text \<open>
  \<^verbatim>\<open>sequence/zip.hpp\<close>: the items of several sequences are queued, one queue for each sequence, and as soon as
  every queue has an item, the front items are taken and passed on as one zipped item.

  The queues are intrusive queues (\<open>Intrusive_Queue\<close>) and are modelled by their content: a queued item
  operation is its name and its result. Reading the front of an empty queue is undefined
  (\<open>None\<close>). Every function is what runs between two points where another thread can run.
\<close>

subsection \<open>The operation\<close>

record ('o, 'v, 'e) zip_op =
  z_queues :: "('o \<times> 'v) list list"
  n_ready :: int
  z_stop :: bool
  z_error :: "'e option"
  n_pending_ops :: int
  item_token :: "'o \<Rightarrow> stop_token"
  zipped :: "('o list \<times> 'v list) list"
  item_signals :: "('o \<times> (unit, 'e) signal) list"
  z_completed :: "(unit, 'e) signal list"

definition zip_init :: "nat \<Rightarrow> ('o \<Rightarrow> stop_token) \<Rightarrow> ('o, 'v, 'e) zip_op" where
  "zip_init n tokens = \<lparr>z_queues = replicate n [], n_ready = 0, z_stop = False, z_error = None,
     n_pending_ops = int n, item_token = tokens, zipped = [], item_signals = [], z_completed = []\<rparr>"

text \<open>\<^verbatim>\<open>start\<close> emplaces the stop callback, which runs at once when stop was requested; then the sequences are started.\<close>

definition zip_start :: "stop_token \<Rightarrow> ('o, 'v, 'e) zip_op \<Rightarrow> ('o, 'v, 'e) zip_op" where
  "zip_start token s = (if stop_requested token then s\<lparr>z_stop := True\<rparr> else s)"

lemma zip_start_simps [simp]:
  "z_queues (zip_start token s) = z_queues s" "n_ready (zip_start token s) = n_ready s"
  "z_error (zip_start token s) = z_error s" "n_pending_ops (zip_start token s) = n_pending_ops s"
  "item_token (zip_start token s) = item_token s" "zipped (zip_start token s) = zipped s"
  "item_signals (zip_start token s) = item_signals s" "z_completed (zip_start token s) = z_completed s"
  "z_stop (zip_start token s) \<longleftrightarrow> z_stop s \<or> stop_requested token"
  "zip_start Unstoppable s = s"
  by (simp_all add: zip_start_def stop_requested_def)

text \<open>
  An item operation completes its item receiver as stopped if stop was requested of the zip
  operation or of the item receiver, whose token is \<open>item_token\<close>, and otherwise with a value.
\<close>

definition complete_item :: "'o \<Rightarrow> ('o, 'v, 'e) zip_op \<Rightarrow> ('o, 'v, 'e) zip_op" where
  "complete_item p s =
     s\<lparr>item_signals := item_signals s @ 
       [(p, if z_stop s then Set_Stopped else set_value_unless_stopped (item_token s p))]\<rparr>"

definition complete_all_item_ops :: "'o list \<Rightarrow> ('o, 'v, 'e) zip_op \<Rightarrow> ('o, 'v, 'e) zip_op" where
  "complete_all_item_ops ops s = fold complete_item ops s"

text \<open>\<^verbatim>\<open>push_back_item_op\<close> reads the stop flag before it takes the lock.\<close>

definition push_check :: "('o, 'v, 'e) zip_op \<Rightarrow> bool" where
  "push_check s \<longleftrightarrow> \<not> z_stop s"

definition push_locked :: "nat \<Rightarrow> 'o \<Rightarrow> 'v \<Rightarrow> ('o, 'v, 'e) zip_op \<Rightarrow> ('o, 'v, 'e) zip_op" where
  "push_locked i p v s = s\<lparr>z_queues := (z_queues s)[i := z_queues s ! i @ [(p, v)]]\<rparr>"

definition push_back_item_op ::
  "nat \<Rightarrow> 'o \<Rightarrow> 'v \<Rightarrow> ('o, 'v, 'e) zip_op \<Rightarrow> bool \<times> ('o, 'v, 'e) zip_op" where
  "push_back_item_op i p v s =
     (if push_check s then (True, push_locked i p v s) else (False, s))"

definition notify_stop :: "('o, 'v, 'e) zip_op \<Rightarrow> ('o, 'v, 'e) zip_op" where
  "notify_stop s =
     (let s1 = s\<lparr>z_stop := True\<rparr>;
          local_queues = z_queues s1;
          s2 = s1\<lparr>n_ready := 0, z_queues := map (\<lambda>_. []) local_queues\<rparr>
      in complete_all_item_ops (map fst (concat local_queues)) s2)"

definition notify_error :: "'e \<Rightarrow> ('o, 'v, 'e) zip_op \<Rightarrow> ('o, 'v, 'e) zip_op" where
  "notify_error e s =
     notify_stop (if z_error s = None then s\<lparr>z_error := Some e\<rparr> else s)"

subsection \<open>A result is there\<close>

definition is_front :: "nat \<Rightarrow> 'o \<Rightarrow> ('o, 'v, 'e) zip_op \<Rightarrow> bool" where
  "is_front i p s \<longleftrightarrow> (\<exists>v rest. z_queues s ! i = (p, v) # rest)"

definition fetch_add_ready :: "('o, 'v, 'e) zip_op \<Rightarrow> int \<times> ('o, 'v, 'e) zip_op" where
  "fetch_add_ready s = (n_ready s, s\<lparr>n_ready := n_ready s + 1\<rparr>)"

fun fronts :: "'a list list \<Rightarrow> 'a list option" where
  "fronts [] = Some []"
| "fronts (q # qs) = (case q of [] \<Rightarrow> None | x # _ \<Rightarrow> map_option ((#) x) (fronts qs))"

definition collect_results :: "('o, 'v, 'e) zip_op \<Rightarrow> 'v list option" where
  "collect_results s = map_option (map snd) (fronts (z_queues s))"

definition pop_fronts :: "('o, 'v, 'e) zip_op \<Rightarrow> ('o list \<times> ('o, 'v, 'e) zip_op) option" where
  "pop_fronts s = do {
     items \<leftarrow> fronts (z_queues s);
     Some (map fst items, s\<lparr>z_queues := map tl (z_queues s), n_ready := - 1\<rparr>)
   }"

definition count_ready :: "('o, 'v, 'e) zip_op \<Rightarrow> bool \<times> ('o, 'v, 'e) zip_op" where
  "count_ready s =
     (let count = int (length (filter (\<lambda>q. q \<noteq> []) (z_queues s)))
      in if count = int (length (z_queues s)) then (True, s\<lparr>n_ready := count - 1\<rparr>)
         else (False, s\<lparr>n_ready := count\<rparr>))"

text \<open>
  The whole of \<^verbatim>\<open>notify_result_completion\<close> for the item \<open>p\<close> of sequence \<open>i\<close>. The zipped operation is
  started: it is recorded in \<open>zipped\<close>, with the item operations that wait for it. \<open>throws\<close> says that
  making it throws.
\<close>

partial_function (option) notify_result ::
  "'e option \<Rightarrow> nat \<Rightarrow> 'o \<Rightarrow> ('o, 'v, 'e) zip_op \<Rightarrow> ('o, 'v, 'e) zip_op option" where
  "notify_result throws i p s =
     (if \<not> is_front i p s then Some s
      else let (n, s1) = fetch_add_ready s
      in if n \<noteq> int (length (z_queues s1)) - 1 then Some s1
      else do {
        result \<leftarrow> collect_results s1;
        (ops, s2) \<leftarrow> pop_fronts s1;
        (if z_stop s2 then Some (complete_all_item_ops ops s2)
         else let (is_next, s3) = count_ready s2
         in case throws of
              Some e \<Rightarrow> Some (complete_all_item_ops ops (notify_error e s3))
            | None \<Rightarrow>
                (let s4 = s3\<lparr>zipped := zipped s3 @ [(ops, result)]\<rparr>
                 in if is_next then notify_result throws i (fst (hd (z_queues s4 ! i))) s4
                    else Some s4))
      })"

subsection \<open>Item receivers\<close>

text \<open>
  A value that arrives: storing it may throw (\<open>store_throws\<close>), and there is no return after that
  case.
\<close>

definition item_set_value ::
  "'e option \<Rightarrow> 'e option \<Rightarrow> nat \<Rightarrow> 'o \<Rightarrow> 'v \<Rightarrow> ('o, 'v, 'e) zip_op \<Rightarrow> ('o, 'v, 'e) zip_op option" where
  "item_set_value store_throws throws i p v s =
     (let s1 = (case store_throws of
            None \<Rightarrow> s
          | Some e \<Rightarrow> (let s' = notify_error e s
                       in s'\<lparr>item_signals := item_signals s' @ [(p, Set_Stopped)]\<rparr>));
          (pushed, s2) = push_back_item_op i p v s1
      in if \<not> pushed then Some (s2\<lparr>item_signals := item_signals s2 @ [(p, Set_Stopped)]\<rparr>)
         else notify_result throws i p s2)"

definition item_set_stopped :: "'o \<Rightarrow> ('o, 'v, 'e) zip_op \<Rightarrow> ('o, 'v, 'e) zip_op" where
  "item_set_stopped p s =
     (let s1 = notify_stop s in s1\<lparr>item_signals := item_signals s1 @ [(p, Set_Stopped)]\<rparr>)"

definition item_set_error :: "'o \<Rightarrow> 'e \<Rightarrow> ('o, 'v, 'e) zip_op \<Rightarrow> ('o, 'v, 'e) zip_op" where
  "item_set_error p e s =
     (let s1 = notify_error e s in s1\<lparr>item_signals := item_signals s1 @ [(p, Set_Stopped)]\<rparr>)"

text \<open>The zipped operation \<open>ops\<close> completes.\<close>

definition zipped_set_value :: "'o list \<Rightarrow> ('o, 'v, 'e) zip_op \<Rightarrow> ('o, 'v, 'e) zip_op" where
  "zipped_set_value ops s = complete_all_item_ops ops s"

definition zipped_set_stopped :: "'o list \<Rightarrow> ('o, 'v, 'e) zip_op \<Rightarrow> ('o, 'v, 'e) zip_op" where
  "zipped_set_stopped ops s = complete_all_item_ops ops (notify_stop s)"

subsection \<open>The receivers of the sequences\<close>

definition send :: "(unit, 'e) signal \<Rightarrow> ('o, 'v, 'e) zip_op \<Rightarrow> ('o, 'v, 'e) zip_op" where
  "send sig s = s\<lparr>z_completed := z_completed s @ [sig]\<rparr>"

definition child_set_value :: "stop_token \<Rightarrow> ('o, 'v, 'e) zip_op \<Rightarrow> ('o, 'v, 'e) zip_op" where
  "child_set_value token s =
     (let s1 = s\<lparr>n_pending_ops := n_pending_ops s - 1\<rparr>
      in if n_pending_ops s > 1 then notify_stop s1
         else if stop_requested token then send Set_Stopped s1
         else case z_error s1 of
             Some e \<Rightarrow> send (Set_Error e) s1
           | None \<Rightarrow> send (Set_Value ()) s1)"

definition child_set_stopped :: "stop_token \<Rightarrow> ('o, 'v, 'e) zip_op \<Rightarrow> ('o, 'v, 'e) zip_op" where
  "child_set_stopped token s =
     (let s1 = s\<lparr>n_pending_ops := n_pending_ops s - 1\<rparr>
      in if n_pending_ops s > 1 then notify_stop s1
         else if z_stop s1 then send (set_value_unless_stopped token) s1
         else send Set_Stopped s1)"

definition child_set_error :: "'e \<Rightarrow> ('o, 'v, 'e) zip_op \<Rightarrow> ('o, 'v, 'e) zip_op" where
  "child_set_error e s =
     (let s1 = s\<lparr>n_pending_ops := n_pending_ops s - 1\<rparr>
      in if n_pending_ops s > 1 then notify_error e s1 else send (Set_Error e) s1)"

definition child_complete ::
  "stop_token \<Rightarrow> (unit, 'e) signal \<Rightarrow> ('o, 'v, 'e) zip_op \<Rightarrow> ('o, 'v, 'e) zip_op" where
  "child_complete token sig s =
     (case sig of
        Set_Value _ \<Rightarrow> child_set_value token s
      | Set_Stopped \<Rightarrow> child_set_stopped token s
      | Set_Error e \<Rightarrow> child_set_error e s)"


subsection \<open>Items that arrive one after the other\<close>

text \<open>An arrival is the sequence it belongs to, its item operation and its value.\<close>

fun arrivals ::
  "(nat \<times> 'o \<times> 'v) list \<Rightarrow> ('o, 'v, 'e) zip_op \<Rightarrow> ('o, 'v, 'e) zip_op option" where
  "arrivals [] s = Some s"
| "arrivals ((i, p, v) # rest) s = do {
     s1 \<leftarrow> item_set_value None None i p v s;
     arrivals rest s1
   }"

definition history :: "(nat \<times> 'o \<times> 'v) list \<Rightarrow> nat \<Rightarrow> 'v list" where
  "history as i = map (\<lambda>(_, _, v). v) (filter (\<lambda>(j, _, _). j = i) as)"

definition column :: "('o, 'v, 'e) zip_op \<Rightarrow> nat \<Rightarrow> 'v list" where
  "column s i = map (\<lambda>r. snd r ! i) (zipped s)"

definition n_nonempty :: "'a list list \<Rightarrow> nat" where
  "n_nonempty qs = length (filter (\<lambda>q. q \<noteq> []) qs)"

text \<open>Between arrivals some queue is empty, and the counter counts the others.\<close>

definition zip_inv :: "nat \<Rightarrow> (nat \<Rightarrow> 'v list) \<Rightarrow> 'o set \<Rightarrow> ('o, 'v, 'e) zip_op \<Rightarrow> bool" where
  "zip_inv n hist used s \<longleftrightarrow>
     length (z_queues s) = n \<and> \<not> z_stop s \<and> n_ready s = int (n_nonempty (z_queues s)) \<and>
     (\<exists>i < n. z_queues s ! i = []) \<and>
     (\<forall>i < n. hist i = column s i @ map snd (z_queues s ! i)) \<and>
     fst ` set (concat (z_queues s)) \<subseteq> used"

lemma n_nonempty_less: "i < length qs \<Longrightarrow> qs ! i = [] \<Longrightarrow> n_nonempty qs < length qs"
  unfolding n_nonempty_def by (rule length_filter_less [where x = "qs ! i"]) (rule nth_mem, simp_all)

lemma n_nonempty_full: "n_nonempty qs = length qs \<longleftrightarrow> (\<forall>i < length qs. qs ! i \<noteq> [])"
proof
  assume "\<forall>i < length qs. qs ! i \<noteq> []"
  then have "\<forall>q \<in> set qs. q \<noteq> []" by (simp add: all_set_conv_all_nth)
  then show "n_nonempty qs = length qs" by (simp add: n_nonempty_def)
qed (use n_nonempty_less [of _ qs] in force)

lemma n_nonempty_update:
  "i < length qs \<Longrightarrow> q \<noteq> [] \<Longrightarrow>
     n_nonempty (qs[i := q]) = n_nonempty qs + (if qs ! i = [] then 1 else 0)"
proof (induction qs arbitrary: i)
  case (Cons a qs)
  then show ?case by (cases i) (auto simp: n_nonempty_def)
qed simp

lemma fronts_eq: "(\<forall>i < length qs. qs ! i \<noteq> []) \<Longrightarrow> fronts qs = Some (map hd qs)"
proof (induction qs)
  case (Cons q qs)
  then have "q \<noteq> []" "\<forall>i < length qs. qs ! i \<noteq> []" by fastforce+
  with Cons.IH show ?case by (cases q) auto
qed simp

lemma concat_update_subset:
  "i < length qs \<Longrightarrow> set (concat (qs[i := q])) \<subseteq> set (concat qs) \<union> set q"
  using set_update_subset_insert [of qs i q] by fastforce

text \<open>An item behind others in its queue waits.\<close>

lemma arrive_behind:
  assumes "zip_inv n hist used s" "i < n" "z_queues s ! i \<noteq> []" "p \<notin> used"
  shows "item_set_value None None i p v s = Some (push_locked i p v s)"
proof -
  from assms(2,3) obtain q v' rest where q: "z_queues s ! i = (q, v') # rest" by (cases "z_queues s ! i") auto
  have "z_queues s ! i \<in> set (z_queues s)" using assms(1,2) by (simp add: zip_inv_def)
  with q have "(q, v') \<in> set (concat (z_queues s))" by (auto intro!: bexI [of _ "z_queues s ! i"])
  then have "q \<in> fst ` set (concat (z_queues s))" by (rule rev_image_eqI) simp
  then have "q \<in> used" using assms(1) unfolding zip_inv_def by blast
  with assms(4) have "q \<noteq> p" by blast
  with q assms have "\<not> is_front i p (push_locked i p v s)"
    by (auto simp: is_front_def push_locked_def zip_inv_def)
  then have "notify_result None i p (push_locked i p v s) = Some (push_locked i p v s)"
    by (subst notify_result.simps) simp
  with assms(1) show ?thesis
    by (simp add: item_set_value_def push_back_item_op_def push_check_def zip_inv_def)
qed


lemma zip_inv_push:
  assumes inv: "zip_inv n hist used s" and i: "i < n"
    and s1: "s1 = push_locked i p v s"
  shows "length (z_queues s1) = n" "\<not> z_stop s1"
    "\<forall>j < n. (hist(i := hist i @ [v])) j = column s1 j @ map snd (z_queues s1 ! j)"
    "fst ` set (concat (z_queues s1)) \<subseteq> insert p used"
    "n_nonempty (z_queues s1) = n_nonempty (z_queues s) + (if z_queues s ! i = [] then 1 else 0)"
proof -
  have len: "length (z_queues s) = n" using inv by (simp add: zip_inv_def)
  then show "length (z_queues s1) = n" "\<not> z_stop s1"
    using inv s1 by (simp_all add: zip_inv_def push_locked_def)
  show "\<forall>j < n. (hist(i := hist i @ [v])) j = column s1 j @ map snd (z_queues s1 ! j)"
    using inv s1 len i by (auto simp: zip_inv_def push_locked_def column_def nth_list_update)
  have "set (z_queues s ! i) \<subseteq> set (concat (z_queues s))"
    using i len by (auto intro!: bexI [of _ "z_queues s ! i"])
  then have "set (concat (z_queues s1)) \<subseteq> insert (p, v) (set (concat (z_queues s)))"
    using concat_update_subset [of i "z_queues s" "z_queues s ! i @ [(p, v)]"] i len s1
    by (auto simp: push_locked_def)
  then have "fst ` set (concat (z_queues s1)) \<subseteq> insert p (fst ` set (concat (z_queues s)))"
    by (auto dest!: subsetD)
  then show "fst ` set (concat (z_queues s1)) \<subseteq> insert p used"
    using inv unfolding zip_inv_def by blast
  show "n_nonempty (z_queues s1) = n_nonempty (z_queues s) + (if z_queues s ! i = [] then 1 else 0)"
    using n_nonempty_update [of i "z_queues s"] i len s1 by (simp add: push_locked_def)
qed

lemma zip_inv_behind:
  assumes "zip_inv n hist used s" "i < n" "z_queues s ! i \<noteq> []"
  shows "zip_inv n (hist(i := hist i @ [v])) (insert p used) (push_locked i p v s)"
proof -
  note push = zip_inv_push [OF assms(1,2) refl, where p = p and v = v]
  have ready: "n_ready (push_locked i p v s) = n_ready s" by (simp add: push_locked_def)
  obtain j where j: "j < n" "z_queues s ! j = []" using assms(1) by (auto simp: zip_inv_def)
  with assms(3) have "j \<noteq> i" by auto
  with j have "z_queues (push_locked i p v s) ! j = []" by (simp add: push_locked_def)
  with push j ready assms show ?thesis unfolding zip_inv_def by auto
qed

text \<open>An item that makes every queue non-empty takes a row.\<close>

lemma notify_takes_row:
  assumes len: "length (z_queues s) = n" "\<not> z_stop s" and full: "\<forall>j < n. z_queues s ! j \<noteq> []"
    and i: "i < n" "z_queues s ! i = [(p, v)]" and ready: "n_ready s = int n - 1"
  shows "notify_result None i p s = Some (s\<lparr>
    n_ready := int (n_nonempty (map tl (z_queues s))), z_queues := map tl (z_queues s),
    zipped := zipped s @ [(map fst (map hd (z_queues s)), map snd (map hd (z_queues s)))]\<rparr>)"
proof -
  have fr: "fronts (z_queues s) = Some (map hd (z_queues s))" using fronts_eq full len by blast
  have "map tl (z_queues s) ! i = []" using i len by simp
  then have "n_nonempty (map tl (z_queues s)) < n"
    using n_nonempty_less [of i "map tl (z_queues s)"] i len by simp
  then have count: "int (length (filter (\<lambda>q. q \<noteq> []) (map tl (z_queues s)))) \<noteq> int n"
    by (simp add: n_nonempty_def)
  have front: "is_front i p s" using i by (simp add: is_front_def)
  show ?thesis
    by (subst notify_result.simps)
      (use count len fr front ready in \<open>simp add: fetch_add_ready_def collect_results_def
        pop_fronts_def count_ready_def Let_def n_nonempty_def\<close>)
qed

lemma zip_inv_row:
  assumes len: "length (z_queues s) = n" "\<not> z_stop s" and full: "\<forall>j < n. z_queues s ! j \<noteq> []"
    and i: "i < n" "z_queues s ! i = [(p, v)]"
    and hist: "\<forall>j < n. hist j = column s j @ map snd (z_queues s ! j)"
    and used: "fst ` set (concat (z_queues s)) \<subseteq> used"
  shows "zip_inv n hist used (s\<lparr>
    n_ready := int (n_nonempty (map tl (z_queues s))), z_queues := map tl (z_queues s),
    zipped := zipped s @ [(map fst (map hd (z_queues s)), map snd (map hd (z_queues s)))]\<rparr>)"
    (is "zip_inv n hist used ?s")
proof -
  have "hist j = column ?s j @ map snd (z_queues ?s ! j)" if j: "j < n" for j
  proof -
    obtain x xs where "z_queues s ! j = x # xs" using full j by (cases "z_queues s ! j") auto
    with hist j len show ?thesis by (auto simp: column_def)
  qed
  moreover have "z_queues ?s ! i = []" using i len by simp
  moreover have "set (concat (map tl (z_queues s))) \<subseteq> set (concat (z_queues s))"
    by (auto dest: list.set_sel(2) [rotated]) (metis list.sel(2) list.set_sel(2))
  then have "fst ` set (concat (z_queues ?s)) \<subseteq> used" using used by auto
  ultimately show ?thesis using len i by (auto simp: zip_inv_def)
qed


lemma arrive_step:
  assumes inv: "zip_inv n hist used s" and i: "i < n" and p: "p \<notin> used"
  shows "\<exists>s'. item_set_value None None i p v s = Some s' \<and>
    zip_inv n (hist(i := hist i @ [v])) (insert p used) s'"
proof (cases "z_queues s ! i = []")
  case False
  with arrive_behind [OF inv i False p] zip_inv_behind [OF inv i False] show ?thesis by blast
next
  case empty: True
  let ?s = "push_locked i p v s"
  note push = zip_inv_push [OF inv i refl, where p = p and v = v]
  have qi: "z_queues ?s ! i = [(p, v)]"
    using empty i inv by (simp add: push_locked_def zip_inv_def)
  have ready: "n_ready ?s = int (n_nonempty (z_queues ?s)) - 1"
    using push(5) empty inv by (simp add: push_locked_def zip_inv_def)
  have item: "item_set_value None None i p v s = notify_result None i p ?s"
    using inv by (simp add: item_set_value_def push_back_item_op_def push_check_def zip_inv_def)
  show ?thesis
  proof (cases "n_nonempty (z_queues ?s) = n")
    case True
    then have full: "\<forall>j < n. z_queues ?s ! j \<noteq> []" using n_nonempty_full [of "z_queues ?s"] push(1) by simp
    from True ready have "n_ready ?s = int n - 1" by simp
    from notify_takes_row [OF push(1,2) full i qi this] zip_inv_row [OF push(1,2) full i qi push(3,4)]
    show ?thesis unfolding item by blast
  next
    case False
    have "is_front i p ?s" using qi by (simp add: is_front_def)
    then have "notify_result None i p ?s = Some (?s\<lparr>n_ready := n_ready ?s + 1\<rparr>)"
      using False ready push(1) by (subst notify_result.simps) (simp add: fetch_add_ready_def)
    moreover have "\<exists>j < n. z_queues ?s ! j = []"
      using False n_nonempty_full [of "z_queues ?s"] push(1) by blast
    then have "zip_inv n (hist(i := hist i @ [v])) (insert p used) (?s\<lparr>n_ready := n_ready ?s + 1\<rparr>)"
      using push ready unfolding zip_inv_def by (simp add: column_def)
    ultimately show ?thesis unfolding item by blast
  qed
qed

lemma arrivals_inv:
  assumes "zip_inv n hist used s" "\<forall>(i, p, v) \<in> set as. i < n \<and> p \<notin> used"
    "distinct (map (\<lambda>(i, p, v). p) as)"
  shows "\<exists>s' used'. arrivals as s = Some s' \<and> zip_inv n (\<lambda>i. hist i @ history as i) used' s'"
  using assms
proof (induction as arbitrary: hist used s)
  case Nil
  then show ?case by (auto simp: history_def)
next
  case (Cons a as)
  obtain i p v where a: "a = (i, p, v)" by (cases a)
  with Cons.prems have ip: "i < n" "p \<notin> used" by auto
  obtain s1 where s1: "item_set_value None None i p v s = Some s1"
    "zip_inv n (hist(i := hist i @ [v])) (insert p used) s1"
    using arrive_step [OF Cons.prems(1) ip] by blast
  have d: "distinct (map (\<lambda>(i, p, v). p) as)" "p \<notin> (\<lambda>(i, p, v). p) ` set as"
    using Cons.prems(3) a by simp_all
  have "\<forall>(j, q, w) \<in> set as. j < n \<and> q \<notin> insert p used"
  proof (clarify, intro conjI)
    fix j q w assume m: "(j, q, w) \<in> set as"
    with Cons.prems(2) show "j < n" by auto
    from m have "q \<in> (\<lambda>(i, p, v). p) ` set as" by (rule rev_image_eqI) simp
    with d(2) have "q \<noteq> p" by blast
    with m Cons.prems(2) show "q \<notin> insert p used" by auto
  qed
  from Cons.IH [OF s1(2) this d(1)] obtain s' used' where
    s': "arrivals as s1 = Some s'" "zip_inv n (\<lambda>j. (hist(i := hist i @ [v])) j @ history as j) used' s'"
    by (elim exE conjE)
  have "(\<lambda>j. (hist(i := hist i @ [v])) j @ history as j) = (\<lambda>j. hist j @ history (a # as) j)"
    by (auto simp: history_def a)
  with s' s1(1) a show ?case by auto
qed

lemma zip_inv_init: "n > 0 \<Longrightarrow> zip_inv n (\<lambda>_. []) {} (zip_init n tokens)"
  by (auto simp: zip_inv_def zip_init_def column_def n_nonempty_def)

lemma arrivals_zipped:
  fixes tokens :: "'o \<Rightarrow> stop_token" and as :: "(nat \<times> 'o \<times> 'v) list"
  assumes "n > 0" "\<forall>(i, p, v) \<in> set as. i < n" "distinct (map (\<lambda>(i, p, v). p) as)"
  shows "\<exists>s :: ('o, 'v, 'e) zip_op. arrivals as (zip_init n tokens) = Some s \<and>
    (\<forall>i < n. history as i = map (\<lambda>r. snd r ! i) (zipped s) @ map snd (z_queues s ! i)) \<and>
    (\<exists>i < n. length (zipped s) = length (history as i))"
proof -
  have "\<forall>(i, p, v) \<in> set as. i < n \<and> p \<notin> {}" using assms(2) by auto
  from arrivals_inv [OF zip_inv_init [OF assms(1), of tokens] this assms(3)] obtain s :: "('o, 'v, 'e) zip_op" and used where
    s: "arrivals as (zip_init n tokens) = Some s" "zip_inv n (history as) used s" by auto
  from s(2) obtain i where "i < n" "z_queues s ! i = []" by (auto simp: zip_inv_def)
  with s(2) have "history as i = column s i" by (simp add: zip_inv_def)
  then have "length (zipped s) = length (history as i)" by (simp add: column_def)
  moreover have "\<forall>j < n. history as j = map (\<lambda>r. snd r ! j) (zipped s) @ map snd (z_queues s ! j)"
    using s(2) by (simp add: zip_inv_def column_def)
  ultimately have "\<exists>i < n. length (zipped s) = length (history as i)"
    "\<forall>i < n. history as i = map (\<lambda>r. snd r ! i) (zipped s) @ map snd (z_queues s ! i)"
    using \<open>i < n\<close> by blast+
  with s(1) show ?thesis by (intro exI [of _ s]) simp
qed

text \<open>C9 (zip). When the items of \<open>n\<close> sequences arrive in any order, one at a time, the operation zips the first
  items, then the second items, and so on: as many rows as the shortest sequence has items, each
  column in the order of its sequence. No item is lost: what is not zipped is still queued.\<close>

theorem zip_rows:
  fixes tokens :: "'o \<Rightarrow> stop_token" and as :: "(nat \<times> 'o \<times> 'v) list"
  assumes "n > 0" "\<forall>(i, p, v) \<in> set as. i < n" "distinct (map (\<lambda>(i, p, v). p) as)"
  shows "\<exists>s :: ('o, 'v, 'e) zip_op. arrivals as (zip_init n tokens) = Some s \<and>
    (\<forall>i < n. history as i = map (\<lambda>r. snd r ! i) (zipped s) @ map snd (z_queues s ! i)) \<and>
    (\<exists>i < n. length (zipped s) = length (history as i))"
  using assms by (rule arrivals_zipped)

theorem zip_rows_witness:
  "\<exists>s. arrivals [(0, 1 :: nat, CHR ''a''), (0, 2, CHR ''b''), (1, 3, CHR ''x'')]
      (zip_init 2 (\<lambda>_. Unstoppable) :: (nat, char, nat) zip_op) = Some s \<and>
    map (\<lambda>r. snd r ! 0) (zipped s) @ map snd (z_queues s ! 0) = ''ab''"
proof -
  let ?as = "[(0, 1 :: nat, CHR ''a''), (0, 2, CHR ''b''), (1, 3, CHR ''x'')]"
  obtain s :: "(nat, char, nat) zip_op" where s: "arrivals ?as (zip_init 2 (\<lambda>_. Unstoppable)) = Some s"
    "\<forall>i < 2. history ?as i = map (\<lambda>r. snd r ! i) (zipped s) @ map snd (z_queues s ! i)"
    using zip_rows [of 2 ?as "\<lambda>_. Unstoppable"] by auto
  from s(2) have "history ?as 0 = map (\<lambda>r. snd r ! 0) (zipped s) @ map snd (z_queues s ! 0)" by simp
  moreover have "history ?as 0 = ''ab''" by (simp add: history_def)
  ultimately show ?thesis using s(1) by (intro exI [of _ s] conjI) simp_all
qed

subsection \<open>Items that arrive at the same time\<close>

lemma notify_two:
  assumes "length (z_queues s) = 2" "n_ready s = 1" "is_front i p s" "fronts (z_queues s) = None"
  shows "notify_result None i p s = None"
  using assms
  by (subst notify_result.simps) (simp add: fetch_add_ready_def collect_results_def)

text \<open>Remark (zip_race). Items of one sequence that complete at the same time break the count of ready queues. When an item
  is queued, but has not announced itself, while another thread takes a row, it is counted for the
  next row, and counts itself a second time: then the front of an empty queue is read.\<close>

theorem zip_counts_twice:
  assumes "distinct [a1, a2, b1]"
  shows "\<exists>s1 s2. item_set_value None None 0 a1 v1 (zip_init 2 tokens) = Some s1 \<and>
    item_set_value None None 1 b1 w1 (push_locked 0 a2 v2 s1) = Some s2 \<and>
    is_front 0 a2 s2 \<and> notify_result None 0 a2 s2 = None"
proof -
  let ?s1 = "(zip_init 2 tokens)\<lparr>z_queues := [[(a1, v1)], []], n_ready := 1\<rparr>"
  let ?s2 = "?s1\<lparr>z_queues := [[(a2, v2)], []], n_ready := 1, zipped := [([a1, b1], [v1, w1])]\<rparr>"
  have init: "zip_init 2 tokens = \<lparr>z_queues = [[], []], n_ready = 0, z_stop = False, z_error = None,
      n_pending_ops = 2, item_token = tokens, zipped = [], item_signals = [], z_completed = []\<rparr>"
    by (simp add: zip_init_def numeral_2_eq_2)
  have "item_set_value None None 0 a1 v1 (zip_init 2 tokens) = Some ?s1"
    by (simp add: init item_set_value_def push_back_item_op_def push_check_def push_locked_def)
      (subst notify_result.simps, simp add: is_front_def fetch_add_ready_def)
  moreover have "item_set_value None None 1 b1 w1 (push_locked 0 a2 v2 ?s1) = Some ?s2"
    by (simp add: init item_set_value_def push_back_item_op_def push_check_def push_locked_def)
      (subst notify_result.simps, simp add: is_front_def fetch_add_ready_def collect_results_def
        pop_fronts_def count_ready_def Let_def)
  moreover have "is_front 0 a2 ?s2" by (simp add: is_front_def)
  moreover from this have "notify_result None 0 a2 ?s2 = None"
    by (intro notify_two) simp_all
  ultimately show ?thesis by blast
qed

theorem zip_counts_twice_witness:
  "\<exists>s1 s2. item_set_value None None 0 1 10 (zip_init 2 (\<lambda>_. Unstoppable) :: (nat, nat, nat) zip_op) = Some s1 \<and>
    item_set_value None None 1 3 30 (push_locked 0 2 20 s1) = Some s2 \<and>
    notify_result None 0 2 s2 = None"
  using zip_counts_twice [of "1 :: nat" 2 3 "10 :: nat" "\<lambda>_. Unstoppable" 30 20] by auto

lemma complete_all_simps [simp]:
  "z_queues (complete_all_item_ops ops s) = z_queues s" "z_stop (complete_all_item_ops ops s) = z_stop s"
  "n_ready (complete_all_item_ops ops s) = n_ready s" "z_error (complete_all_item_ops ops s) = z_error s"
  "z_completed (complete_all_item_ops ops s) = z_completed s"
  "n_pending_ops (complete_all_item_ops ops s) = n_pending_ops s"
  "zipped (complete_all_item_ops ops s) = zipped s"
  by (induction ops arbitrary: s) (simp_all add: complete_all_item_ops_def complete_item_def)

lemma notify_stop_simps [simp]:
  "z_queues (notify_stop s) = map (\<lambda>_. []) (z_queues s)" "z_stop (notify_stop s)"
  "n_ready (notify_stop s) = 0" "z_error (notify_stop s) = z_error s"
  "z_completed (notify_stop s) = z_completed s" "n_pending_ops (notify_stop s) = n_pending_ops s"
  by (simp_all add: notify_stop_def Let_def)

text \<open>Remark (zip_lost). An item that passed the stop check just before a sequence of two ended is queued after the queues were
  cleared. Nobody completes it: its own sequence waits for it, and the operation never completes.\<close>

theorem zip_loses_item:
  "push_check (zip_init 2 tokens :: ('o, 'v, 'e) zip_op) \<and>
   (\<exists>s. notify_result None 0 a (push_locked 0 a v (child_set_value token (zip_init 2 tokens :: ('o, 'v, 'e) zip_op))) = Some s \<and>
      z_queues s = [[(a, v)], []] \<and> item_signals s = [] \<and> z_completed s = [] \<and> n_pending_ops s = 1)"
proof -
  let ?s = "push_locked 0 a v (child_set_value token (zip_init 2 tokens :: ('o, 'v, 'e) zip_op))"
  have s: "z_queues ?s = [[(a, v)], []]" "n_ready ?s = 0" "item_signals ?s = []" "z_completed ?s = []"
    "n_pending_ops ?s = 1"
    by (simp_all add: push_locked_def child_set_value_def zip_init_def Let_def numeral_2_eq_2
        notify_stop_def complete_all_item_ops_def)
  then have "notify_result None 0 a ?s = Some (?s\<lparr>n_ready := 1\<rparr>)"
    by (subst notify_result.simps) (simp add: is_front_def fetch_add_ready_def)
  with s show ?thesis by (auto simp: push_check_def zip_init_def)
qed

text \<open>Remark (zip_throw). When storing the value of an item throws, its item receiver is completed twice.\<close>

theorem zip_completes_item_twice:
  "\<exists>s' before. item_set_value (Some e) throws i p v s = Some s' \<and>
     item_signals s' = before @ [(p, Set_Stopped), (p, Set_Stopped)]"
proof -
  have "z_stop (notify_error e s)" by (simp add: notify_error_def)
  then show ?thesis
    by (simp add: item_set_value_def push_back_item_op_def push_check_def Let_def)
qed

subsection \<open>Completion\<close>

fun children_complete ::
  "stop_token \<Rightarrow> (unit, 'e) signal list \<Rightarrow> ('o, 'v, 'e) zip_op \<Rightarrow> ('o, 'v, 'e) zip_op" where
  "children_complete token [] s = s"
| "children_complete token (sig # sigs) s = children_complete token sigs (child_complete token sig s)"

lemma child_complete_simps [simp]:
  "n_pending_ops (child_complete token sig s) = n_pending_ops s - 1"
  "length (z_completed (child_complete token sig s)) =
     length (z_completed s) + (if n_pending_ops s > 1 then 0 else 1)"
  by (auto simp: child_complete_def child_set_value_def child_set_stopped_def child_set_error_def
      notify_error_def send_def Let_def split: signal.split option.split)

lemma children_complete_count:
  "n_pending_ops s \<ge> int (length sigs) \<Longrightarrow> length (z_completed (children_complete token sigs s)) =
     length (z_completed s) + (if sigs \<noteq> [] \<and> n_pending_ops s = int (length sigs) then 1 else 0)"
  by (induction sigs arbitrary: s) auto

text \<open>Remark (zip_done). The receiver is completed once, when the last of the \<open>n\<close> sequences completes. But the error of a
  sequence is lost when the last one completes as stopped, which is what the error asks it to do.\<close>

theorem zip_completes_once:
  fixes tokens :: "'o \<Rightarrow> stop_token" and sigs :: "(unit, 'e) signal list"
  assumes "length sigs \<le> n" "n > 0"
  shows "length (z_completed (children_complete token sigs (zip_init n tokens :: ('o, 'v, 'e) zip_op))) =
      (if length sigs = n then 1 else 0) \<and>
    z_completed (children_complete Unstoppable [Set_Error e, Set_Stopped] (zip_init 2 tokens :: ('o, 'v, 'e) zip_op)) =
      [Set_Value ()] \<and>
    z_completed (children_complete Unstoppable [Set_Error e, Set_Value ()] (zip_init 2 tokens :: ('o, 'v, 'e) zip_op)) =
      [Set_Error e]"
  using children_complete_count [of sigs "zip_init n tokens" token] assms
  by (auto simp: zip_init_def child_complete_def child_set_error_def child_set_stopped_def
      child_set_value_def notify_error_def send_def set_value_unless_stopped_def
      stop_requested_def Let_def)

theorem zip_completes_once_witness:
  "length (z_completed (children_complete Unstoppable [Set_Value (), Set_Stopped]
     (zip_init 2 (\<lambda>_. Unstoppable) :: (nat, nat, nat) zip_op))) = 1"
  using zip_completes_once [where 'o = nat and 'v = nat and 'e = nat, of "[Set_Value (), Set_Stopped] :: (unit, nat) signal list" 2 Unstoppable
      "\<lambda>_. Unstoppable :: stop_token" 0]
  by (simp del: children_complete.simps)

end
