(* ===== verification/Async_Mutex.thy ===== *)
theory Async_Mutex
  imports Sio_Prelude "HOL-Library.Multiset"
begin

text \<open>
  \<^verbatim>\<open>async_mutex.hpp\<close>: whoever starts a lock operation puts it on a queue and then tries to become the
  one that runs the queue; completing an operation is running its critical section.

  The atomic queue is a third-party class: \<open>pop_all\<close> takes everything from it, in an order that is a
  parameter. Each operation is started by a thread of its own, whose program counter is below.
\<close>

subsection \<open>State\<close>

datatype 'o pc =
    Not_Started
  | Trying \<comment> \<open>before the compare-exchange of the outer loop\<close>
  | Popping \<comment> \<open>lock held, before \<^verbatim>\<open>pop_all\<close>\<close>
  | Draining "'o list" \<comment> \<open>lock held, completing the operations it took\<close>
  | Unlocking \<comment> \<open>nothing left, before the store of \<^verbatim>\<open>false\<close>\<close>
  | Checking \<comment> \<open>after the store, before the test of the queue\<close>
  | Finished

record 'o mutex =
  locked :: bool
  inflight :: "'o list"

record 'o mutex_config =
  mtx :: "'o mutex"
  pcs :: "'o \<Rightarrow> 'o pc"
  completed :: "'o list"

subsection \<open>The steps of \<^verbatim>\<open>start\<close>\<close>

definition start_push :: "'o \<Rightarrow> 'o mutex \<Rightarrow> 'o mutex" where
  "start_push o1 m = m\<lparr>inflight := o1 # inflight m\<rparr>"

definition try_lock :: "'o mutex \<Rightarrow> 'o mutex \<times> 'o pc" where
  "try_lock m = (if \<not> locked m then (m\<lparr>locked := True\<rparr>, Popping) else (m, Finished))"

definition pop_all :: "('o list \<Rightarrow> 'o list) \<Rightarrow> 'o mutex \<Rightarrow> 'o mutex \<times> 'o pc" where
  "pop_all order m =
     (let pending_ops = order (inflight m)
      in (m\<lparr>inflight := []\<rparr>, if pending_ops = [] then Unlocking else Draining pending_ops))"

text \<open>Complete one operation; after the last one of a batch the queue is read again.\<close>

definition drain_one :: "'o list \<Rightarrow> ('o \<times> 'o pc) option" where
  "drain_one pending =
     (case pending of
        [] \<Rightarrow> None
      | o1 # rest \<Rightarrow> Some (o1, if rest = [] then Popping else Draining rest))"

definition unlock_store :: "'o mutex \<Rightarrow> 'o mutex \<times> 'o pc" where
  "unlock_store m = (m\<lparr>locked := False\<rparr>, Checking)"

definition check_empty :: "'o mutex \<Rightarrow> 'o pc" where
  "check_empty m = (if inflight m = [] then Finished else Trying)"

text \<open>Any thread takes the next step.\<close>

inductive mutex_step ::
  "('o list \<Rightarrow> 'o list) \<Rightarrow> 'o mutex_config \<Rightarrow> 'o mutex_config \<Rightarrow> bool"
  for order :: "'o list \<Rightarrow> 'o list"
where
  push: "pcs c t = Not_Started \<Longrightarrow>
    mutex_step order c (c\<lparr>mtx := start_push t (mtx c), pcs := (pcs c)(t := Trying)\<rparr>)"
| lock: "pcs c t = Trying \<Longrightarrow> try_lock (mtx c) = (m, p) \<Longrightarrow>
    mutex_step order c (c\<lparr>mtx := m, pcs := (pcs c)(t := p)\<rparr>)"
| pop: "pcs c t = Popping \<Longrightarrow> pop_all order (mtx c) = (m, p) \<Longrightarrow>
    mutex_step order c (c\<lparr>mtx := m, pcs := (pcs c)(t := p)\<rparr>)"
| drain: "pcs c t = Draining pending \<Longrightarrow> drain_one pending = Some (o1, p) \<Longrightarrow>
    mutex_step order c (c\<lparr>pcs := (pcs c)(t := p), completed := completed c @ [o1]\<rparr>)"
| unlock: "pcs c t = Unlocking \<Longrightarrow> unlock_store (mtx c) = (m, p) \<Longrightarrow>
    mutex_step order c (c\<lparr>mtx := m, pcs := (pcs c)(t := p)\<rparr>)"
| check: "pcs c t = Checking \<Longrightarrow>
    mutex_step order c (c\<lparr>pcs := (pcs c)(t := check_empty (mtx c))\<rparr>)"

inductive mutex_reach :: "('o list \<Rightarrow> 'o list) \<Rightarrow> 'o mutex_config \<Rightarrow> bool"
  for order :: "'o list \<Rightarrow> 'o list"
where
  init: "mutex_reach order
    \<lparr>mtx = \<lparr>locked = False, inflight = []\<rparr>, pcs = (\<lambda>_. Not_Started), completed = []\<rparr>"
| step: "mutex_reach order c \<Longrightarrow> mutex_step order c c' \<Longrightarrow> mutex_reach order c'"

subsection \<open>The invariant\<close>

lemma distinct_part:
  assumes "A + mset xs = mset_set S"
  shows "distinct xs"
  unfolding distinct_count_atmost_1
proof
  fix a
  have "count (mset xs) a \<le> count (mset_set S) a" by (simp add: assms [symmetric])
  also have "\<dots> \<le> 1" by (cases "finite S"; cases "a \<in> S") simp_all
  finally show "count (mset xs) a = (if a \<in> set xs then 1 else 0)"
    by (metis count_mset_0_iff le_antisym less_one not_less One_nat_def)
qed

definition holds_lock :: "'o pc \<Rightarrow> bool" where
  "holds_lock p \<longleftrightarrow> p = Popping \<or> (\<exists>xs. p = Draining xs) \<or> p = Unlocking"

definition active :: "'o pc \<Rightarrow> bool" where
  "active p \<longleftrightarrow> p \<noteq> Not_Started \<and> p \<noteq> Finished"

definition pending_of :: "'o pc \<Rightarrow> 'o list" where
  "pending_of p = (case p of Draining xs \<Rightarrow> xs | _ \<Rightarrow> [])"

definition started :: "'o mutex_config \<Rightarrow> 'o set" where
  "started c = {t. pcs c t \<noteq> Not_Started}"

text \<open>
  One thread holds the lock exactly when it is locked; every started operation is in one place, the
  queue, the batch of the holder or the completed ones; and somebody looks after a queue that is
  not empty.
\<close>

definition lock_inv :: "'o mutex_config \<Rightarrow> bool" where
  "lock_inv c \<longleftrightarrow>
     (if locked (mtx c) then
        (\<exists>h. holds_lock (pcs c h) \<and> (\<forall>t. t \<noteq> h \<longrightarrow> \<not> holds_lock (pcs c t)) \<and>
           mset (inflight (mtx c)) + mset (pending_of (pcs c h)) + mset (completed c) =
             mset_set (started c))
      else (\<forall>t. \<not> holds_lock (pcs c t)) \<and>
        mset (inflight (mtx c)) + mset (completed c) = mset_set (started c))"

definition mutex_inv :: "'o mutex_config \<Rightarrow> bool" where
  "mutex_inv c \<longleftrightarrow> lock_inv c \<and> finite (started c) \<and>
     (inflight (mtx c) \<noteq> [] \<longrightarrow> (\<exists>t. active (pcs c t)))"

lemma started_upd:
  "pcs c' = (pcs c)(t := p) \<Longrightarrow> pcs c t \<noteq> Not_Started \<Longrightarrow> p \<noteq> Not_Started \<Longrightarrow> started c' = started c"
  by (auto simp: started_def)

lemma holds_simps [simp]:
  "\<not> holds_lock Not_Started" "\<not> holds_lock Trying" "holds_lock Popping" "holds_lock (Draining xs)"
  "holds_lock Unlocking" "\<not> holds_lock Checking" "\<not> holds_lock Finished"
  by (simp_all add: holds_lock_def)

lemma active_simps [simp]:
  "\<not> active Not_Started" "active Trying" "active Popping" "active (Draining xs)" "active Unlocking"
  "active Checking" "\<not> active Finished"
  by (simp_all add: active_def)

lemma pending_simps [simp]:
  "pending_of Popping = []" "pending_of (Draining xs) = xs" "pending_of Unlocking = []"
  by (simp_all add: pending_of_def)

lemma holder_active: "holds_lock p \<Longrightarrow> active p"
  by (auto simp: holds_lock_def)

text \<open>A step of the holder that keeps the lock.\<close>

lemma lock_inv_holder:
  assumes "lock_inv c" "holds_lock (pcs c t)"
  shows "locked (mtx c)" "\<And>u. u \<noteq> t \<Longrightarrow> \<not> holds_lock (pcs c u)"
    "mset (inflight (mtx c)) + mset (pending_of (pcs c t)) + mset (completed c) = mset_set (started c)"
proof -
  show l: "locked (mtx c)" using assms by (auto simp: lock_inv_def split: if_splits)
  with assms obtain h where h: "holds_lock (pcs c h)" "\<forall>t. t \<noteq> h \<longrightarrow> \<not> holds_lock (pcs c t)"
    "mset (inflight (mtx c)) + mset (pending_of (pcs c h)) + mset (completed c) = mset_set (started c)"
    by (auto simp: lock_inv_def)
  with assms(2) have "h = t" by metis
  with h show "\<And>u. u \<noteq> t \<Longrightarrow> \<not> holds_lock (pcs c u)"
    "mset (inflight (mtx c)) + mset (pending_of (pcs c t)) + mset (completed c) = mset_set (started c)"
    by blast+
qed

lemma lock_inv_holderI:
  assumes "locked (mtx c)" "holds_lock (pcs c t)" "\<And>u. u \<noteq> t \<Longrightarrow> \<not> holds_lock (pcs c u)"
    "mset (inflight (mtx c)) + mset (pending_of (pcs c t)) + mset (completed c) = mset_set (started c)"
  shows "lock_inv c"
  using assms by (auto simp: lock_inv_def)

text \<open>A step of a thread that does not hold the lock, and does not get it.\<close>

lemma lock_inv_other:
  assumes inv: "lock_inv c" and t: "\<not> holds_lock (pcs c t)" "\<not> holds_lock p" "pcs c' = (pcs c)(t := p)"
    and m: "locked (mtx c') = locked (mtx c)" "completed c' = completed c"
      "mset (inflight (mtx c')) = mset (inflight (mtx c)) + new"
      "mset_set (started c') = mset_set (started c) + new"
  shows "lock_inv c'"
proof (cases "locked (mtx c)")
  case True
  with inv obtain h where h: "holds_lock (pcs c h)" "\<forall>t. t \<noteq> h \<longrightarrow> \<not> holds_lock (pcs c t)"
    "mset (inflight (mtx c)) + mset (pending_of (pcs c h)) + mset (completed c) = mset_set (started c)"
    by (auto simp: lock_inv_def)
  have "h \<noteq> t" using h(1) t(1) by auto
  with h True t m show ?thesis
    by (intro lock_inv_holderI [of _ h]) (auto simp: ac_simps)
next
  case False
  with inv t m show ?thesis by (auto simp: lock_inv_def ac_simps)
qed

lemma mutex_push_inv:
  assumes "mutex_inv c" "pcs c t = Not_Started"
  shows "mutex_inv (c\<lparr>mtx := start_push t (mtx c), pcs := (pcs c)(t := Trying)\<rparr>)" (is "mutex_inv ?c")
proof -
  have st: "started ?c = insert t (started c)" "t \<notin> started c" using assms(2) by (auto simp: started_def)
  with assms have "lock_inv ?c"
    by (intro lock_inv_other [of c t Trying ?c "{#t#}"]) (auto simp: mutex_inv_def start_push_def)
  moreover have "active (pcs ?c t)" by simp
  ultimately show ?thesis using assms st unfolding mutex_inv_def by auto
qed

lemma mutex_lock_inv:
  assumes "mutex_inv c" "pcs c t = Trying" "try_lock (mtx c) = (m, p)"
  shows "mutex_inv (c\<lparr>mtx := m, pcs := (pcs c)(t := p)\<rparr>)" (is "mutex_inv ?c")
proof -
  have p: "p = Popping \<or> p = Finished" using assms(3) by (auto simp: try_lock_def split: if_splits)
  with assms(2) have st: "started ?c = started c" by (intro started_upd [of ?c c t p]) auto
  show ?thesis
  proof (cases "locked (mtx c)")
    case True
    with assms(1) obtain h where h: "holds_lock (pcs c h)" by (auto simp: mutex_inv_def lock_inv_def)
    with assms(2) have "h \<noteq> t" by auto
    with h have "active (pcs ?c h)" using holder_active by simp
    moreover have "lock_inv ?c"
      using True assms st by (intro lock_inv_other [of c t Finished ?c "{#}"])
        (auto simp: try_lock_def mutex_inv_def)
    moreover have "finite (started ?c)" using assms(1) st by (simp add: mutex_inv_def)
    ultimately show ?thesis unfolding mutex_inv_def by blast
  next
    case False
    with assms st have "lock_inv ?c"
      by (intro lock_inv_holderI [of _ t]) (auto simp: try_lock_def mutex_inv_def lock_inv_def)
    moreover have "active (pcs ?c t)" using False assms(3) by (auto simp: try_lock_def)
    ultimately show ?thesis using assms(1) st by (auto simp: mutex_inv_def)
  qed
qed

lemma mutex_pop_inv:
  assumes "mutex_inv c" "pcs c t = Popping" "pop_all order (mtx c) = (m, p)"
    "\<And>xs. mset (order xs) = mset xs"
  shows "mutex_inv (c\<lparr>mtx := m, pcs := (pcs c)(t := p)\<rparr>)" (is "mutex_inv ?c")
proof -
  have p: "p = Unlocking \<and> inflight (mtx c) = [] \<or> p = Draining (order (inflight (mtx c)))"
    "m = (mtx c)\<lparr>inflight := []\<rparr>"
    using assms(3) assms(4) [of "inflight (mtx c)"] by (auto simp: pop_all_def Let_def split: if_splits)
  then have st: "started ?c = started c" using assms(2) by (intro started_upd [of ?c c t p]) auto
  have "lock_inv c" "holds_lock (pcs c t)" using assms by (simp_all add: mutex_inv_def)
  note h = lock_inv_holder [OF this]
  with assms p st have "lock_inv ?c"
    by (intro lock_inv_holderI [of _ t]) auto
  moreover have "active (pcs ?c t)" using p by auto
  ultimately show ?thesis using assms(1) st by (auto simp: mutex_inv_def)
qed

lemma mutex_drain_inv:
  assumes "mutex_inv c" "pcs c t = Draining pending" "drain_one pending = Some (o1, p)"
  shows "mutex_inv (c\<lparr>pcs := (pcs c)(t := p), completed := completed c @ [o1]\<rparr>)" (is "mutex_inv ?c")
proof -
  have p: "\<exists>rest. pending = o1 # rest \<and> (p = Popping \<and> rest = [] \<or> p = Draining rest)"
    using assms(3) by (auto simp: drain_one_def split: list.splits if_splits)
  then have st: "started ?c = started c" using assms(2) by (intro started_upd [of ?c c t p]) auto
  have "lock_inv c" "holds_lock (pcs c t)" using assms by (simp_all add: mutex_inv_def)
  note h = lock_inv_holder [OF this]
  with assms p st have "lock_inv ?c"
    by (intro lock_inv_holderI [of _ t]) (auto simp: ac_simps)
  moreover have "active (pcs ?c t)" using p by auto
  ultimately show ?thesis using assms(1) st by (auto simp: mutex_inv_def)
qed

lemma mutex_unlock_inv:
  assumes "mutex_inv c" "pcs c t = Unlocking" "unlock_store (mtx c) = (m, p)"
  shows "mutex_inv (c\<lparr>mtx := m, pcs := (pcs c)(t := p)\<rparr>)" (is "mutex_inv ?c")
proof -
  have mp: "m = (mtx c)\<lparr>locked := False\<rparr>" "p = Checking" using assms(3) by (auto simp: unlock_store_def)
  then have st: "started ?c = started c" using assms(2) by (intro started_upd [of ?c c t p]) auto
  have "lock_inv c" "holds_lock (pcs c t)" using assms by (simp_all add: mutex_inv_def)
  note h = lock_inv_holder [OF this]
  have "\<not> holds_lock (pcs ?c u)" for u using h(2) [of u] mp by simp
  with h(3) st mp assms(2) have "lock_inv ?c" by (simp add: lock_inv_def)
  moreover have "active (pcs ?c t)" using mp by simp
  ultimately show ?thesis using assms(1) st mp by (auto simp: mutex_inv_def)
qed

lemma mutex_check_inv:
  assumes "mutex_inv c" "pcs c t = Checking"
  shows "mutex_inv (c\<lparr>pcs := (pcs c)(t := check_empty (mtx c))\<rparr>)" (is "mutex_inv ?c")
proof -
  have p: "check_empty (mtx c) \<noteq> Not_Started" "\<not> holds_lock (check_empty (mtx c))"
    by (simp_all add: check_empty_def)
  with assms(2) have st: "started ?c = started c"
    by (intro started_upd [of ?c c t "check_empty (mtx c)"]) auto
  with assms p have "lock_inv ?c"
    by (intro lock_inv_other [of c t "check_empty (mtx c)" ?c "{#}"]) (auto simp: mutex_inv_def)
  moreover have "inflight (mtx c) \<noteq> [] \<Longrightarrow> active (pcs ?c t)" by (simp add: check_empty_def)
  ultimately show ?thesis using assms(1) st by (auto simp: mutex_inv_def)
qed

lemma mutex_step_inv:
  assumes "mutex_step order c c'" "mutex_inv c" "\<And>xs. mset (order xs) = mset xs"
  shows "mutex_inv c'"
  using assms
  by (cases rule: mutex_step.cases)
    (auto intro: mutex_push_inv mutex_lock_inv mutex_pop_inv mutex_drain_inv mutex_unlock_inv
      mutex_check_inv)

lemma mutex_reach_inv:
  assumes "mutex_reach order c" "\<And>xs. mset (order xs) = mset xs"
  shows "mutex_inv c"
  using assms(1)
proof (induction rule: mutex_reach.induct)
  case init
  show ?case by (simp add: mutex_inv_def lock_inv_def started_def)
qed (rule mutex_step_inv [OF _ _ assms(2)])

subsection \<open>Properties\<close>

text \<open>C2 (mutex_excl). Two threads never run critical sections at the same time, and no operation is completed twice,
  whatever order the atomic queue returns its operations in.\<close>

theorem mutex_exclusive:
  assumes "mutex_reach order c" "\<And>xs. mset (order xs) = mset xs"
  shows "(holds_lock (pcs c t) \<and> holds_lock (pcs c u) \<longrightarrow> t = u) \<and> distinct (completed c)"
proof
  have inv: "lock_inv c" "finite (started c)"
    using mutex_reach_inv [OF assms] by (simp_all add: mutex_inv_def)
  show "holds_lock (pcs c t) \<and> holds_lock (pcs c u) \<longrightarrow> t = u"
    using lock_inv_holder(2) [OF inv(1)] by blast
  from inv obtain xs where "xs + mset (completed c) = mset_set (started c)"
    by (auto simp: lock_inv_def split: if_splits)
  then show "distinct (completed c)" by (rule distinct_part)
qed



text \<open>One operation from start to end.\<close>

definition alone :: "nat mutex \<Rightarrow> nat pc \<Rightarrow> nat list \<Rightarrow> nat mutex_config" where
  "alone m p done = \<lparr>mtx = m, pcs = (\<lambda>_. Not_Started)(0 := p), completed = done\<rparr>"

lemma alone_runs:
  "mutex_reach rev (alone \<lparr>locked = True, inflight = []\<rparr> (Draining [0]) [])"
  "mutex_reach rev (alone \<lparr>locked = False, inflight = []\<rparr> Finished [0])"
proof -
  let ?init = "\<lparr>mtx = \<lparr>locked = False, inflight = []\<rparr>, pcs = (\<lambda>_. Not_Started), completed = []\<rparr>"
  have "mutex_reach rev (alone \<lparr>locked = False, inflight = [0]\<rparr> Trying [])"
    using mutex_reach.step [OF mutex_reach.init mutex_step.push [of ?init 0]]
    by (simp add: alone_def start_push_def)
  from mutex_reach.step [OF this mutex_step.lock [of _ 0 "\<lparr>locked = True, inflight = [0]\<rparr>" Popping]]
  have "mutex_reach rev (alone \<lparr>locked = True, inflight = [0]\<rparr> Popping [])"
    by (simp add: alone_def try_lock_def)
  from mutex_reach.step [OF this mutex_step.pop [of _ 0 _ "\<lparr>locked = True, inflight = []\<rparr>" "Draining [0]"]]
  show d: "mutex_reach rev (alone \<lparr>locked = True, inflight = []\<rparr> (Draining [0]) [])"
    by (simp add: alone_def pop_all_def)
  from mutex_reach.step [OF this mutex_step.drain [of _ 0 "[0]" 0 Popping]]
  have "mutex_reach rev (alone \<lparr>locked = True, inflight = []\<rparr> Popping [0])"
    by (simp add: alone_def drain_one_def)
  from mutex_reach.step [OF this mutex_step.pop [of _ 0 _ "\<lparr>locked = True, inflight = []\<rparr>" Unlocking]]
  have "mutex_reach rev (alone \<lparr>locked = True, inflight = []\<rparr> Unlocking [0])"
    by (simp add: alone_def pop_all_def)
  from mutex_reach.step [OF this mutex_step.unlock [of _ 0 "\<lparr>locked = False, inflight = []\<rparr>" Checking]]
  have "mutex_reach rev (alone \<lparr>locked = False, inflight = []\<rparr> Checking [0])"
    by (simp add: alone_def unlock_store_def)
  from mutex_reach.step [OF this mutex_step.check [of _ 0]]
  show "mutex_reach rev (alone \<lparr>locked = False, inflight = []\<rparr> Finished [0])"
    by (simp add: alone_def check_empty_def)
qed

theorem mutex_exclusive_witness:
  "holds_lock (pcs (alone \<lparr>locked = True, inflight = []\<rparr> (Draining [0]) []) 0) \<and>
   \<not> holds_lock (pcs (alone \<lparr>locked = True, inflight = []\<rparr> (Draining [0]) []) 1)"
  using mutex_exclusive [OF alone_runs(1), of 0 1] by (simp add: alone_def)


subsection \<open>The order of the critical sections\<close>

text \<open>A run together with the operations in the order in which they were put on the queue.\<close>

inductive mutex_trace :: "('o list \<Rightarrow> 'o list) \<Rightarrow> 'o list \<Rightarrow> 'o mutex_config \<Rightarrow> bool"
  for order :: "'o list \<Rightarrow> 'o list"
where
  init: "mutex_trace order []
    \<lparr>mtx = \<lparr>locked = False, inflight = []\<rparr>, pcs = (\<lambda>_. Not_Started), completed = []\<rparr>"
| push: "mutex_trace order ps c \<Longrightarrow> pcs c t = Not_Started \<Longrightarrow>
    mutex_trace order (ps @ [t]) (c\<lparr>mtx := start_push t (mtx c), pcs := (pcs c)(t := Trying)\<rparr>)"
| step: "mutex_trace order ps c \<Longrightarrow> mutex_step order c c' \<Longrightarrow> started c' = started c \<Longrightarrow> mutex_trace order ps c'"

lemma mutex_trace_reach: "mutex_trace order ps c \<Longrightarrow> mutex_reach order c"
  by (induction rule: mutex_trace.induct) (auto intro: mutex_reach.intros mutex_step.push)

definition fifo_inv :: "'o list \<Rightarrow> 'o mutex_config \<Rightarrow> bool" where
  "fifo_inv ps c \<longleftrightarrow>
     (if locked (mtx c) then \<exists>h. holds_lock (pcs c h) \<and> ps = completed c @ pending_of (pcs c h) @ rev (inflight (mtx c))
      else ps = completed c @ rev (inflight (mtx c)))"

lemma fifo_holder:
  assumes "fifo_inv ps c" "lock_inv c" "holds_lock (pcs c t)"
  shows "locked (mtx c)" "ps = completed c @ pending_of (pcs c t) @ rev (inflight (mtx c))"
proof -
  show l: "locked (mtx c)" by (rule lock_inv_holder(1) [OF assms(2,3)])
  with assms(1) obtain h where h: "holds_lock (pcs c h)" "ps = completed c @ pending_of (pcs c h) @ rev (inflight (mtx c))"
    by (auto simp: fifo_inv_def)
  with lock_inv_holder(2) [OF assms(2,3), of h] have "h = t" by blast
  with h(2) show "ps = completed c @ pending_of (pcs c t) @ rev (inflight (mtx c))" by simp
qed

lemma fifo_push:
  assumes "fifo_inv ps c" "pcs c t = Not_Started"
  shows "fifo_inv (ps @ [t]) (c\<lparr>mtx := start_push t (mtx c), pcs := (pcs c)(t := Trying)\<rparr>)"
proof (cases "locked (mtx c)")
  case True
  with assms obtain h where h: "holds_lock (pcs c h)" "ps = completed c @ pending_of (pcs c h) @ rev (inflight (mtx c))"
    by (auto simp: fifo_inv_def)
  with assms(2) have "h \<noteq> t" by auto
  with h True show ?thesis by (auto simp: fifo_inv_def start_push_def intro!: exI [of _ h])
qed (use assms in \<open>simp add: fifo_inv_def start_push_def\<close>)

lemma fifo_step:
  assumes "mutex_step rev c c'" "fifo_inv ps c" "lock_inv c" "started c' = started c"
  shows "fifo_inv ps c'"
  using assms(1)
proof (cases rule: mutex_step.cases)
  case (push t)
  then have "t \<in> started c'" "t \<notin> started c" by (simp_all add: started_def)
  with assms(4) show ?thesis by simp
next
  case (lock t m p)
  show ?thesis
  proof (cases "locked (mtx c)")
    case True
    with assms(2) obtain h where h: "holds_lock (pcs c h)" "ps = completed c @ pending_of (pcs c h) @ rev (inflight (mtx c))"
      by (auto simp: fifo_inv_def)
    with lock have "h \<noteq> t" by auto
    with h True lock show ?thesis by (auto simp: fifo_inv_def try_lock_def intro!: exI [of _ h])
  qed (use assms(2) lock in \<open>auto simp: fifo_inv_def try_lock_def\<close>)
next
  case (pop t m p)
  with fifo_holder [OF assms(2,3), of t] show ?thesis
    by (auto simp: fifo_inv_def pop_all_def Let_def split: if_splits intro!: exI [of _ t])
next
  case (drain t pending o1 p)
  with fifo_holder [OF assms(2,3), of t] show ?thesis
    by (auto simp: fifo_inv_def drain_one_def split: list.splits if_splits intro!: exI [of _ t])
next
  case (unlock t m p)
  with fifo_holder [OF assms(2,3), of t] show ?thesis by (auto simp: fifo_inv_def unlock_store_def)
next
  case (check t)
  show ?thesis
  proof (cases "locked (mtx c)")
    case True
    with assms(2) obtain h where h: "holds_lock (pcs c h)" "ps = completed c @ pending_of (pcs c h) @ rev (inflight (mtx c))"
      by (auto simp: fifo_inv_def)
    with check have "h \<noteq> t" by auto
    with h True check show ?thesis by (auto simp: fifo_inv_def intro!: exI [of _ h])
  qed (use assms(2) check in \<open>auto simp: fifo_inv_def\<close>)
qed

lemma mutex_trace_fifo: "mutex_trace rev ps c \<Longrightarrow> fifo_inv ps c"
proof (induction rule: mutex_trace.induct)
  case init
  show ?case by (simp add: fifo_inv_def)
next
  case (push ps c t)
  then show ?case by (simp add: fifo_push)
next
  case (step ps c c')
  have "lock_inv c" using mutex_reach_inv [OF mutex_trace_reach [OF step.hyps(1)]] by (simp add: mutex_inv_def)
  with step show ?case by (blast intro: fifo_step)
qed


text \<open>The second operation is pushed while the first one is about to be taken.\<close>

definition two_ops :: "nat mutex \<Rightarrow> nat pc \<Rightarrow> nat list \<Rightarrow> nat mutex_config" where
  "two_ops m p done = \<lparr>mtx = m, pcs = (\<lambda>_. Not_Started)(0 := p, 1 := Trying), completed = done\<rparr>"

lemma two_ops_trace: "mutex_trace rev [0, 1] (two_ops \<lparr>locked = True, inflight = []\<rparr> (Draining [1]) [0])"
proof -
  let ?init = "\<lparr>mtx = \<lparr>locked = False, inflight = []\<rparr>, pcs = (\<lambda>_. Not_Started), completed = []\<rparr>"
  have st: "started \<lparr>mtx = m, pcs = (\<lambda>_. Not_Started)(0 := p, Suc 0 := Trying), completed = dn\<rparr> = {0, 1 :: nat}"
    if "p \<noteq> Not_Started" for m p dn
    using that by (auto simp: started_def)
  have upd: "f(0 := p, Suc 0 := q, 0 := r) = f(0 := r, Suc 0 := q)" for f :: "nat \<Rightarrow> nat pc" and p q r
    by (rule ext) simp
  have "mutex_trace rev [0, 1] (two_ops \<lparr>locked = False, inflight = [1, 0]\<rparr> Trying [])"
    using mutex_trace.push [OF mutex_trace.push [OF mutex_trace.init, of "0 :: nat"], of 1 rev]
    by (simp add: two_ops_def start_push_def del: One_nat_def)
  from mutex_trace.step [OF this mutex_step.lock [of _ 0 "\<lparr>locked = True, inflight = [1, 0]\<rparr>" Popping]]
  have "mutex_trace rev [0, 1] (two_ops \<lparr>locked = True, inflight = [1, 0]\<rparr> Popping [])"
    by (simp add: two_ops_def try_lock_def st upd)
  from mutex_trace.step [OF this mutex_step.pop [of _ 0 _ "\<lparr>locked = True, inflight = []\<rparr>" "Draining [0, 1]"]]
  have "mutex_trace rev [0, 1] (two_ops \<lparr>locked = True, inflight = []\<rparr> (Draining [0, 1]) [])"
    by (simp add: two_ops_def pop_all_def st upd)
  from mutex_trace.step [OF this mutex_step.drain [of _ 0 "[0, 1]" 0 "Draining [1]"]]
  show ?thesis by (simp add: two_ops_def drain_one_def st upd)
qed


end
