(* ===== verification/Async_Channel.thy ===== *)
theory Async_Channel
  imports Intrusive_List
begin

text \<open>
  \<^verbatim>\<open>async_channel.hpp\<close>: the observers of a channel are an intrusive list, which the operations of a
  handle change while they hold the channel's mutex (\<open>Async_Mutex\<close>): a function here is what runs in
  one critical section. A subscription that an observer belongs to has a counter that decides
  between a close of the channel and a stop request.

  Sending an item to an observer is the receiver's business: \<open>ch_notify_all\<close> gives the observers that
  an item is spawned for, and \<open>ch_item_stopped\<close> is what runs when such an item ends as stopped.
\<close>

subsection \<open>The observers\<close>

record 'o channel_context =
  c_links :: "'o dlinks"
  observers :: "'o ilist"
  obs_started :: "'o \<Rightarrow> bool"

definition ch_open :: "'o channel_context" where
  "ch_open = \<lparr>c_links = \<lparr>nxt_of = (\<lambda>_. None), prv_of = (\<lambda>_. None)\<rparr>, observers = il_init,
     obs_started = (\<lambda>_. False)\<rparr>"

definition lst :: "'o channel_context \<Rightarrow> 'o lstate" where
  "lst c = (c_links c, observers c)"

definition with_lst :: "'o lstate \<Rightarrow> 'o channel_context \<Rightarrow> 'o channel_context" where
  "with_lst s c = c\<lparr>c_links := fst s, observers := snd s\<rparr>"

lemma lst_with [simp]: "lst (with_lst s c) = s"
  by (simp add: lst_def with_lst_def)

definition ch_subscribe :: "'o \<Rightarrow> 'o channel_context \<Rightarrow> 'o channel_context option" where
  "ch_subscribe ob c = do {
     let c1 = c\<lparr>obs_started := (obs_started c)(ob := True)\<rparr>;
     s \<leftarrow> il_push_back ob (lst c1);
     Some (with_lst s c1)
   }"

text \<open>The list holds the observers whose receiver is completed with a value, in this order.\<close>

definition ch_unsubscribe :: "'o \<Rightarrow> 'o channel_context \<Rightarrow> ('o channel_context \<times> 'o list) option" where
  "ch_unsubscribe ob c = do {
     s \<leftarrow> il_erase ob (lst c);
     Some (with_lst s c, [ob])
   }"

definition ch_notify_all :: "'o channel_context \<Rightarrow> 'o list option" where
  "ch_notify_all c = il_elements (lst c)"

definition ch_item_stopped :: "'o \<Rightarrow> 'o channel_context \<Rightarrow> ('o channel_context \<times> 'o list) option" where
  "ch_item_stopped ob c = do {
     s \<leftarrow> il_erase ob (lst c);
     Some (with_lst s c, [ob])
   }"

definition ch_close :: "'o channel_context \<Rightarrow> ('o channel_context \<times> 'o list) option" where
  "ch_close c = do {
     (completed, s) \<leftarrow> drain (\<lambda>s. il_empty (snd s)) il_pop_front (lst c);
     Some (with_lst s c, completed)
   }"

lemma ch_close_repr:
  assumes "list_repr (lst c) obs"
  shows "\<exists>c'. ch_close c = Some (c', obs) \<and> list_repr (lst c') []"
  using il.drain_repr [OF assms] by (auto simp: ch_close_def)

lemma ch_subscribe_repr:
  assumes "list_repr (lst c) obs" "ob \<notin> set obs"
  shows "\<exists>c'. ch_subscribe ob c = Some c' \<and> list_repr (lst c') (obs @ [ob])"
proof -
  have "lst (c\<lparr>obs_started := f\<rparr>) = lst c" for f by (simp add: lst_def)
  with il_push_back_repr [OF assms] show ?thesis by (auto simp: ch_subscribe_def)
qed

lemma ch_unsubscribe_repr:
  assumes "list_repr (lst c) obs" "ob \<in> set obs"
  shows "\<exists>c'. ch_unsubscribe ob c = Some (c', [ob]) \<and> list_repr (lst c') (remove1 ob obs)"
  using il_erase_repr [OF assms] by (auto simp: ch_unsubscribe_def)

text \<open>Remark (channel). A channel notifies its observers in the order in which they subscribed; an observer that leaves
  is completed and is not notified any more; closing completes every observer that is left, once,
  and leaves the channel empty.\<close>

theorem channel_observers:
  assumes "list_repr (lst c) obs"
  shows "ch_notify_all c = Some obs \<and>
    (ob \<notin> set obs \<longrightarrow> (\<exists>c'. ch_subscribe ob c = Some c' \<and> ch_notify_all c' = Some (obs @ [ob]))) \<and>
    (ob \<in> set obs \<longrightarrow> (\<exists>c'. ch_unsubscribe ob c = Some (c', [ob]) \<and>
       ch_notify_all c' = Some (remove1 ob obs))) \<and>
    (\<exists>c'. ch_close c = Some (c', obs) \<and> ch_notify_all c' = Some [])"
  using ch_subscribe_repr [OF assms, of ob] ch_unsubscribe_repr [OF assms, of ob]
    ch_close_repr [OF assms] assms
  by (auto simp: ch_notify_all_def dest: list_repr_elements)

lemma ch_open_repr: "list_repr (lst ch_open) []"
  by (simp add: ch_open_def lst_def list_repr_init)

theorem channel_observers_witness:
  "\<exists>c'. ch_subscribe (3 :: nat) ch_open = Some c' \<and> ch_notify_all c' = Some [3]"
  using channel_observers [OF ch_open_repr, of "3 :: nat"] by simp

text \<open>Remark (channel_erase). Erasing an observer that is not in the list breaks it. An unsubscribe that gets the mutex before
  its own subscribe drops all observers of the channel; an observer that is erased twice, by a
  stopped item and by its own stop request, can bring a removed neighbour back into the links, after
  which erasing the last observer leaves it in the list.\<close>

theorem channel_erase_errors:
  fixes ob x y z :: 'o
  assumes "list_repr (lst c) obs" "nxt_of (c_links c) ob = None" "prv_of (c_links c) ob = None"
    "distinct [x, y, z]"
  shows "(\<exists>c'. ch_unsubscribe ob c = Some (c', [ob]) \<and> ch_notify_all c' = Some []) \<and>
    (\<exists>c'. (do {
       c1 \<leftarrow> ch_subscribe x ch_open;
       c2 \<leftarrow> ch_subscribe y c1;
       c3 \<leftarrow> ch_subscribe z c2;
       (c4, _) \<leftarrow> ch_item_stopped y c3;
       (c5, _) \<leftarrow> ch_unsubscribe x c4;
       (c6, _) \<leftarrow> ch_unsubscribe y c5;
       ch_unsubscribe z c6
     }) = Some (c', [z]) \<and> ch_notify_all c' = Some [z])"
proof
  show "\<exists>c'. ch_unsubscribe ob c = Some (c', [ob]) \<and> ch_notify_all c' = Some []"
    using assms(2,3)
    by (simp add: ch_unsubscribe_def il_erase_def lst_def with_lst_def ch_notify_all_def
        il_elements_def it_begin_def it_end_def elements_from.simps)
next
  have e: "elements_from h None None = Some []" for h :: "'o dlinks"
    by (subst elements_from.simps) simp
  show "\<exists>c'. (do {
       c1 \<leftarrow> ch_subscribe x ch_open;
       c2 \<leftarrow> ch_subscribe y c1;
       c3 \<leftarrow> ch_subscribe z c2;
       (c4, _) \<leftarrow> ch_item_stopped y c3;
       (c5, _) \<leftarrow> ch_unsubscribe x c4;
       (c6, _) \<leftarrow> ch_unsubscribe y c5;
       ch_unsubscribe z c6
     }) = Some (c', [z]) \<and> ch_notify_all c' = Some [z]"
    using assms(4)
    by (auto simp: ch_subscribe_def ch_open_def ch_item_stopped_def ch_unsubscribe_def lst_def
        with_lst_def il_push_back_def il_erase_def il_init_def ch_notify_all_def il_elements_def
        it_begin_def it_end_def it_incr_def Let_def e elements_from.simps [of _ "Some z"])
qed

theorem channel_erase_errors_witness:
  "\<exists>c'. ch_unsubscribe (0 :: nat) ch_open = Some (c', [0]) \<and> ch_notify_all c' = Some []"
  using channel_erase_errors [OF ch_open_repr, of "0 :: nat" 1 2 3] by (simp add: ch_open_def)

subsection \<open>A subscription\<close>

text \<open>
  The counter \<open>n_ops\<close>: 0 before the start, 1 subscribed, 2 stop requested, 3 the receiver was told
  that the channel has ended. The stop operation is an unsubscribe that waits for the mutex.
\<close>

datatype stop_op = Stop_Idle | Stop_Started | Stop_Done

record subscription =
  n_ops :: int
  has_callback :: bool
  sub_stop_op :: stop_op
  subscribing :: bool
  n_completed :: nat

definition sub_init :: subscription where
  "sub_init = \<lparr>n_ops = 0, has_callback = False, sub_stop_op = Stop_Idle, subscribing = False,
     n_completed = 0\<rparr>"

definition complete_receiver :: "subscription \<Rightarrow> subscription" where
  "complete_receiver s = s\<lparr>has_callback := False, n_completed := n_completed s + 1\<rparr>"

definition sub_on_stop_requested :: "subscription \<Rightarrow> subscription" where
  "sub_on_stop_requested s =
     (let before = n_ops s; s1 = s\<lparr>n_ops := 2\<rparr>
      in if before = 1 then s1\<lparr>sub_stop_op := Stop_Started\<rparr>
         else if before = 0 then complete_receiver s1
         else s1)"

definition sub_emplace_callback :: "bool \<Rightarrow> subscription \<Rightarrow> subscription" where
  "sub_emplace_callback stop_requested s =
     (let s1 = s\<lparr>has_callback := True\<rparr>
      in if stop_requested then sub_on_stop_requested s1 else s1)"

definition sub_start_cas :: "subscription \<Rightarrow> subscription" where
  "sub_start_cas s = (if n_ops s = 0 then s\<lparr>n_ops := 1, subscribing := True\<rparr> else s)"

definition sub_wrap_set_value :: "subscription \<Rightarrow> subscription" where
  "sub_wrap_set_value s =
     (let before = n_ops s; s1 = s\<lparr>n_ops := 3\<rparr>
      in if before = 1 then complete_receiver s1 else s1)"

definition sub_stop_receiver_set_value :: "subscription \<Rightarrow> subscription" where
  "sub_stop_receiver_set_value s = complete_receiver (s\<lparr>sub_stop_op := Stop_Done\<rparr>)"

text \<open>
  All orders of the steps: the callback is emplaced, with stop requested or not, the start takes its
  step, stop is requested while the callback is installed, the observer's receiver is completed by
  the channel once the observer subscribed, any number of times, and a started stop operation ends.
\<close>

inductive sub_reach :: "subscription \<Rightarrow> bool" where
  callback: "sub_reach (sub_emplace_callback stop sub_init)"
| start: "sub_reach s \<Longrightarrow> \<not> subscribing s \<Longrightarrow> sub_reach (sub_start_cas s)"
| stop: "sub_reach s \<Longrightarrow> has_callback s \<Longrightarrow> sub_stop_op s = Stop_Idle \<Longrightarrow>
    sub_reach (sub_on_stop_requested s)"
| channel: "sub_reach s \<Longrightarrow> subscribing s \<Longrightarrow> sub_reach (sub_wrap_set_value s)"
| stop_done: "sub_reach s \<Longrightarrow> sub_stop_op s = Stop_Started \<Longrightarrow>
    sub_reach (sub_stop_receiver_set_value s)"

definition sub_inv :: "subscription \<Rightarrow> bool" where
  "sub_inv s \<longleftrightarrow>
     (n_ops s = 0 \<and> has_callback s \<and> sub_stop_op s = Stop_Idle \<and> n_completed s = 0 \<and> \<not> subscribing s) \<or>
     (n_ops s = 1 \<and> has_callback s \<and> sub_stop_op s = Stop_Idle \<and> n_completed s = 0 \<and> subscribing s) \<or>
     (n_ops s \<in> {2, 3} \<and> sub_stop_op s = Stop_Started \<and> n_completed s = 0 \<and> subscribing s) \<or>
     (n_ops s \<in> {2, 3} \<and> sub_stop_op s \<noteq> Stop_Started \<and> n_completed s = 1 \<and> \<not> has_callback s)"

lemma sub_reach_inv: "sub_reach s \<Longrightarrow> sub_inv s"
proof (induction rule: sub_reach.induct)
  case (callback stop)
  show ?case
    by (cases stop) (simp_all add: sub_emplace_callback_def sub_on_stop_requested_def
        complete_receiver_def sub_init_def sub_inv_def Let_def)
next
  case (start s)
  then show ?case by (auto simp: sub_inv_def sub_start_cas_def)
next
  case (stop s)
  then show ?case
    by (auto simp: sub_inv_def sub_on_stop_requested_def complete_receiver_def Let_def)
next
  case (channel s)
  then show ?case
    by (auto simp: sub_inv_def sub_wrap_set_value_def complete_receiver_def Let_def)
next
  case (stop_done s)
  then show ?case
    by (auto simp: sub_inv_def sub_stop_receiver_set_value_def complete_receiver_def)
qed

text \<open>C26 (subscription). However a start, a stop request and the end of the channel interleave, the receiver of a
  subscription is completed at most once; and it has been completed as soon as the channel ended it
  and no stop operation is under way, or a stop request was answered.\<close>

theorem subscription_completes_once:
  assumes "sub_reach s"
  shows "n_completed s \<le> 1 \<and>
    (n_completed s = 1 \<longleftrightarrow> n_ops s \<in> {2, 3} \<and> sub_stop_op s \<noteq> Stop_Started)"
  using sub_reach_inv [OF assms] by (auto simp: sub_inv_def)

theorem subscription_completes_once_witness:
  "n_completed (sub_wrap_set_value (sub_start_cas (sub_emplace_callback False sub_init))) = 1"
proof -
  have "sub_reach (sub_start_cas (sub_emplace_callback False sub_init))"
    by (rule sub_reach.start [OF sub_reach.callback]) (simp add: sub_emplace_callback_def sub_init_def)
  from sub_reach.channel [OF this]
  have "sub_reach (sub_wrap_set_value (sub_start_cas (sub_emplace_callback False sub_init)))"
    by (simp add: sub_start_cas_def sub_emplace_callback_def sub_init_def)
  from subscription_completes_once [OF this] show ?thesis
    by (simp add: sub_wrap_set_value_def sub_start_cas_def sub_emplace_callback_def sub_init_def
        complete_receiver_def)
qed

end
