(* ===== verification/Channel_Notify.thy ===== *)
theory Channel_Notify
  imports Async_Channel
begin

text \<open>
  Giving items to the observers of a channel: the loop of \<^verbatim>\<open>handle_base::notify_all\<close>, what a single item does, and
  \<^verbatim>\<open>handle::notify_all\<close>, which gives all items of a sequence, one after the other.

  An item that is spawned for an observer can end before the call that spawns it returns, or later; it can end as
  stopped, which erases the observer and completes its receiver. Completing the receiver can destroy the observer.
\<close>

subsection \<open>One item\<close>

datatype spawn_end = Ends_Inline | Stops_Inline | Ends_Later | Stops_Later

text \<open>
  \<open>ends\<close> says how the item of each observer ends, \<open>gone\<close> which observers are destroyed when they are completed. The
  iterator of the loop reads the link of the observer after the item was spawned. The lists are the observers that got
  the item, and those whose receiver was completed.
\<close>

partial_function (option) notify_loop ::
  "('o \<Rightarrow> spawn_end) \<Rightarrow> ('o \<Rightarrow> bool) \<Rightarrow> 'o ptr \<Rightarrow> 'o channel_context \<Rightarrow>
     ('o channel_context \<times> 'o list \<times> 'o list) option" where
  "notify_loop ends gone it c =
     (if it = it_end (observers c) then Some (c, [], [])
      else do {
        ob \<leftarrow> it;
        (c1, now) \<leftarrow> (if ends ob = Stops_Inline then ch_item_stopped ob c else Some (c, []));
        it1 \<leftarrow> (if ends ob = Stops_Inline \<and> gone ob then None else it_incr (c_links c1) it);
        (c2, given, completed) \<leftarrow> notify_loop ends gone it1 c1;
        Some (c2, ob # given, now @ completed)
      })"

text \<open>The items that end as stopped after the loop, in the order in which they do; the call waits for all of them.\<close>

fun items_stop :: "'o list \<Rightarrow> 'o channel_context \<Rightarrow> ('o channel_context \<times> 'o list) option" where
  "items_stop [] c = Some (c, [])"
| "items_stop (ob # later) c = do {
     (c1, done1) \<leftarrow> ch_item_stopped ob c;
     (c2, done2) \<leftarrow> items_stop later c1;
     Some (c2, done1 @ done2)
   }"

definition ch_notify_item ::
  "('o \<Rightarrow> spawn_end) \<Rightarrow> ('o \<Rightarrow> bool) \<Rightarrow> 'o list \<Rightarrow> 'o channel_context \<Rightarrow>
     ('o channel_context \<times> 'o list \<times> 'o list) option" where
  "ch_notify_item ends gone later c = do {
     (c1, given, done1) \<leftarrow> notify_loop ends gone (it_begin (observers c)) c;
     (c2, done2) \<leftarrow> items_stop later c1;
     Some (c2, given, done1 @ done2)
   }"

subsection \<open>A sequence of items\<close>

text \<open>Each item is given once the one before has ended. The log says which observer got which item.\<close>

record ('o, 'i) channel_item =
  item_of :: 'i
  ends_of :: "'o \<Rightarrow> spawn_end"
  later_of :: "'o list"

fun handle_notify_all ::
  "('o \<Rightarrow> bool) \<Rightarrow> ('o, 'i) channel_item list \<Rightarrow> 'o channel_context \<Rightarrow>
     ('o channel_context \<times> ('o \<times> 'i) list \<times> 'o list) option" where
  "handle_notify_all gone [] c = Some (c, [], [])"
| "handle_notify_all gone (i # items) c = do {
     (c1, given, done1) \<leftarrow> ch_notify_item (ends_of i) gone (later_of i) c;
     (c2, log, done2) \<leftarrow> handle_notify_all gone items c1;
     Some (c2, map (\<lambda>ob. (ob, item_of i)) given @ log, done1 @ done2)
   }"

subsection \<open>What the loop does\<close>

definition stops :: "spawn_end \<Rightarrow> bool" where
  "stops e \<longleftrightarrow> e = Stops_Inline \<or> e = Stops_Later"

lemma ch_item_stopped_split:
  assumes "list_repr (lst c) (pre @ ob # obs)"
  shows "\<exists>c'. ch_item_stopped ob c = Some (c', [ob]) \<and> list_repr (lst c') (pre @ obs)"
  using il_erase_split [OF assms] by (auto simp: ch_item_stopped_def)

text \<open>An observer that was erased keeps its link to the next one.\<close>

lemma il_erase_keeps_next:
  assumes "list_repr s (pre @ x # xs)" "il_erase x s = Some s'"
  shows "nxt_of (fst s') x = hd_ptr xs"
proof (cases s)
  case (Pair h l)
  with assms show ?thesis
    by (cases pre rule: rev_cases; cases xs)
      (auto simp: list_repr_defs il_erase_def Let_def ptr_simps)
qed

lemma list_repr_next:
  assumes "list_repr s (pre @ x # xs)"
  shows "nxt_of (fst s) x = hd_ptr xs"
  using assms by (cases xs) (auto simp: list_repr_defs ptr_simps)

lemma notify_loop_repr:
  assumes "list_repr (lst c) (pre @ obs)" "\<forall>ob\<in>set obs. ends ob = Stops_Inline \<longrightarrow> \<not> gone ob"
  shows "\<exists>c'. notify_loop ends gone (hd_ptr obs) c =
      Some (c', obs, filter (\<lambda>ob. ends ob = Stops_Inline) obs) \<and>
    list_repr (lst c') (pre @ filter (\<lambda>ob. ends ob \<noteq> Stops_Inline) obs)"
  using assms
proof (induction obs arbitrary: pre c)
  case Nil
  then show ?case by (simp add: notify_loop.simps [of _ _ None] it_end_def)
next
  case (Cons ob obs)
  show ?case
  proof (cases "ends ob = Stops_Inline")
    case True
    obtain c1 where c1: "ch_item_stopped ob c = Some (c1, [ob])" "list_repr (lst c1) (pre @ obs)"
      using ch_item_stopped_split [OF Cons.prems(1)] by blast
    have "it_incr (c_links c1) (Some ob) = Some (hd_ptr obs)"
      using c1(1) il_erase_keeps_next [OF Cons.prems(1)]
      by (auto simp: ch_item_stopped_def it_incr_def with_lst_def bind_eq_Some_conv)
    with Cons.IH [OF c1(2)] Cons.prems(2) True c1(1) show ?thesis
      by (subst notify_loop.simps) (auto simp: it_end_def)
  next
    case False
    have "it_incr (c_links c) (Some ob) = Some (hd_ptr obs)"
      using list_repr_next [OF Cons.prems(1)] by (simp add: it_incr_def lst_def)
    with Cons.IH [of c "pre @ [ob]"] Cons.prems False show ?thesis
      by (subst notify_loop.simps) (auto simp: it_end_def)
  qed
qed

lemma items_stop_repr:
  assumes "list_repr (lst c) obs" "distinct later" "set later \<subseteq> set obs"
  shows "\<exists>c'. items_stop later c = Some (c', later) \<and> list_repr (lst c') (filter (\<lambda>ob. ob \<notin> set later) obs)"
  using assms
proof (induction later arbitrary: c obs)
  case (Cons ob later)
  then obtain pre post where obs: "obs = pre @ ob # post" by (meson list.set_intros(1) split_list subsetD)
  obtain c1 where c1: "ch_item_stopped ob c = Some (c1, [ob])" "list_repr (lst c1) (pre @ post)"
    using ch_item_stopped_split [OF Cons.prems(1) [unfolded obs]] by blast
  have "ob \<notin> set (pre @ post)" using list_repr_distinct [OF Cons.prems(1)] obs by simp
  then have "filter (\<lambda>x. x \<notin> set later) (pre @ post) = filter (\<lambda>x. x \<notin> set (ob # later)) obs"
    using obs by (auto intro!: arg_cong2 [where f = append] filter_cong)
  moreover have "distinct later" "set later \<subseteq> set (pre @ post)" using Cons.prems(2,3) obs by auto
  from Cons.IH [OF c1(2) this] obtain c2 where "items_stop later c1 = Some (c2, later)"
    "list_repr (lst c2) (filter (\<lambda>x. x \<notin> set later) (pre @ post))" by blast
  ultimately show ?case using c1(1) by (simp del: filter_append)
qed simp

text \<open>What is known of how an item ends: an observer that is stopped inline is not destroyed.\<close>

definition item_ok :: "('o \<Rightarrow> bool) \<Rightarrow> 'o list \<Rightarrow> ('o, 'i) channel_item \<Rightarrow> bool" where
  "item_ok gone obs i \<longleftrightarrow> (\<forall>ob\<in>set obs. ends_of i ob = Stops_Inline \<longrightarrow> \<not> gone ob) \<and>
     distinct (later_of i) \<and> set (later_of i) = {ob \<in> set obs. ends_of i ob = Stops_Later}"

lemma ch_notify_item_repr:
  assumes "list_repr (lst c) obs" "item_ok gone obs i"
  shows "\<exists>c'. ch_notify_item (ends_of i) gone (later_of i) c =
      Some (c', obs, filter (\<lambda>ob. ends_of i ob = Stops_Inline) obs @ later_of i) \<and>
    list_repr (lst c') (filter (\<lambda>ob. \<not> stops (ends_of i ob)) obs)"
proof -
  have start: "it_begin (observers c) = hd_ptr obs"
    using assms(1) by (auto simp: it_begin_def list_repr_def fwd_repr_def lst_def dest: chain_hd)
  obtain c1 where c1: "notify_loop (ends_of i) gone (hd_ptr obs) c =
      Some (c1, obs, filter (\<lambda>ob. ends_of i ob = Stops_Inline) obs)"
    "list_repr (lst c1) (filter (\<lambda>ob. ends_of i ob \<noteq> Stops_Inline) obs)"
    using notify_loop_repr [of c "[]" obs "ends_of i" gone] assms by (fastforce simp: item_ok_def)
  have later: "distinct (later_of i)" "set (later_of i) = {ob \<in> set obs. ends_of i ob = Stops_Later}"
    using assms(2) by (auto simp: item_ok_def)
  then have "set (later_of i) \<subseteq> set (filter (\<lambda>ob. ends_of i ob \<noteq> Stops_Inline) obs)" by auto
  from items_stop_repr [OF c1(2) later(1) this] obtain c2 where c2: "items_stop (later_of i) c1 = Some (c2, later_of i)"
    "list_repr (lst c2) (filter (\<lambda>ob. ob \<notin> set (later_of i)) (filter (\<lambda>ob. ends_of i ob \<noteq> Stops_Inline) obs))"
    by blast
  have "filter (\<lambda>ob. ob \<notin> set (later_of i)) (filter (\<lambda>ob. ends_of i ob \<noteq> Stops_Inline) obs) =
      filter (\<lambda>ob. \<not> stops (ends_of i ob)) obs"
    unfolding filter_filter by (rule filter_cong) (auto simp: later stops_def)
  with c1(1) c2 start show ?thesis by (simp add: ch_notify_item_def)
qed

subsection \<open>What every observer receives\<close>

text \<open>The items up to the first one that the observer stopped, which includes it.\<close>

fun received :: "'o \<Rightarrow> ('o, 'i) channel_item list \<Rightarrow> 'i list" where
  "received ob [] = []"
| "received ob (i # items) = item_of i # (if stops (ends_of i ob) then [] else received ob items)"

fun items_ok :: "('o \<Rightarrow> bool) \<Rightarrow> 'o list \<Rightarrow> ('o, 'i) channel_item list \<Rightarrow> bool" where
  "items_ok gone obs [] \<longleftrightarrow> True"
| "items_ok gone obs (i # items) \<longleftrightarrow>
     item_ok gone obs i \<and> items_ok gone (filter (\<lambda>ob. \<not> stops (ends_of i ob)) obs) items"

definition stopped_by :: "('o, 'i) channel_item list \<Rightarrow> 'o \<Rightarrow> bool" where
  "stopped_by items ob \<longleftrightarrow> (\<exists>i\<in>set items. stops (ends_of i ob))"

lemma log_of_item:
  "distinct obs \<Longrightarrow> map snd (filter (\<lambda>(x, _). x = ob) (map (\<lambda>x. (x, i)) obs)) = (if ob \<in> set obs then [i] else [])"
  by (induction obs) auto

lemma handle_notify_all_repr:
  assumes "list_repr (lst c) obs" "items_ok gone obs items"
  shows "\<exists>c' log completed. handle_notify_all gone items c = Some (c', log, completed) \<and>
    list_repr (lst c') (filter (\<lambda>ob. \<not> stopped_by items ob) obs) \<and>
    distinct completed \<and> set completed = {ob \<in> set obs. stopped_by items ob} \<and>
    (\<forall>ob. map snd (filter (\<lambda>(x, _). x = ob) log) = (if ob \<in> set obs then received ob items else []))"
  using assms
proof (induction items arbitrary: c obs)
  case Nil
  then show ?case by (simp add: stopped_by_def)
next
  case (Cons i items)
  let ?left = "filter (\<lambda>ob. \<not> stops (ends_of i ob)) obs"
  let ?now = "filter (\<lambda>ob. ends_of i ob = Stops_Inline) obs @ later_of i"
  have d: "distinct obs" by (rule list_repr_distinct [OF Cons.prems(1)])
  from Cons.prems(2) have ok: "item_ok gone obs i" "items_ok gone ?left items" by simp_all
  have now: "distinct ?now" "set ?now = {ob \<in> set obs. stops (ends_of i ob)}"
    using ok(1) d by (auto simp: item_ok_def stops_def)
  obtain c1 where c1: "ch_notify_item (ends_of i) gone (later_of i) c = Some (c1, obs, ?now)"
    "list_repr (lst c1) ?left"
    using ch_notify_item_repr [OF Cons.prems(1) ok(1)] by blast
  obtain c2 log completed where rest: "handle_notify_all gone items c1 = Some (c2, log, completed)"
    "list_repr (lst c2) (filter (\<lambda>ob. \<not> stopped_by items ob) ?left)"
    "distinct completed" "set completed = {ob \<in> set ?left. stopped_by items ob}"
    "\<forall>ob. map snd (filter (\<lambda>(x, _). x = ob) log) = (if ob \<in> set ?left then received ob items else [])"
    using Cons.IH [OF c1(2) ok(2)] by blast
  have "filter (\<lambda>ob. \<not> stopped_by items ob) ?left = filter (\<lambda>ob. \<not> stopped_by (i # items) ob) obs"
    unfolding filter_filter by (rule filter_cong) (auto simp: stopped_by_def)
  moreover have "distinct (?now @ completed)" using now rest(3,4) by auto
  moreover have "set (?now @ completed) = {ob \<in> set obs. stopped_by (i # items) ob}"
    unfolding set_append [of ?now completed] now(2) rest(4) by (auto simp: stopped_by_def)
  moreover have "map snd (filter (\<lambda>(x, _). x = ob) (map (\<lambda>x. (x, item_of i)) obs @ log)) =
      (if ob \<in> set obs then received ob (i # items) else [])" for ob
    unfolding filter_append map_append log_of_item [OF d] using rest(5) by simp
  ultimately show ?case
    unfolding handle_notify_all.simps c1(1) using rest(1,2) by auto
qed


text \<open>Remark (channel_use_after_free). An observer whose item is stopped while it is spawned, and which completing its receiver
  destroys, makes the loop read a destroyed observer.\<close>

theorem channel_use_after_free:
  assumes "list_repr (lst c) (ob # obs)" "ends ob = Stops_Inline" "gone ob"
  shows "ch_notify_item ends gone later c = None"
proof -
  have "it_begin (observers c) = Some ob"
    using assms(1) by (auto simp: it_begin_def list_repr_def fwd_repr_def lst_def dest: chain_hd)
  moreover have "notify_loop ends gone (Some ob) c = None"
    using assms(2,3) by (subst notify_loop.simps) (simp add: it_end_def bind_eq_None_conv split: prod.split)
  ultimately show ?thesis by (simp add: ch_notify_item_def)
qed

text \<open>Two observers; the first stops the first item while it is spawned, the second the second item later.\<close>

definition two_observers :: "nat channel_context option" where
  "two_observers = do { c \<leftarrow> ch_subscribe 1 ch_open; ch_subscribe 2 c }"

definition two_items :: "(nat, string) channel_item list" where
  "two_items =
    [\<lparr>item_of = ''a'', ends_of = (\<lambda>ob. if ob = 1 then Stops_Inline else Ends_Later), later_of = []\<rparr>,
     \<lparr>item_of = ''b'', ends_of = (\<lambda>ob. Stops_Later), later_of = [2]\<rparr>]"

lemma two_observers_repr: "\<exists>c. two_observers = Some c \<and> list_repr (lst c) [1, 2]"
proof -
  obtain c where c: "ch_subscribe 1 ch_open = Some c" "list_repr (lst c) [1 :: nat]"
    using ch_subscribe_repr [OF ch_open_repr, of "1 :: nat"] by auto
  obtain c' where "ch_subscribe 2 c = Some c'" "list_repr (lst c') ([1] @ [2])"
    using ch_subscribe_repr [OF c(2), of 2] by auto
  with c(1) show ?thesis unfolding two_observers_def by (auto simp del: One_nat_def)
qed


end
