(* ===== verification/Channel_System.thy ===== *)
theory Channel_System
  imports Channel_Notify "HOL-Library.Multiset"
begin

text \<open>
  A channel with its subscriptions: the observer list of \<open>Async_Channel\<close>, the counters of all subscriptions, the lock
  operations that wait for the mutex, and the items that are spawned and have not ended. An event is one atomic step
  of some thread. The queue of the mutex may run the waiting operations in any order (\<open>Async_Mutex\<close>), so any of them
  can be the next.

  Completing the receiver of a subscription can destroy its operation, with the observer in it: a step that touches
  an observer whose receiver was completed is \<open>None\<close>.
\<close>

subsection \<open>State and events\<close>

datatype 'o request = Subscribe_Req 'o | Unsubscribe_Req 'o | Notify_Req | Close_Req

datatype start_phase = Fresh | Emplaced | Started

record 'o channel_system =
  cs_ctx :: "'o channel_context"
  cs_sub :: "'o \<Rightarrow> subscription"
  cs_phase :: "'o \<Rightarrow> start_phase"
  cs_requests :: "'o request multiset"
  cs_items :: "'o multiset"

definition sys_open :: "'o channel_system" where
  "sys_open = \<lparr>cs_ctx = ch_open, cs_sub = (\<lambda>_. sub_init), cs_phase = (\<lambda>_. Fresh), cs_requests = {#}, cs_items = {#}\<rparr>"

definition operation_alive :: "'o channel_system \<Rightarrow> 'o \<Rightarrow> bool" where
  "operation_alive s ob \<longleftrightarrow> n_completed (cs_sub s ob) = 0"

definition all_alive :: "'o channel_system \<Rightarrow> 'o list \<Rightarrow> unit option" where
  "all_alive s obs = (if list_all (operation_alive s) obs then Some () else None)"

definition upd_sub :: "(subscription \<Rightarrow> subscription) \<Rightarrow> 'o \<Rightarrow> 'o channel_system \<Rightarrow> 'o channel_system" where
  "upd_sub f ob s = s\<lparr>cs_sub := (cs_sub s)(ob := f (cs_sub s ob))\<rparr>"

datatype 'o event =
    Emplace 'o bool \<comment> \<open>the first step of \<^verbatim>\<open>start\<close>; whether stop was requested before\<close>
  | Cas 'o \<comment> \<open>the rest of \<^verbatim>\<open>start\<close>\<close>
  | Stop_Request 'o
  | Ask "'o request" \<comment> \<open>a handle starts a lock operation\<close>
  | Run "'o request" \<comment> \<open>the mutex runs a critical section\<close>
  | Item_End 'o bool \<comment> \<open>an item ends, as stopped or not\<close>

subsection \<open>The steps\<close>

text \<open>The observers that a list operation reads or writes.\<close>

definition ptr_list :: "'o ptr \<Rightarrow> 'o list" where
  "ptr_list p = (case p of None \<Rightarrow> [] | Some x \<Rightarrow> [x])"

definition touched_push :: "'o \<Rightarrow> 'o lstate \<Rightarrow> 'o list" where
  "touched_push ob s = ob # ptr_list (l_tail (snd s))"

definition touched_erase :: "'o \<Rightarrow> 'o lstate \<Rightarrow> 'o list" where
  "touched_erase ob s = ob # ptr_list (prv_of (fst s) ob) @ ptr_list (nxt_of (fst s) ob)"

definition touched_pop :: "'o lstate \<Rightarrow> 'o list" where
  "touched_pop s = (case l_head (snd s) of None \<Rightarrow> [] | Some x \<Rightarrow> x # ptr_list (nxt_of (fst s) x))"

definition sys_emplace :: "'o \<Rightarrow> bool \<Rightarrow> 'o channel_system \<Rightarrow> 'o channel_system option" where
  "sys_emplace ob stop_requested s =
     Some ((upd_sub (sub_emplace_callback stop_requested) ob s)\<lparr>cs_phase := (cs_phase s)(ob := Emplaced)\<rparr>)"

definition sys_cas :: "'o \<Rightarrow> 'o channel_system \<Rightarrow> 'o channel_system option" where
  "sys_cas ob s = do {
     all_alive s [ob];
     let s1 = (upd_sub sub_start_cas ob s)\<lparr>cs_phase := (cs_phase s)(ob := Started)\<rparr>;
     Some (if n_ops (cs_sub s ob) = 0 then s1\<lparr>cs_requests := add_mset (Subscribe_Req ob) (cs_requests s1)\<rparr> else s1)
   }"

definition sys_stop_request :: "'o \<Rightarrow> 'o channel_system \<Rightarrow> 'o channel_system option" where
  "sys_stop_request ob s = do {
     all_alive s [ob];
     let s1 = upd_sub sub_on_stop_requested ob s;
     Some (if n_ops (cs_sub s ob) = 1 then s1\<lparr>cs_requests := add_mset (Unsubscribe_Req ob) (cs_requests s1)\<rparr> else s1)
   }"

definition sys_subscribe :: "'o \<Rightarrow> 'o channel_system \<Rightarrow> 'o channel_system option" where
  "sys_subscribe ob s = do {
     all_alive s (touched_push ob (lst (cs_ctx s)));
     c \<leftarrow> ch_subscribe ob (cs_ctx s);
     Some (s\<lparr>cs_ctx := c\<rparr>)
   }"

text \<open>The observer's receiver is the wrapped one; then the operation of the lock completes.\<close>

definition sys_unsubscribe :: "'o \<Rightarrow> 'o channel_system \<Rightarrow> 'o channel_system option" where
  "sys_unsubscribe ob s = do {
     all_alive s (touched_erase ob (lst (cs_ctx s)));
     (c, _) \<leftarrow> ch_unsubscribe ob (cs_ctx s);
     let s1 = upd_sub sub_wrap_set_value ob (s\<lparr>cs_ctx := c\<rparr>);
     all_alive s1 [ob];
     Some (upd_sub sub_stop_receiver_set_value ob s1)
   }"

definition sys_notify :: "'o channel_system \<Rightarrow> 'o channel_system option" where
  "sys_notify s = do {
     obs \<leftarrow> ch_notify_all (cs_ctx s);
     all_alive s obs;
     Some (s\<lparr>cs_items := cs_items s + mset obs\<rparr>)
   }"

partial_function (option) sys_close :: "'o channel_system \<Rightarrow> 'o channel_system option" where
  "sys_close s =
     (if il_empty (observers (cs_ctx s)) then Some s
      else do {
        all_alive s (touched_pop (lst (cs_ctx s)));
        (ob, l) \<leftarrow> il_pop_front (lst (cs_ctx s));
        sys_close (upd_sub sub_wrap_set_value ob (s\<lparr>cs_ctx := with_lst l (cs_ctx s)\<rparr>))
      })"

definition sys_item_end :: "'o \<Rightarrow> bool \<Rightarrow> 'o channel_system \<Rightarrow> 'o channel_system option" where
  "sys_item_end ob stopped s =
     (let s1 = s\<lparr>cs_items := cs_items s - {#ob#}\<rparr>
      in if stopped then do {
           all_alive s1 (touched_erase ob (lst (cs_ctx s1)));
           (c, _) \<leftarrow> ch_item_stopped ob (cs_ctx s1);
           Some (upd_sub sub_wrap_set_value ob (s1\<lparr>cs_ctx := c\<rparr>))
         } else Some s1)"

fun run_request :: "'o request \<Rightarrow> 'o channel_system \<Rightarrow> 'o channel_system option" where
  "run_request (Subscribe_Req ob) s = sys_subscribe ob s"
| "run_request (Unsubscribe_Req ob) s = sys_unsubscribe ob s"
| "run_request Notify_Req s = sys_notify s"
| "run_request Close_Req s = sys_close s"

fun sys_exec :: "'o event \<Rightarrow> 'o channel_system \<Rightarrow> 'o channel_system option" where
  "sys_exec (Emplace ob stop_requested) s = sys_emplace ob stop_requested s"
| "sys_exec (Cas ob) s = sys_cas ob s"
| "sys_exec (Stop_Request ob) s = sys_stop_request ob s"
| "sys_exec (Ask r) s = Some (s\<lparr>cs_requests := add_mset r (cs_requests s)\<rparr>)"
| "sys_exec (Run r) s = run_request r (s\<lparr>cs_requests := cs_requests s - {#r#}\<rparr>)"
| "sys_exec (Item_End ob stopped) s = sys_item_end ob stopped s"

fun sys_run :: "'o event list \<Rightarrow> 'o channel_system \<Rightarrow> 'o channel_system option" where
  "sys_run [] s = Some s"
| "sys_run (e # es) s = do { s1 \<leftarrow> sys_exec e s; sys_run es s1 }"

subsection \<open>Which events can happen\<close>

text \<open>
  A handle asks for notifications and the end of the channel; an operation subscribes through its start. A stop
  callback is called once, while it is installed.
\<close>

fun enabled :: "'o event \<Rightarrow> 'o channel_system \<Rightarrow> bool" where
  "enabled (Emplace ob stop_requested) s \<longleftrightarrow> cs_phase s ob = Fresh"
| "enabled (Cas ob) s \<longleftrightarrow> cs_phase s ob = Emplaced"
| "enabled (Stop_Request ob) s \<longleftrightarrow> has_callback (cs_sub s ob) \<and> sub_stop_op (cs_sub s ob) = Stop_Idle"
| "enabled (Ask r) s \<longleftrightarrow> r = Notify_Req \<or> r = Close_Req"
| "enabled (Run r) s \<longleftrightarrow> r \<in># cs_requests s"
| "enabled (Item_End ob stopped) s \<longleftrightarrow> ob \<in># cs_items s"

text \<open>
  The schedules in which no stop request meets another step of its own subscription or of the end of the channel: stop
  is requested after the start has decided; an unsubscribe runs after its subscribe and when no item of the
  observer is spawned; the channel is closed when no item is spawned and no observer in the list waits to leave; an
  item ends as stopped when it is the only one of its observer and no stop was requested.
\<close>

fun calm_request :: "'o request \<Rightarrow> 'o channel_system \<Rightarrow> bool" where
  "calm_request (Subscribe_Req ob) s \<longleftrightarrow> True"
| "calm_request (Unsubscribe_Req ob) s \<longleftrightarrow> Subscribe_Req ob \<notin># cs_requests s \<and> ob \<notin># cs_items s"
| "calm_request Notify_Req s \<longleftrightarrow> True"
| "calm_request Close_Req s \<longleftrightarrow> cs_items s = {#} \<and>
     (\<forall>r\<in>#cs_requests s. case r of Unsubscribe_Req ob \<Rightarrow> Subscribe_Req ob \<in># cs_requests s | _ \<Rightarrow> True)"

fun calm :: "'o event \<Rightarrow> 'o channel_system \<Rightarrow> bool" where
  "calm (Emplace ob stop_requested) s \<longleftrightarrow> \<not> stop_requested"
| "calm (Cas ob) s \<longleftrightarrow> True"
| "calm (Stop_Request ob) s \<longleftrightarrow> cs_phase s ob = Started"
| "calm (Ask r) s \<longleftrightarrow> True"
| "calm (Run r) s \<longleftrightarrow> calm_request r s"
| "calm (Item_End ob stopped) s \<longleftrightarrow> (stopped \<longrightarrow> n_ops (cs_sub s ob) = 1 \<and> count (cs_items s) ob = 1)"

text \<open>The events of a run that can happen, up to the first step that is undefined.\<close>

fun schedule_ok :: "('o event \<Rightarrow> 'o channel_system \<Rightarrow> bool) \<Rightarrow> 'o event list \<Rightarrow> 'o channel_system \<Rightarrow> bool" where
  "schedule_ok P [] s \<longleftrightarrow> True"
| "schedule_ok P (e # es) s \<longleftrightarrow> enabled e s \<and> P e s \<and>
     (case sys_exec e s of None \<Rightarrow> True | Some s1 \<Rightarrow> schedule_ok P es s1)"

subsection \<open>The invariant\<close>

text \<open>
  What holds of one subscription: its counter, its phase, how often its subscribe and its unsubscribe wait for the
  mutex, whether its observer is in the list, and how many of its items are spawned.
\<close>

definition ob_ok :: "subscription \<Rightarrow> start_phase \<Rightarrow> nat \<Rightarrow> nat \<Rightarrow> bool \<Rightarrow> nat \<Rightarrow> bool" where
  "ob_ok u ph subs unsubs listed items \<longleftrightarrow>
     (case ph of
        Fresh \<Rightarrow> u = sub_init \<and> subs = 0 \<and> unsubs = 0 \<and> \<not> listed \<and> items = 0
      | Emplaced \<Rightarrow> n_ops u = 0 \<and> has_callback u \<and> sub_stop_op u = Stop_Idle \<and> n_completed u = 0 \<and>
          subs = 0 \<and> unsubs = 0 \<and> \<not> listed \<and> items = 0
      | Started \<Rightarrow>
          n_ops u = 1 \<and> has_callback u \<and> sub_stop_op u = Stop_Idle \<and> n_completed u = 0 \<and> unsubs = 0 \<and>
            (subs = 1 \<and> \<not> listed \<and> items = 0 \<or> subs = 0 \<and> listed) \<or>
          n_ops u = 2 \<and> sub_stop_op u = Stop_Started \<and> n_completed u = 0 \<and> unsubs = 1 \<and>
            (subs = 1 \<and> \<not> listed \<and> items = 0 \<or> subs = 0 \<and> listed) \<or>
          n_ops u = 3 \<and> sub_stop_op u \<noteq> Stop_Started \<and> n_completed u = 1 \<and> \<not> has_callback u \<and>
            subs = 0 \<and> unsubs = 0 \<and> \<not> listed \<and> items = 0)"

definition sys_inv :: "'o list \<Rightarrow> 'o channel_system \<Rightarrow> bool" where
  "sys_inv obs s \<longleftrightarrow> list_repr (lst (cs_ctx s)) obs \<and>
     (\<forall>ob. ob_ok (cs_sub s ob) (cs_phase s ob) (count (cs_requests s) (Subscribe_Req ob))
        (count (cs_requests s) (Unsubscribe_Req ob)) (ob \<in> set obs) (count (cs_items s) ob))"

lemma sys_inv_ob:
  "sys_inv obs s \<Longrightarrow> ob_ok (cs_sub s ob) (cs_phase s ob) (count (cs_requests s) (Subscribe_Req ob))
     (count (cs_requests s) (Unsubscribe_Req ob)) (ob \<in> set obs) (count (cs_items s) ob)"
  by (simp add: sys_inv_def)

text \<open>It is enough to look at the observer that a step is about.\<close>

lemma sys_inv_step:
  assumes "sys_inv obs s" "list_repr (lst (cs_ctx s')) obs'"
    "\<And>x. x \<noteq> ob \<Longrightarrow> cs_sub s' x = cs_sub s x \<and> cs_phase s' x = cs_phase s x \<and>
       count (cs_requests s') (Subscribe_Req x) = count (cs_requests s) (Subscribe_Req x) \<and>
       count (cs_requests s') (Unsubscribe_Req x) = count (cs_requests s) (Unsubscribe_Req x) \<and>
       (x \<in> set obs' \<longleftrightarrow> x \<in> set obs) \<and> count (cs_items s') x = count (cs_items s) x"
    "ob_ok (cs_sub s' ob) (cs_phase s' ob) (count (cs_requests s') (Subscribe_Req ob))
       (count (cs_requests s') (Unsubscribe_Req ob)) (ob \<in> set obs') (count (cs_items s') ob)"
  shows "sys_inv obs' s'"
  unfolding sys_inv_def
proof (intro conjI allI)
  fix x
  show "ob_ok (cs_sub s' x) (cs_phase s' x) (count (cs_requests s') (Subscribe_Req x))
      (count (cs_requests s') (Unsubscribe_Req x)) (x \<in> set obs') (count (cs_items s') x)"
    using assms(3) [of x] assms(4) sys_inv_ob [OF assms(1), of x] by (cases "x = ob") simp_all
qed (rule assms(2))

lemma upd_sub_simps [simp]:
  "cs_sub (upd_sub f ob s) = (cs_sub s)(ob := f (cs_sub s ob))" "cs_ctx (upd_sub f ob s) = cs_ctx s"
  "cs_phase (upd_sub f ob s) = cs_phase s" "cs_requests (upd_sub f ob s) = cs_requests s"
  "cs_items (upd_sub f ob s) = cs_items s"
  by (simp_all add: upd_sub_def)

lemma all_alive_Some: "list_all (operation_alive s) obs \<Longrightarrow> all_alive s obs = Some ()"
  by (simp add: all_alive_def)

lemma listed_alive: "sys_inv obs s \<Longrightarrow> ob \<in> set obs \<Longrightarrow> operation_alive s ob"
  using sys_inv_ob [of obs s ob] by (auto simp: ob_ok_def operation_alive_def split: start_phase.splits)

lemma touched_push_repr: "list_repr s obs \<Longrightarrow> set (touched_push ob s) \<subseteq> insert ob (set obs)"
  by (auto simp: touched_push_def ptr_list_def list_repr_defs last_ptr_def split: option.splits if_splits)

lemma touched_pop_repr: "list_repr s obs \<Longrightarrow> set (touched_pop s) \<subseteq> set obs"
  by (cases obs; cases "tl obs")
    (auto simp: touched_pop_def ptr_list_def list_repr_defs split: option.splits)

lemma touched_erase_repr:
  assumes "list_repr s obs" "ob \<in> set obs"
  shows "set (touched_erase ob s) \<subseteq> set obs"
proof -
  obtain pre post where "obs = pre @ ob # post" using assms(2) by (meson split_list)
  with assms(1) show ?thesis
    by (cases pre rule: rev_cases; cases post)
      (auto simp: touched_erase_def ptr_list_def list_repr_defs ptr_simps)
qed

lemma alive_in_list:
  assumes "sys_inv obs s" "set xs \<subseteq> set obs"
  shows "all_alive s xs = Some ()"
  using assms(2) listed_alive [OF assms(1)] by (intro all_alive_Some) (auto simp: list_all_iff)

subsection \<open>Calm steps keep the invariant\<close>

lemma emplace_inv:
  assumes "sys_inv obs s" "cs_phase s ob = Fresh"
  shows "\<exists>s'. sys_emplace ob False s = Some s' \<and> sys_inv obs s'"
proof -
  let ?s = "(upd_sub (sub_emplace_callback False) ob s)\<lparr>cs_phase := (cs_phase s)(ob := Emplaced)\<rparr>"
  have "sys_inv obs ?s"
    using assms sys_inv_ob [OF assms(1), of ob]
    by (intro sys_inv_step [OF assms(1), of ?s obs ob])
      (auto simp: sys_inv_def ob_ok_def sub_emplace_callback_def sub_init_def)
  then show ?thesis by (simp add: sys_emplace_def)
qed

lemma cas_inv:
  assumes "sys_inv obs s" "cs_phase s ob = Emplaced"
  shows "\<exists>s'. sys_cas ob s = Some s' \<and> sys_inv obs s'"
proof -
  note ob = sys_inv_ob [OF assms(1), of ob]
  then have n: "n_ops (cs_sub s ob) = 0" "all_alive s [ob] = Some ()"
    using assms(2) by (simp_all add: ob_ok_def all_alive_def operation_alive_def)
  let ?s = "(upd_sub sub_start_cas ob s)\<lparr>cs_phase := (cs_phase s)(ob := Started),
     cs_requests := add_mset (Subscribe_Req ob) (cs_requests s)\<rparr>"
  have "sys_inv obs ?s"
    using assms ob n
    by (intro sys_inv_step [OF assms(1), of ?s obs ob]) (auto simp: sys_inv_def ob_ok_def sub_start_cas_def)
  with n show ?thesis by (simp add: sys_cas_def)
qed

lemma stop_request_inv:
  assumes "sys_inv obs s" "cs_phase s ob = Started" "has_callback (cs_sub s ob)" "sub_stop_op (cs_sub s ob) = Stop_Idle"
  shows "\<exists>s'. sys_stop_request ob s = Some s' \<and> sys_inv obs s'"
proof -
  note ob = sys_inv_ob [OF assms(1), of ob]
  then have n: "n_ops (cs_sub s ob) = 1" "all_alive s [ob] = Some ()"
    using assms(2-4) by (auto simp: ob_ok_def all_alive_def operation_alive_def)
  let ?s = "(upd_sub sub_on_stop_requested ob s)\<lparr>cs_requests := add_mset (Unsubscribe_Req ob) (cs_requests s)\<rparr>"
  have "sys_inv obs ?s"
    using assms ob n
    by (intro sys_inv_step [OF assms(1), of ?s obs ob])
      (auto simp: sys_inv_def ob_ok_def sub_on_stop_requested_def)
  with n show ?thesis by (simp add: sys_stop_request_def)
qed

lemma ask_inv:
  assumes "sys_inv obs s" "r = Notify_Req \<or> r = Close_Req"
  shows "sys_inv obs (s\<lparr>cs_requests := add_mset r (cs_requests s)\<rparr>)"
  using assms by (auto simp: sys_inv_def)

text \<open>What waits in the mutex, and what running it does to its subscription.\<close>

lemma ob_ok_subs:
  assumes "ob_ok u ph subs unsubs listed items" "0 < subs"
  shows "\<not> listed" "n_completed u = 0" "ob_ok u ph (subs - 1) unsubs True items"
  using assms by (auto simp: ob_ok_def split: start_phase.splits)

lemma ob_ok_unsubs:
  assumes "ob_ok u ph 0 unsubs listed 0" "0 < unsubs"
  shows "listed" "n_completed (sub_wrap_set_value u) = 0"
    "ob_ok (sub_stop_receiver_set_value (sub_wrap_set_value u)) ph 0 (unsubs - 1) False 0"
  using assms
  by (auto simp: ob_ok_def sub_wrap_set_value_def sub_stop_receiver_set_value_def complete_receiver_def
      split: start_phase.splits)

lemma ob_ok_ended:
  assumes "ob_ok u ph subs 0 True items"
  shows "n_ops u = 1" "ob_ok (sub_wrap_set_value u) ph subs 0 False 0"
  using assms by (auto simp: ob_ok_def sub_wrap_set_value_def complete_receiver_def split: start_phase.splits)

lemma ob_ok_items:
  assumes "ob_ok u ph subs unsubs listed items" "0 < items"
  shows "listed" "ob_ok u ph subs unsubs listed (items - 1)"
  using assms by (auto simp: ob_ok_def split: start_phase.splits)

lemma subscribe_inv:
  assumes "sys_inv obs s" "Subscribe_Req ob \<in># cs_requests s"
  shows "\<exists>s' obs'. run_request (Subscribe_Req ob) (s\<lparr>cs_requests := cs_requests s - {#Subscribe_Req ob#}\<rparr>) = Some s' \<and>
    sys_inv obs' s'"
proof -
  let ?s = "s\<lparr>cs_requests := cs_requests s - {#Subscribe_Req ob#}\<rparr>"
  from assms(2) have "0 < count (cs_requests s) (Subscribe_Req ob)" by simp
  note ob = ob_ok_subs [OF sys_inv_ob [OF assms(1), of ob] this]
  have repr: "list_repr (lst (cs_ctx s)) obs" using assms(1) by (simp add: sys_inv_def)
  obtain c where c: "ch_subscribe ob (cs_ctx s) = Some c" "list_repr (lst c) (obs @ [ob])"
    using ch_subscribe_repr [OF repr ob(1)] by blast
  have alive: "all_alive ?s (touched_push ob (lst (cs_ctx s))) = Some ()"
    using touched_push_repr [OF repr, of ob] ob(2) listed_alive [OF assms(1)]
    by (auto simp: all_alive_def list_all_iff operation_alive_def)
  have "sys_inv (obs @ [ob]) (?s\<lparr>cs_ctx := c\<rparr>)"
    using ob c(2) by (intro sys_inv_step [OF assms(1), of "?s\<lparr>cs_ctx := c\<rparr>" "obs @ [ob]" ob]) simp_all
  with alive c(1) show ?thesis by (auto simp: sys_subscribe_def)
qed

lemma unsubscribe_inv:
  assumes "sys_inv obs s" "Unsubscribe_Req ob \<in># cs_requests s" "Subscribe_Req ob \<notin># cs_requests s" "ob \<notin># cs_items s"
  shows "\<exists>s' obs'. run_request (Unsubscribe_Req ob) (s\<lparr>cs_requests := cs_requests s - {#Unsubscribe_Req ob#}\<rparr>) = Some s' \<and>
    sys_inv obs' s'"
proof -
  let ?s = "s\<lparr>cs_requests := cs_requests s - {#Unsubscribe_Req ob#}\<rparr>"
  from assms(2-4) have k: "0 < count (cs_requests s) (Unsubscribe_Req ob)" "count (cs_requests s) (Subscribe_Req ob) = 0"
    "count (cs_items s) ob = 0" by (simp_all add: not_in_iff)
  note ob = ob_ok_unsubs [OF sys_inv_ob [OF assms(1), of ob, unfolded k(2,3)] k(1)]
  have repr: "list_repr (lst (cs_ctx s)) obs" using assms(1) by (simp add: sys_inv_def)
  obtain c where c: "ch_unsubscribe ob (cs_ctx s) = Some (c, [ob])" "list_repr (lst c) (remove1 ob obs)"
    using ch_unsubscribe_repr [OF repr ob(1)] by blast
  have alive: "all_alive ?s (touched_erase ob (lst (cs_ctx s))) = Some ()"
    using alive_in_list [OF assms(1) touched_erase_repr [OF repr ob(1)]]
    by (simp add: all_alive_def operation_alive_def list_all_iff)
  let ?t = "upd_sub sub_wrap_set_value ob (?s\<lparr>cs_ctx := c\<rparr>)"
  have "all_alive ?t [ob] = Some ()" using ob(2) by (simp add: all_alive_def operation_alive_def)
  moreover have "sys_inv (remove1 ob obs) (upd_sub sub_stop_receiver_set_value ob ?t)"
    using ob(3) c(2) k list_repr_distinct [OF repr]
    by (intro sys_inv_step [OF assms(1), of _ "remove1 ob obs" ob]) simp_all
  ultimately show ?thesis using alive c(1) by (auto simp: sys_unsubscribe_def)
qed

lemma notify_inv:
  assumes "sys_inv obs s"
  shows "\<exists>s'. run_request Notify_Req (s\<lparr>cs_requests := cs_requests s - {#Notify_Req#}\<rparr>) = Some s' \<and> sys_inv obs s'"
proof -
  let ?s = "s\<lparr>cs_requests := cs_requests s - {#Notify_Req#}\<rparr>"
  have repr: "list_repr (lst (cs_ctx s)) obs" using assms by (simp add: sys_inv_def)
  have alive: "all_alive ?s obs = Some ()"
    using alive_in_list [OF assms subset_refl] by (simp add: all_alive_def operation_alive_def list_all_iff)
  have "ob_ok u ph subs unsubs listed (items + (if listed then k else 0))" if "ob_ok u ph subs unsubs listed items"
    for u ph subs unsubs listed items k
    using that by (auto simp: ob_ok_def split: start_phase.splits)
  moreover have "count (mset obs) x = (if x \<in> set obs then 1 else 0)" for x
    using list_repr_distinct [OF repr] by (simp add: distinct_count_atmost_1)
  ultimately have "sys_inv obs (?s\<lparr>cs_items := cs_items s + mset obs\<rparr>)"
    using assms by (simp add: sys_inv_def)
  with alive list_repr_elements [OF repr] show ?thesis by (simp add: sys_notify_def ch_notify_all_def)
qed

lemma sys_close_repr:
  assumes "sys_inv obs s" "cs_items s = {#}" "\<forall>ob\<in>set obs. Unsubscribe_Req ob \<notin># cs_requests s"
  shows "\<exists>s'. sys_close s = Some s' \<and> sys_inv [] s'"
  using assms
proof (induction obs arbitrary: s)
  case Nil
  then have "il_empty (observers (cs_ctx s))"
    using il_empty_repr [of "lst (cs_ctx s)" "[]"] by (simp add: sys_inv_def lst_def)
  with Nil show ?case by (subst sys_close.simps) auto
next
  case (Cons ob obs)
  have repr: "list_repr (lst (cs_ctx s)) (ob # obs)" using Cons.prems(1) by (simp add: sys_inv_def)
  then have "\<not> il_empty (observers (cs_ctx s))" using il_empty_repr [OF repr] by (simp add: lst_def)
  moreover obtain l where l: "il_pop_front (lst (cs_ctx s)) = Some (ob, l)" "list_repr l obs"
    using il_pop_front_repr [OF repr] by blast
  moreover have "all_alive s (touched_pop (lst (cs_ctx s))) = Some ()"
    by (rule alive_in_list [OF Cons.prems(1) touched_pop_repr [OF repr]])
  moreover
  let ?s = "upd_sub sub_wrap_set_value ob (s\<lparr>cs_ctx := with_lst l (cs_ctx s)\<rparr>)"
  have "count (cs_requests s) (Unsubscribe_Req ob) = 0" using Cons.prems(3) by (simp add: not_in_iff)
  with sys_inv_ob [OF Cons.prems(1), of ob]
  have "ob_ok (cs_sub s ob) (cs_phase s ob) (count (cs_requests s) (Subscribe_Req ob)) 0 True 0"
    by (simp add: Cons.prems(2))
  note ob = ob_ok_ended(2) [OF this]
  have "sys_inv obs ?s"
    using ob l(2) list_repr_distinct [OF repr] Cons.prems(2) \<open>count _ (Unsubscribe_Req ob) = 0\<close>
    by (intro sys_inv_step [OF Cons.prems(1), of ?s obs ob]) auto
  then obtain s' where "sys_close ?s = Some s'" "sys_inv [] s'"
    using Cons.IH [of ?s] Cons.prems(2,3) by auto
  ultimately show ?case by (subst sys_close.simps) auto
qed

lemma close_inv:
  assumes "sys_inv obs s" "calm_request Close_Req s"
  shows "\<exists>s'. run_request Close_Req (s\<lparr>cs_requests := cs_requests s - {#Close_Req#}\<rparr>) = Some s' \<and> sys_inv [] s'"
proof -
  have "Unsubscribe_Req ob \<notin># cs_requests s" if "ob \<in> set obs" for ob
  proof
    assume "Unsubscribe_Req ob \<in># cs_requests s"
    with assms(2) have "Subscribe_Req ob \<in># cs_requests s" by force
    then have "0 < count (cs_requests s) (Subscribe_Req ob)" by simp
    from ob_ok_subs(1) [OF sys_inv_ob [OF assms(1), of ob] this] that show False by simp
  qed
  then have "\<forall>ob\<in>set obs. Unsubscribe_Req ob \<notin># cs_requests s - {#Close_Req#}"
    by (auto dest: in_diffD)
  with assms show ?thesis
    using sys_close_repr [of obs "s\<lparr>cs_requests := cs_requests s - {#Close_Req#}\<rparr>"]
    by (simp add: sys_inv_def)
qed

lemma item_end_inv:
  assumes "sys_inv obs s" "ob \<in># cs_items s" "stopped \<longrightarrow> n_ops (cs_sub s ob) = 1 \<and> count (cs_items s) ob = 1"
  shows "\<exists>s' obs'. sys_item_end ob stopped s = Some s' \<and> sys_inv obs' s'"
proof -
  let ?s = "s\<lparr>cs_items := cs_items s - {#ob#}\<rparr>"
  note ok = sys_inv_ob [OF assms(1), of ob]
  from assms(2) have k: "0 < count (cs_items s) ob" by simp
  note listed = ob_ok_items(1) [OF ok k] and one_less = ob_ok_items(2) [OF ok k]
  show ?thesis
  proof (cases stopped)
    case False
    have "sys_inv obs ?s"
      using one_less assms(1)
      by (intro sys_inv_step [OF assms(1), of ?s obs ob]) (simp_all add: sys_inv_def)
    with False show ?thesis by (auto simp: sys_item_end_def)
  next
    case True
    with assms(3) have c1: "n_ops (cs_sub s ob) = 1" "count (cs_items s) ob = 1" by simp_all
    have unsubs: "count (cs_requests s) (Unsubscribe_Req ob) = 0"
      using ok c1(1) by (auto simp: ob_ok_def sub_init_def split: start_phase.splits)
    have repr: "list_repr (lst (cs_ctx s)) obs" using assms(1) by (simp add: sys_inv_def)
    obtain pre post where obs: "obs = pre @ ob # post" using listed by (meson split_list)
    obtain c where c: "ch_item_stopped ob (cs_ctx s) = Some (c, [ob])" "list_repr (lst c) (pre @ post)"
      using ch_item_stopped_split [OF repr [unfolded obs]] by blast
    have alive: "all_alive ?s (touched_erase ob (lst (cs_ctx s))) = Some ()"
      using alive_in_list [OF assms(1) touched_erase_repr [OF repr listed]]
      by (simp add: all_alive_def operation_alive_def list_all_iff)
    have "sys_inv (pre @ post) (upd_sub sub_wrap_set_value ob (?s\<lparr>cs_ctx := c\<rparr>))"
      using ob_ok_ended(2) [OF ok [unfolded unsubs, simplified listed simp_thms]] c(2) c1 unsubs list_repr_distinct [OF repr]
      by (intro sys_inv_step [OF assms(1), of _ "pre @ post" ob]) (auto simp: obs)
    with True alive c(1) show ?thesis by (auto simp: sys_item_end_def)
  qed
qed

lemma sys_exec_inv:
  assumes "sys_inv obs s" "enabled e s" "calm e s"
  shows "\<exists>s' obs'. sys_exec e s = Some s' \<and> sys_inv obs' s'"
proof (cases e)
  case (Run r)
  with assms subscribe_inv [OF assms(1)] unsubscribe_inv [OF assms(1)] notify_inv [OF assms(1)]
    close_inv [OF assms(1)] show ?thesis
    by (cases r) (simp_all del: run_request.simps, metis+)
qed (use assms emplace_inv cas_inv stop_request_inv ask_inv item_end_inv in \<open>fastforce+\<close>)

lemma sys_run_inv:
  assumes "sys_inv obs s" "schedule_ok calm es s"
  shows "\<exists>s' obs'. sys_run es s = Some s' \<and> sys_inv obs' s'"
  using assms
proof (induction es arbitrary: s obs)
  case (Cons e es)
  then obtain s1 obs1 where "sys_exec e s = Some s1" "sys_inv obs1 s1"
    using sys_exec_inv [of obs s e] by auto
  with Cons.IH [of obs1 s1] Cons.prems(2) show ?case by simp
qed auto

lemma sys_open_inv: "sys_inv [] sys_open"
  using ch_open_repr by (simp add: sys_inv_def sys_open_def ob_ok_def)

subsection \<open>Properties\<close>

lemma sys_inv_facts:
  assumes "sys_inv obs s"
  shows "ch_notify_all (cs_ctx s) = Some obs" "distinct obs"
    "n_completed (cs_sub s ob) \<le> 1" "n_completed (cs_sub s ob) = 1 \<longleftrightarrow> n_ops (cs_sub s ob) = 3"
    "ob \<in> set obs \<longleftrightarrow> n_ops (cs_sub s ob) \<in> {1, 2} \<and> Subscribe_Req ob \<notin># cs_requests s"
    "cs_phase s ob = Started \<Longrightarrow>
       n_completed (cs_sub s ob) = 1 \<or> ob \<in> set obs \<or> Subscribe_Req ob \<in># cs_requests s"
proof -
  have repr: "list_repr (lst (cs_ctx s)) obs" using assms by (simp add: sys_inv_def)
  show "ch_notify_all (cs_ctx s) = Some obs" using list_repr_elements [OF repr] by (simp add: ch_notify_all_def)
  show "distinct obs" by (rule list_repr_distinct [OF repr])
  note ob = sys_inv_ob [OF assms, of ob, unfolded ob_ok_def]
  show "n_completed (cs_sub s ob) \<le> 1" "n_completed (cs_sub s ob) = 1 \<longleftrightarrow> n_ops (cs_sub s ob) = 3"
    "ob \<in> set obs \<longleftrightarrow> n_ops (cs_sub s ob) \<in> {1, 2} \<and> Subscribe_Req ob \<notin># cs_requests s"
    using ob by (auto simp: sub_init_def not_in_iff split: start_phase.splits)
  show "n_completed (cs_sub s ob) = 1 \<or> ob \<in> set obs \<or> Subscribe_Req ob \<in># cs_requests s"
    if "cs_phase s ob = Started"
    using ob that by (auto simp: not_in_iff)
qed


text \<open>Two observers subscribe and get an item; the first stops it, the second asks to stop and leaves.\<close>

definition calm_events :: "nat event list" where
  "calm_events = [Emplace 0 False, Emplace 1 False, Cas 1, Cas 0, Run (Subscribe_Req 0), Run (Subscribe_Req 1),
     Ask Notify_Req, Run Notify_Req, Item_End 0 True, Stop_Request 1, Item_End 1 False,
     Run (Unsubscribe_Req 1), Ask Close_Req, Run Close_Req]"

lemmas sys_defs = sys_open_def ch_open_def il_init_def sys_emplace_def sys_cas_def sys_stop_request_def
  sys_subscribe_def sys_unsubscribe_def sys_notify_def sys_item_end_def all_alive_def operation_alive_def upd_sub_def
  ptr_list_def touched_push_def touched_erase_def touched_pop_def ch_subscribe_def ch_unsubscribe_def
  ch_item_stopped_def ch_notify_all_def lst_def with_lst_def il_push_back_def il_erase_def il_pop_front_def il_empty_def
  il_elements_def it_begin_def it_end_def it_incr_def sub_init_def sub_emplace_callback_def sub_on_stop_requested_def
  sub_start_cas_def sub_wrap_set_value_def sub_stop_receiver_set_value_def complete_receiver_def

lemma calm_events_ok: "schedule_ok calm calm_events sys_open"
  by (simp add: calm_events_def sys_defs sys_close.simps elements_from.simps)


text \<open>Remark (channel_close). A close that a calm schedule ends with leaves no observer, and has completed every subscription that was
  started, apart from those whose subscribe still waits for the mutex.\<close>

theorem channel_close_completes:
  assumes "schedule_ok calm es sys_open" "sys_run es sys_open = Some s" "Close_Req \<in># cs_requests s" "calm_request Close_Req s"
  shows "\<exists>s'. sys_exec (Run Close_Req) s = Some s' \<and> ch_notify_all (cs_ctx s') = Some [] \<and>
    (\<forall>ob. cs_phase s' ob = Started \<longrightarrow> n_completed (cs_sub s' ob) = 1 \<or> Subscribe_Req ob \<in># cs_requests s')"
proof -
  obtain obs where "sys_inv obs s" using sys_run_inv [OF sys_open_inv assms(1)] assms(2) by auto
  from close_inv [OF this assms(4)] obtain s' where "sys_exec (Run Close_Req) s = Some s'" "sys_inv [] s'" by auto
  with sys_inv_facts [of "[]" s'] show ?thesis by auto
qed

definition before_close :: "nat event list" where
  "before_close = [Emplace 0 False, Cas 0, Run (Subscribe_Req 0), Ask Close_Req]"

theorem channel_close_completes_witness:
  "\<exists>s s'. sys_run before_close sys_open = Some s \<and> sys_exec (Run Close_Req) s = Some s' \<and>
     ch_notify_all (cs_ctx s') = Some []"
proof -
  have "schedule_ok calm before_close sys_open" "\<exists>s. sys_run before_close sys_open = Some s \<and>
      Close_Req \<in># cs_requests s \<and> calm_request Close_Req s"
    by (simp_all add: before_close_def sys_defs)
  with channel_close_completes show ?thesis by blast
qed

subsection \<open>What goes wrong in the others\<close>

text \<open>One schedule for each condition of \<open>calm\<close>, all of events that can happen.\<close>

definition subscribed :: "'o \<Rightarrow> 'o event list" where
  "subscribed ob = [Emplace ob False, Cas ob, Run (Subscribe_Req ob)]"

definition stopped_before_start :: "nat event list" where
  "stopped_before_start = [Emplace 0 True, Cas 0]"

definition stopped_during_start :: "nat event list" where
  "stopped_during_start = [Emplace 0 False, Stop_Request 0, Cas 0]"

definition unsubscribe_first :: "nat event list" where
  "unsubscribe_first = [Emplace 0 False, Cas 0, Stop_Request 0, Run (Unsubscribe_Req 0), Run (Subscribe_Req 0)]"

definition close_before_unsubscribe :: "nat event list" where
  "close_before_unsubscribe = subscribed 0 @ subscribed 1 @
     [Stop_Request 0, Ask Close_Req, Run Close_Req, Run (Unsubscribe_Req 0)]"

definition close_with_item :: "nat event list" where
  "close_with_item = subscribed 0 @ [Ask Notify_Req, Run Notify_Req, Ask Close_Req, Run Close_Req, Item_End 0 True]"

definition unsubscribe_with_item :: "nat event list" where
  "unsubscribe_with_item = subscribed 0 @
     [Ask Notify_Req, Run Notify_Req, Stop_Request 0, Run (Unsubscribe_Req 0), Item_End 0 True]"

definition stopped_twice :: "nat event list" where
  "stopped_twice = subscribed 0 @
     [Ask Notify_Req, Run Notify_Req, Ask Notify_Req, Run Notify_Req, Item_End 0 True, Item_End 0 True]"

definition item_before_unsubscribe :: "nat event list" where
  "item_before_unsubscribe = subscribed 0 @ subscribed 1 @
     [Ask Notify_Req, Run Notify_Req, Stop_Request 0, Item_End 0 True, Item_End 1 True, Run (Unsubscribe_Req 0)]"


end
