(* ===== verification/Async_Resource.thy ===== *)
theory Async_Resource
  imports Sequence_Core
begin

text \<open>
  \<^verbatim>\<open>async_resource.hpp\<close>: a resource is opened, its token is given to the receiver as the one item of a
  sequence, and it is closed when the next sender of the receiver has completed, however it did
  (\<^verbatim>\<open>exec::finally\<close>, which is the library's: \<open>fin\<close> is the completion it makes of those of the two senders).
\<close>

subsection \<open>The sequence of a resource\<close>

text \<open>The state is whether the token is stored and whether the sender that closes it was started.\<close>

record 't resource_op =
  ro_token :: "'t option"
  ro_close_started :: bool

definition resource_init :: "'t resource_op" where
  "resource_init = \<lparr>ro_token = None, ro_close_started = False\<rparr>"

definition use_start :: "'t resource_op \<Rightarrow> ('t, 'e) signal option" where
  "use_start s = map_option Set_Value (ro_token s)"

definition final_receiver_complete :: "stop_token \<Rightarrow> (unit, 'e) signal \<Rightarrow> (unit, 'e) signal" where
  "final_receiver_complete token sig =
     (case sig of
        Set_Value _ \<Rightarrow> Set_Value ()
      | Set_Error e \<Rightarrow> Set_Error e
      | Set_Stopped \<Rightarrow> set_value_unless_stopped token)"

text \<open>
  What the open receiver does: \<open>throws\<close> says that connecting throws, \<open>next_sig\<close> how the next
  sender completes, a function of what the item gives it, and \<open>close_sig\<close> how the close sender completes.
\<close>

definition open_receiver_complete ::
  "((unit, 'e) signal \<Rightarrow> (unit, 'e) signal \<Rightarrow> (unit, 'e) signal) \<Rightarrow> stop_token \<Rightarrow> 'e option \<Rightarrow> (('t, 'e) signal \<Rightarrow> (unit, 'e) signal) \<Rightarrow> (unit, 'e) signal \<Rightarrow>
     ('t, 'e) signal \<Rightarrow> 't resource_op \<Rightarrow> ('t resource_op \<times> (unit, 'e) signal) option" where
  "open_receiver_complete fin token throws next_sig close_sig sig s =
     (case sig of
        Set_Value t \<Rightarrow>
          (let s1 = s\<lparr>ro_token := Some t\<rparr>
           in case throws of
                Some e \<Rightarrow> Some (s1, Set_Error e)
              | None \<Rightarrow> do {
                  item \<leftarrow> use_start s1;
                  let used = next_sig item;
                  let s2 = s1\<lparr>ro_close_started := True\<rparr>;
                  Some (s2, final_receiver_complete token (fin used close_sig))
                })
      | Set_Error e \<Rightarrow> Some (s, Set_Error e)
      | Set_Stopped \<Rightarrow> Some (s, set_value_unless_stopped token))"

text \<open>Remark (resource). A resource that was opened is used once, with its token, and closed after that, whatever the use did,
  and the completion is that of the use unless closing fails. A resource that was not opened is not closed.
  But when connecting the use throws, the token is lost and is never closed.\<close>

theorem resource_closes:
  fixes next_sig :: "('t, 'e) signal \<Rightarrow> (unit, 'e) signal"
  assumes "\<And>sig. fin sig (Set_Value ()) = sig" "\<And>sig e. fin sig (Set_Error e) = Set_Error e"
  shows "(\<exists>s. open_receiver_complete fin token None next_sig (Set_Value ()) (Set_Value t) resource_init =
       Some (s, final_receiver_complete token (next_sig (Set_Value t))) \<and>
     ro_token s = Some t \<and> ro_close_started s) \<and>
   (\<exists>s. open_receiver_complete fin token None next_sig (Set_Error e) (Set_Value t) resource_init = Some (s, Set_Error e) \<and>
     ro_close_started s) \<and>
   open_receiver_complete fin token throws next_sig close_sig (Set_Error e) resource_init = Some (resource_init, Set_Error e) \<and>
   open_receiver_complete fin token throws next_sig close_sig Set_Stopped resource_init =
     Some (resource_init, set_value_unless_stopped token) \<and>
   (\<exists>s. open_receiver_complete fin token (Some e) next_sig close_sig (Set_Value t) resource_init = Some (s, Set_Error e) \<and>
     ro_token s = Some t \<and> \<not> ro_close_started s)"
  by (simp add: open_receiver_complete_def resource_init_def use_start_def final_receiver_complete_def
      Let_def assms)

theorem resource_closes_witness:
  "\<exists>s. open_receiver_complete (\<lambda>sig close_sig. case close_sig of Set_Value _ \<Rightarrow> sig | _ \<Rightarrow> close_sig) Unstoppable None
       (\<lambda>_. Set_Value ()) (Set_Value ()) (Set_Value (7 :: nat)) resource_init = Some (s, Set_Value () :: (unit, nat) signal) \<and>
     ro_token s = Some 7 \<and> ro_close_started s"
  using resource_closes [of "\<lambda>sig close_sig. case close_sig of Set_Value _ \<Rightarrow> sig | _ \<Rightarrow> close_sig" Unstoppable
      "\<lambda>_. Set_Value () :: (unit, nat) signal" "7 :: nat"]
  by (simp add: final_receiver_complete_def)

end
