(* ===== verification/Use_Resources.thy ===== *)
theory Use_Resources
  imports Async_Resource Zip First_Last
begin

text \<open>
  \<^verbatim>\<open>use_resources\<close> of \<^verbatim>\<open>async_resource.hpp\<close>: the resources are opened, their tokens zipped, the function is called with
  the row of tokens, and the signal of the sender that it returns is the \<^verbatim>\<open>first\<close> of the sequence. The models of the
  resources (\<open>Async_Resource\<close>), of \<^verbatim>\<open>zip\<close> and of \<^verbatim>\<open>first\<close> are composed as the code composes the adaptors.

  Opening a resource, closing it, and the sender that the function returns complete at any later time, in any order.
  The item that a resource gives to \<^verbatim>\<open>zip\<close> is named by the number of the resource; it completes with its token at once.
\<close>

subsection \<open>The composed operation\<close>

datatype 'e resource_phase = Res_Opening | Res_Used | Res_Closing "(unit, 'e) signal" | Res_Done

text \<open>
  \<open>u_ran\<close> is the signal of the sender of the function, once it has completed; \<open>u_token\<close> is the stop token of the receiver
  of the whole operation.
\<close>

record ('t, 'v, 'e) use_op =
  phases :: "'e resource_phase list"
  u_tokens :: "nat \<Rightarrow> 't option"
  u_zip :: "(nat, 't, 'e) zip_op"
  u_first :: "('v, 'e) first_cell"
  u_ran :: "('v, 'e) signal option"
  u_closed :: "nat list"
  u_close_failed :: bool
  u_token :: stop_token

definition use_init :: "nat \<Rightarrow> stop_token \<Rightarrow> ('t, 'v, 'e) use_op" where
  "use_init n token = \<lparr>phases = replicate n Res_Opening, u_tokens = (\<lambda>_. None),
     u_zip = zip_start token (zip_init n (\<lambda>_. Unstoppable)), u_first = first_init, u_ran = None, u_closed = [],
     u_close_failed = False, u_token = token\<rparr>"

text \<open>
  When \<^verbatim>\<open>zip\<close> completes the item of a resource, \<^verbatim>\<open>exec::finally\<close> starts to close it. The stop token of an item is that of
  \<^verbatim>\<open>zip\<close> itself, which \<^verbatim>\<open>zip\<close> has already asked when it completes an item.
\<close>

definition deliver :: "(nat \<times> (unit, 'e) signal) list \<Rightarrow> 'e resource_phase list \<Rightarrow> 'e resource_phase list" where
  "deliver sigs ps = fold (\<lambda>(i, sig) ps. ps[i := Res_Closing sig]) sigs ps"

definition with_zip :: "(nat, 't, 'e) zip_op \<Rightarrow> ('t, 'v, 'e) use_op \<Rightarrow> ('t, 'v, 'e) use_op" where
  "with_zip z s = s\<lparr>u_zip := z,
     phases := deliver (drop (length (item_signals (u_zip s))) (item_signals z)) (phases s)\<rparr>"

definition res_opened :: "nat \<Rightarrow> 't \<Rightarrow> ('t, 'v, 'e) use_op \<Rightarrow> ('t, 'v, 'e) use_op option" where
  "res_opened i t s = do {
     z \<leftarrow> item_set_value None None i i t (u_zip s);
     Some (with_zip z (s\<lparr>phases := (phases s)[i := Res_Used], u_tokens := (u_tokens s)(i := Some t)\<rparr>))
   }"

text \<open>A sequence of \<^verbatim>\<open>zip\<close> completes; its receivers have the stop token of \<^verbatim>\<open>zip\<close>.\<close>

definition zip_token :: "('t, 'v, 'e) use_op \<Rightarrow> stop_token" where
  "zip_token s = Stoppable (z_stop (u_zip s))"

definition res_done :: "nat \<Rightarrow> (unit, 'e) signal \<Rightarrow> ('t, 'v, 'e) use_op \<Rightarrow> ('t, 'v, 'e) use_op" where
  "res_done i sig s = with_zip (child_complete (u_token s) sig (u_zip s)) (s\<lparr>phases := (phases s)[i := Res_Done]\<rparr>)"

text \<open>Opening fails (\<open>Some\<close> error) or was stopped: what the open receiver does then.\<close>

definition res_open_failed :: "nat \<Rightarrow> 'e option \<Rightarrow> ('t, 'v, 'e) use_op \<Rightarrow> ('t, 'v, 'e) use_op" where
  "res_open_failed i err s =
     res_done i (case err of Some e \<Rightarrow> Set_Error e | None \<Rightarrow> set_value_unless_stopped (zip_token s)) s"

definition res_closed ::
  "((unit, 'e) signal \<Rightarrow> (unit, 'e) signal \<Rightarrow> (unit, 'e) signal) \<Rightarrow> nat \<Rightarrow> (unit, 'e) signal \<Rightarrow>
     (unit, 'e) signal \<Rightarrow> ('t, 'v, 'e) use_op \<Rightarrow> ('t, 'v, 'e) use_op" where
  "res_closed fin i item_sig close_sig s =
     (let s1 = res_done i (final_receiver_complete (zip_token s) (fin item_sig close_sig)) s
      in s1\<lparr>u_closed := u_closed s1 @ [i], u_close_failed := u_close_failed s1 \<or> close_sig \<noteq> Set_Value ()\<rparr>)"

text \<open>The sender of the function completes: an item of \<^verbatim>\<open>first\<close>, whose item receiver is the receiver of the row.\<close>

definition fn_completes :: "('v, 'e) signal \<Rightarrow> ('t, 'v, 'e) use_op \<Rightarrow> ('t, 'v, 'e) use_op" where
  "fn_completes sig s =
     (let (cell, row_sig) = first_item sig (u_first s);
          ops = fst (hd (zipped (u_zip s)));
          z = (case row_sig of Set_Value _ \<Rightarrow> zipped_set_value ops (u_zip s) | _ \<Rightarrow> zipped_set_stopped ops (u_zip s))
      in with_zip z (s\<lparr>u_first := cell, u_ran := Some sig\<rparr>))"

text \<open>Stop is requested from outside: \<^verbatim>\<open>zip\<close> passes it to its own stop source.\<close>

definition use_stop :: "('t, 'v, 'e) use_op \<Rightarrow> ('t, 'v, 'e) use_op" where
  "use_stop s = s\<lparr>u_token := Stoppable True, u_zip := (u_zip s)\<lparr>z_stop := True\<rparr>\<rparr>"

inductive use_step ::
  "((unit, 'e) signal \<Rightarrow> (unit, 'e) signal \<Rightarrow> (unit, 'e) signal) \<Rightarrow>
     ('t, 'v, 'e) use_op \<Rightarrow> ('t, 'v, 'e) use_op \<Rightarrow> bool" for fin where
  opens: "i < length (phases s) \<Longrightarrow> phases s ! i = Res_Opening \<Longrightarrow> res_opened i t s = Some s' \<Longrightarrow> use_step fin s s'"
| fails: "i < length (phases s) \<Longrightarrow> phases s ! i = Res_Opening \<Longrightarrow> use_step fin s (res_open_failed i err s)"
| closes: "i < length (phases s) \<Longrightarrow> phases s ! i = Res_Closing sig \<Longrightarrow>
    use_step fin s (res_closed fin i sig close_sig s)"
| runs: "zipped (u_zip s) \<noteq> [] \<Longrightarrow> u_ran s = None \<Longrightarrow> use_step fin s (fn_completes sig s)"
| stop: "z_completed (u_zip s) = [] \<Longrightarrow> u_token s = Stoppable False \<Longrightarrow> use_step fin s (use_stop s)"

inductive use_reach ::
  "((unit, 'e) signal \<Rightarrow> (unit, 'e) signal \<Rightarrow> (unit, 'e) signal) \<Rightarrow> nat \<Rightarrow> stop_token \<Rightarrow>
     ('t, 'v, 'e) use_op \<Rightarrow> bool" for fin n token where
  init: "use_reach fin n token (use_init n token)"
| step: "use_reach fin n token s \<Longrightarrow> use_step fin s s' \<Longrightarrow> use_reach fin n token s'"

text \<open>What the receiver of the whole operation gets, once \<^verbatim>\<open>zip\<close> has completed: see \<open>First_Last\<close>.\<close>

definition use_result :: "('t, 'v, 'e) use_op \<Rightarrow> (('v, 'e) sent \<times> ('v, 'e) signal option) option" where
  "use_result s = (case z_completed (u_zip s) of [] \<Rightarrow> None | sig # _ \<Rightarrow> Some (first_complete sig (u_first s)))"

end
