(* ===== verification/Use_Resources_Correct.thy ===== *)
theory Use_Resources_Correct
  imports Use_Resources
begin

text \<open>
  What \<open>Use_Resources\<close> does, in every order in which its parts complete: an invariant of all reachable states, from which
  follows that resources are closed, what the operation completes with, and that it completes.
\<close>

subsection \<open>What the parts do\<close>

lemma complete_all_stopped:
  "z_stop z \<Longrightarrow> complete_all_item_ops ops z = z\<lparr>item_signals := item_signals z @ map (\<lambda>p. (p, Set_Stopped)) ops\<rparr>"
  by (induction ops arbitrary: z) (simp_all add: complete_all_item_ops_def complete_item_def)

lemma deliver_nil [simp]: "deliver [] ps = ps"
  by (simp add: deliver_def)

lemma deliver_stopped:
  "length (deliver (map (\<lambda>i. (i, c)) xs) ps) = length ps \<and>
   (\<forall>j < length ps. deliver (map (\<lambda>i. (i, c)) xs) ps ! j = (if j \<in> set xs then Res_Closing c else ps ! j))"
  by (induction xs arbitrary: ps) (simp_all add: deliver_def nth_list_update)

lemmas deliver_simps [simp] = deliver_stopped [THEN conjunct1] deliver_stopped [THEN conjunct2, rule_format]

lemma concat_singletons:
  "map fst (concat (map (\<lambda>i. if P i then [(i, f i)] else []) xs)) = filter P xs"
  by (induction xs) simp_all

lemma notify_stop_eq:
  assumes "z_queues z = map (\<lambda>i. if P i then [(i, f i)] else []) [0..<n]"
  shows "notify_stop z = z\<lparr>z_stop := True, n_ready := 0, z_queues := replicate n [],
    item_signals := item_signals z @ map (\<lambda>i. (i, Set_Stopped)) (filter P [0..<n])\<rparr>"
  unfolding notify_stop_def assms Let_def
  by (simp add: complete_all_stopped concat_singletons map_replicate_const assms)

lemma child_complete_more:
  assumes "n_pending_ops z > 1"
  shows "\<exists>er. child_complete token sig z = notify_stop (z\<lparr>n_pending_ops := n_pending_ops z - 1, z_error := er\<rparr>)"
  by (rule exI [of _ "case sig of Set_Error e \<Rightarrow> if z_error z = None then Some e else z_error z | _ \<Rightarrow> z_error z"])
    (use assms in \<open>cases z; cases sig; cases "z_error z";
      simp add: child_complete_def child_set_value_def child_set_stopped_def child_set_error_def notify_error_def Let_def\<close>)

lemma child_complete_last:
  assumes "\<not> n_pending_ops z > 1"
  shows "\<exists>sig'. child_complete token sig z = send sig' (z\<lparr>n_pending_ops := n_pending_ops z - 1\<rparr>) \<and>
    (sig = Set_Stopped \<and> z_stop z \<and> \<not> stop_requested token \<longrightarrow> sig' = Set_Value ())"
  using assms
  by (cases sig; cases "z_error z")
    (auto simp: child_complete_def child_set_value_def child_set_stopped_def child_set_error_def
      set_value_unless_stopped_def stop_requested_def Let_def split: stop_token.split)

subsection \<open>An invariant\<close>

definition queued :: "('t, 'v, 'e) use_op \<Rightarrow> nat \<Rightarrow> bool" where
  "queued s i \<longleftrightarrow> i < length (phases s) \<and> phases s ! i = Res_Used \<and> zipped (u_zip s) = []"

definition unfinished :: "('t, 'v, 'e) use_op \<Rightarrow> nat set" where
  "unfinished s = {i. i < length (phases s) \<and> phases s ! i \<noteq> Res_Done}"

text \<open>The queues of \<^verbatim>\<open>zip\<close> hold the items of the resources in use, until there is a row.\<close>

definition queues_ok :: "('t, 'v, 'e) use_op \<Rightarrow> bool" where
  "queues_ok s \<longleftrightarrow>
     z_queues (u_zip s) = map (\<lambda>i. if queued s i then [(i, the (u_tokens s i))] else []) [0..<length (phases s)] \<and>
     n_ready (u_zip s) = int (card {i. queued s i}) \<and>
     (\<exists>i < length (phases s). \<not> queued s i)"

text \<open>When a resource is done all others are asked to stop; when all are done \<^verbatim>\<open>zip\<close> has completed.\<close>

definition done_ok :: "('t, 'v, 'e) use_op \<Rightarrow> bool" where
  "done_ok s \<longleftrightarrow>
     n_pending_ops (u_zip s) = int (card (unfinished s)) \<and>
     (Res_Done \<in> set (phases s) \<longrightarrow> Res_Used \<notin> set (phases s) \<and> (unfinished s \<noteq> {} \<longrightarrow> z_stop (u_zip s))) \<and>
     (\<forall>sig. Res_Closing sig \<in> set (phases s) \<longrightarrow> sig = Set_Stopped) \<and>
     length (z_completed (u_zip s)) = (if unfinished s = {} then 1 else 0)"

fun token_ok :: "'e resource_phase \<Rightarrow> 't option \<Rightarrow> bool \<Rightarrow> bool" where
  "token_ok Res_Opening tok was_closed \<longleftrightarrow> tok = None"
| "token_ok Res_Used tok was_closed \<longleftrightarrow> tok \<noteq> None"
| "token_ok (Res_Closing _) tok was_closed \<longleftrightarrow> tok \<noteq> None"
| "token_ok Res_Done tok was_closed \<longleftrightarrow> (tok \<noteq> None \<longrightarrow> was_closed)"

definition tokens_ok :: "('t, 'v, 'e) use_op \<Rightarrow> bool" where
  "tokens_ok s \<longleftrightarrow>
     (\<forall>i < length (phases s). token_ok (phases s ! i) (u_tokens s i) (i \<in> set (u_closed s))) \<and>
     distinct (u_closed s) \<and>
     (\<forall>i \<in> set (u_closed s). i < length (phases s) \<and> phases s ! i = Res_Done \<and> u_tokens s i \<noteq> None)"

definition row_ok :: "('t, 'v, 'e) use_op \<Rightarrow> bool" where
  "row_ok s \<longleftrightarrow>
     (case u_ran s of
        None \<Rightarrow> u_first s = first_init \<and> (zipped (u_zip s) \<noteq> [] \<longrightarrow> set (phases s) = {Res_Used})
      | Some sig \<Rightarrow> zipped (u_zip s) \<noteq> [] \<and> u_first s = first_emplace sig first_init \<and> z_stop (u_zip s) \<and>
          Res_Used \<notin> set (phases s) \<and>
          (unfinished s = {} \<and> \<not> u_close_failed s \<and> \<not> stop_requested (u_token s) \<longrightarrow>
            z_completed (u_zip s) = [Set_Value ()])) \<and>
     (zipped (u_zip s) \<noteq> [] \<longrightarrow> Res_Opening \<notin> set (phases s) \<and>
        zipped (u_zip s) = [([0..<length (phases s)], map (\<lambda>i. the (u_tokens s i)) [0..<length (phases s)])] \<and>
        (\<forall>i < length (phases s). u_tokens s i \<noteq> None))"

definition use_inv :: "('t, 'v, 'e) use_op \<Rightarrow> bool" where
  "use_inv s \<longleftrightarrow> queues_ok s \<and> done_ok s \<and> tokens_ok s \<and> row_ok s"

lemmas use_inv_defs = use_inv_def queues_ok_def done_ok_def tokens_ok_def row_ok_def

lemma card_unfinished: "unfinished s \<subseteq> {..<length (phases s)}"
  by (auto simp: unfinished_def)

lemma finite_unfinished [simp]: "finite (unfinished s)"
  by (rule finite_subset [OF card_unfinished]) simp

lemma finite_queued [simp]: "finite {i. queued s i}"
  by (rule finite_subset [of _ "{..<length (phases s)}"]) (auto simp: queued_def)

lemma use_init_inv:
  assumes "n > 0"
  shows "use_inv (use_init n token)"
proof -
  have q: "queued (use_init n token) i \<longleftrightarrow> False" for i by (auto simp: queued_def use_init_def)
  have "unfinished (use_init n token) = {..<n}" by (auto simp: unfinished_def use_init_def)
  with assms q show ?thesis
    by (auto simp: use_inv_defs use_init_def zip_init_def map_replicate_const)
qed

subsection \<open>A resource is done\<close>

lemma no_row_in_use:
  assumes "row_ok s" "i < length (phases s)" "phases s ! i \<noteq> Res_Used"
  shows "u_ran s = None \<Longrightarrow> zipped (u_zip s) = []"
  using assms nth_mem [OF assms(2)] by (auto simp: row_ok_def)

lemma used_queued:
  assumes "row_ok s" "i < length (phases s)" "phases s ! i \<noteq> Res_Used" "j < length (phases s)" "phases s ! j = Res_Used"
  shows "queued s j"
  using assms no_row_in_use [OF assms(1-3)] nth_mem [OF assms(4)]
  by (cases "u_ran s") (auto simp: queued_def row_ok_def)

lemma res_done_facts:
  fixes s :: "('t, 'v, 'e) use_op" and sig :: "(unit, 'e) signal"
  assumes inv: "queues_ok s" "done_ok s" "row_ok s"
    and i: "i < length (phases s)" "phases s ! i \<noteq> Res_Done" "phases s ! i \<noteq> Res_Used"
  defines "s' \<equiv> res_done i sig s"
  shows "length (phases s') = length (phases s) \<and>
    (\<forall>j < length (phases s). phases s' ! j = (if j = i then Res_Done
       else if phases s ! j = Res_Used then Res_Closing Set_Stopped else phases s ! j)) \<and>
    z_queues (u_zip s') = replicate (length (phases s)) [] \<and> n_ready (u_zip s') = 0 \<and>
    n_pending_ops (u_zip s') = n_pending_ops (u_zip s) - 1 \<and>
    (n_pending_ops (u_zip s) > 1 \<longrightarrow> z_stop (u_zip s') \<and> z_completed (u_zip s') = z_completed (u_zip s)) \<and>
    (\<not> n_pending_ops (u_zip s) > 1 \<longrightarrow> (\<exists>sig'. z_completed (u_zip s') = z_completed (u_zip s) @ [sig'] \<and>
       (sig = Set_Stopped \<and> z_stop (u_zip s) \<and> \<not> stop_requested (u_token s) \<longrightarrow> sig' = Set_Value ()))) \<and>
    (z_stop (u_zip s) \<longrightarrow> z_stop (u_zip s')) \<and> zipped (u_zip s') = zipped (u_zip s) \<and>
    u_tokens s' = u_tokens s \<and> u_first s' = u_first s \<and> u_ran s' = u_ran s \<and> u_closed s' = u_closed s \<and>
    u_close_failed s' = u_close_failed s \<and> u_token s' = u_token s"
proof (cases "n_pending_ops (u_zip s) > 1")
  case True
  let ?ps = "deliver (map (\<lambda>i. (i, Set_Stopped)) (filter (queued s) [0..<length (phases s)])) ((phases s)[i := Res_Done])"
  obtain er where child: "child_complete (u_token s) sig (u_zip s) =
      notify_stop ((u_zip s)\<lparr>n_pending_ops := n_pending_ops (u_zip s) - 1, z_error := er\<rparr>)" (is "_ = notify_stop ?z")
    using True child_complete_more by blast
  have "z_queues ?z = map (\<lambda>i. if queued s i then [(i, the (u_tokens s i))] else []) [0..<length (phases s)]"
    using inv(1) by (simp add: queues_ok_def)
  from notify_stop_eq [OF this] have s': "s' = s\<lparr>u_zip := ?z\<lparr>z_stop := True, n_ready := 0,
      z_queues := replicate (length (phases s)) [], item_signals := item_signals (u_zip s) @
        map (\<lambda>i. (i, Set_Stopped)) (filter (queued s) [0..<length (phases s)])\<rparr>, phases := ?ps\<rparr>"
    by (simp add: s'_def res_done_def with_zip_def child)
  have "queued s j \<longleftrightarrow> phases s ! j = Res_Used" if "j < length (phases s)" for j
    using used_queued [OF inv(3) i(1,3) that] by (auto simp: queued_def)
  then have "\<forall>j < length (phases s). ?ps ! j = (if j = i then Res_Done
      else if phases s ! j = Res_Used then Res_Closing Set_Stopped else phases s ! j)"
    using i by (simp add: nth_list_update)
  with True show ?thesis unfolding s' by simp
next
  case False
  have "card (unfinished s) \<le> Suc 0" using False inv(2) by (simp add: done_ok_def)
  moreover have "i \<in> unfinished s" using i by (simp add: unfinished_def)
  ultimately have only: "unfinished s = {i}" by (auto simp: card_le_Suc0_iff_eq)
  have unused: "phases s ! j \<noteq> Res_Used" if "j < length (phases s)" for j
  proof
    assume "phases s ! j = Res_Used"
    with that have "j \<in> unfinished s" by (simp add: unfinished_def)
    with only i(3) \<open>phases s ! j = Res_Used\<close> show False by simp
  qed
  then have "\<not> queued s j" for j by (auto simp: queued_def)
  then have "z_queues (u_zip s) = replicate (length (phases s)) []" "n_ready (u_zip s) = 0"
    using inv(1) by (simp_all add: queues_ok_def map_replicate_const)
  with child_complete_last [OF False, of "u_token s" sig] unused show ?thesis using False i
    by (auto simp: s'_def res_done_def with_zip_def send_def nth_list_update)
qed

lemma res_done_inv:
  fixes s :: "('t, 'v, 'e) use_op" and sig :: "(unit, 'e) signal" and closed' :: "nat list" and failed :: bool
  assumes inv: "queues_ok s" "done_ok s" "row_ok s"
    and i: "i < length (phases s)" "phases s ! i \<noteq> Res_Done" "phases s ! i \<noteq> Res_Used"
    and sig: "u_ran s \<noteq> None \<Longrightarrow> sig = Set_Stopped \<or> failed"
  defines "s' \<equiv> (res_done i sig s)\<lparr>u_closed := closed', u_close_failed := u_close_failed s \<or> failed\<rparr>"
  shows "queues_ok s' \<and> done_ok s' \<and> row_ok s'"
proof -
  note facts = res_done_facts [OF inv i, of sig]
  have len: "length (phases s') = length (phases s)" using facts by (simp add: s'_def)
  have ph: "phases s' ! j = (if j = i then Res_Done
      else if phases s ! j = Res_Used then Res_Closing Set_Stopped else phases s ! j)" if "j < length (phases s)" for j
    using facts that by (simp add: s'_def)
  have used: "Res_Used \<notin> set (phases s')" using ph len by (auto simp: in_set_conv_nth split: if_splits)
  then have nq: "\<not> queued s' j" for j unfolding queued_def by (metis nth_mem)
  have unf: "unfinished s' = unfinished s - {i}" using ph len by (auto simp: unfinished_def split: if_splits)
  have mem: "i \<in> unfinished s" using i by (simp add: unfinished_def)
  then have card: "card (unfinished s) = card (unfinished s') + 1"
    unfolding unf using card_Suc_Diff1 [OF finite_unfinished mem] by simp
  have pend: "n_pending_ops (u_zip s) = int (card (unfinished s))" using inv(2) by (simp add: done_ok_def)
  have many: "n_pending_ops (u_zip s) > 1 \<longleftrightarrow> unfinished s' \<noteq> {}"
    using pend card by (auto simp: card_gt_0_iff [symmetric])
  have empty: "z_completed (u_zip s) = []" using inv(2) mem by (auto simp: done_ok_def split: if_splits)
  have "queues_ok s'"
    using facts nq i len by (auto simp: queues_ok_def s'_def map_replicate_const)
  moreover have "sig' = Set_Stopped" if "Res_Closing sig' \<in> set (phases s')" for sig'
    using that ph len inv(2) by (auto simp: in_set_conv_nth done_ok_def split: if_splits)
  then have "done_ok s'"
    using facts used many empty card pend unf by (auto simp: done_ok_def s'_def)
  moreover have "row_ok s'"
  proof (cases "u_ran s")
    case None
    then have "zipped (u_zip s) = []" by (rule no_row_in_use [OF inv(3) i(1,3)])
    with None facts inv(3) show ?thesis by (simp add: row_ok_def s'_def)
  next
    case (Some x)
    then have x: "zipped (u_zip s) \<noteq> []" "u_first s = first_emplace x first_init" "z_stop (u_zip s)"
      "Res_Opening \<notin> set (phases s)"
      "zipped (u_zip s) = [([0..<length (phases s)], map (\<lambda>i. the (u_tokens s i)) [0..<length (phases s)])]"
      "\<forall>i < length (phases s). u_tokens s i \<noteq> None"
      using inv(3) by (auto simp: row_ok_def)
    have "Res_Opening \<notin> set (phases s')"
      using x(4) ph len by (auto simp: in_set_conv_nth split: if_splits)
    moreover have "z_completed (u_zip s') = [Set_Value ()]"
      if "unfinished s' = {}" "\<not> failed" "\<not> stop_requested (u_token s)"
      using facts that many empty sig Some x(3) by (auto simp: s'_def)
    moreover have "u_ran s' = Some x" "u_first s' = u_first s" "z_stop (u_zip s')" "zipped (u_zip s') = zipped (u_zip s)"
      "u_tokens s' = u_tokens s" "u_token s' = u_token s" "u_close_failed s' \<longleftrightarrow> u_close_failed s \<or> failed"
      using facts Some x(3) by (simp_all add: s'_def)
    ultimately show ?thesis using x used len by (simp add: row_ok_def)
  qed
  ultimately show ?thesis by simp
qed

subsection \<open>A resource opens\<close>

lemma fronts_singletons: "fronts (map (\<lambda>i. [f i]) xs) = Some (map f xs)"
  by (induction xs) simp_all

text \<open>The item that is pushed waits, or completes the row.\<close>

lemma push_waits:
  assumes "z_queues z ! i = []" "i < length (z_queues z)" "\<not> z_stop z" "n_ready z \<noteq> int (length (z_queues z)) - 1"
  shows "item_set_value None None i p v z = Some (z\<lparr>z_queues := (z_queues z)[i := [(p, v)]], n_ready := n_ready z + 1\<rparr>)"
  using assms
  by (simp add: item_set_value_def push_back_item_op_def push_check_def push_locked_def
      notify_result.simps is_front_def fetch_add_ready_def Let_def)

lemma push_fires:
  assumes "(z_queues z)[i := [(p, v)]] = map (\<lambda>j. [f j]) [0..<n]" "z_queues z ! i = []" "i < length (z_queues z)"
    "\<not> z_stop z" "n_ready z = int (length (z_queues z)) - 1"
  shows "item_set_value None None i p v z = Some (z\<lparr>z_queues := replicate n [], n_ready := 0,
    zipped := zipped z @ [(map (fst \<circ> f) [0..<n], map (snd \<circ> f) [0..<n])]\<rparr>)"
proof -
  have len: "length (z_queues z) = n" using assms(1) by (metis length_list_update length_map diff_zero length_upt)
  have "is_front i p (z\<lparr>z_queues := (z_queues z)[i := [(p, v)]]\<rparr>)"
    using assms(3) by (simp add: is_front_def)
  moreover have "[j \<leftarrow> map (tl \<circ> (\<lambda>j. [f j])) [0..<n]. j \<noteq> []] = []" by (simp add: filter_empty_conv)
  moreover have "0 < n" using assms(3) len by simp
  ultimately show ?thesis using assms(2,4,5) len
    unfolding item_set_value_def push_back_item_op_def push_check_def push_locked_def
    by (simp add: notify_result.simps fetch_add_ready_def collect_results_def pop_fronts_def
        count_ready_def assms(1) fronts_singletons Let_def map_replicate_const comp_def)
qed

lemma res_opened_cases:
  assumes inv: "use_inv s" and i: "i < length (phases s)" "phases s ! i = Res_Opening"
  obtains
    (refused) "z_stop (u_zip s)" "res_opened i t s = Some (s\<lparr>phases := (phases s)[i := Res_Closing Set_Stopped],
      u_tokens := (u_tokens s)(i := Some t),
      u_zip := (u_zip s)\<lparr>item_signals := item_signals (u_zip s) @ [(i, Set_Stopped)]\<rparr>\<rparr>)"
  | (waits) "\<not> z_stop (u_zip s)" "card {j. queued s j} \<noteq> length (phases s) - 1"
      "res_opened i t s = Some (s\<lparr>phases := (phases s)[i := Res_Used], u_tokens := (u_tokens s)(i := Some t),
        u_zip := (u_zip s)\<lparr>z_queues := (z_queues (u_zip s))[i := [(i, t)]], n_ready := n_ready (u_zip s) + 1\<rparr>\<rparr>)"
  | (fires) "\<not> z_stop (u_zip s)" "\<forall>j < length (phases s). j = i \<or> queued s j"
      "res_opened i t s = Some (s\<lparr>phases := (phases s)[i := Res_Used], u_tokens := (u_tokens s)(i := Some t),
        u_zip := (u_zip s)\<lparr>z_queues := replicate (length (phases s)) [], n_ready := 0,
          zipped := [([0..<length (phases s)], map (\<lambda>j. the (((u_tokens s)(i := Some t)) j)) [0..<length (phases s)])]\<rparr>\<rparr>)"
proof -
  let ?z = "u_zip s" and ?n = "length (phases s)"
  have zipped: "zipped ?z = []" using inv i nth_mem [OF i(1)] by (auto simp: use_inv_def row_ok_def)
  have queues: "z_queues ?z = map (\<lambda>j. if queued s j then [(j, the (u_tokens s j))] else []) [0..<?n]"
    and ready: "n_ready ?z = int (card {j. queued s j})"
    using inv by (simp_all add: use_inv_def queues_ok_def)
  have nq: "\<not> queued s i" using i by (simp add: queued_def)
  then have qi: "z_queues ?z ! i = []" "length (z_queues ?z) = ?n" using i queues by simp_all
  have sub: "{j. queued s j} \<subseteq> {..<?n} - {i}" using nq by (auto simp: queued_def)
  consider "z_stop ?z" | "\<not> z_stop ?z" "card {j. queued s j} \<noteq> ?n - 1" | "\<not> z_stop ?z" "card {j. queued s j} = ?n - 1"
    by blast
  then show thesis
  proof cases
    case 1
    then have "item_set_value None None i i t ?z = Some (?z\<lparr>item_signals := item_signals ?z @ [(i, Set_Stopped)]\<rparr>)"
      by (simp add: item_set_value_def push_back_item_op_def push_check_def Let_def)
    with 1 show thesis by (intro refused) (simp_all add: res_opened_def with_zip_def deliver_def)
  next
    case 2
    then have "n_ready ?z \<noteq> int (length (z_queues ?z)) - 1" using ready qi i(1) by simp
    from push_waits [OF qi(1) _ 2(1) this] 2 show thesis
      using i(1) qi(2) by (intro waits) (simp_all add: res_opened_def with_zip_def)
  next
    case 3
    have "card ({..<?n} - {i}) = ?n - 1" using i by simp
    then have all: "{j. queued s j} = {..<?n} - {i}" using card_subset_eq [OF _ sub] 3(2) by simp
    have "(z_queues ?z)[i := [(i, t)]] = map (\<lambda>j. [(j, the (((u_tokens s)(i := Some t)) j))]) [0..<?n]"
    proof (rule nth_equalityI)
      fix j assume "j < length ((z_queues ?z)[i := [(i, t)]])"
      then have "j < ?n" using qi(2) by simp
      moreover from this have "j \<noteq> i \<Longrightarrow> queued s j" using all by blast
      ultimately show "(z_queues ?z)[i := [(i, t)]] ! j = map (\<lambda>j. [(j, the (((u_tokens s)(i := Some t)) j))]) [0..<?n] ! j"
        by (cases "j = i") (simp_all add: queues)
    qed (simp add: qi(2))
    from push_fires [OF this qi(1) _ 3(1)] have "item_set_value None None i i t ?z = Some (?z\<lparr>z_queues := replicate ?n [],
        n_ready := 0, zipped := [([0..<?n], map (\<lambda>j. the (((u_tokens s)(i := Some t)) j)) [0..<?n])]\<rparr>)"
      using i(1) qi(2) ready 3(2) zipped by (simp add: comp_def of_nat_diff map_idI)
    moreover have "\<forall>j < ?n. j = i \<or> queued s j" using all by blast
    ultimately show thesis using 3(1) by (intro fires) (simp_all add: res_opened_def with_zip_def)
  qed
qed

lemma unfinished_update:
  "i < length (phases s) \<Longrightarrow> phases s ! i \<noteq> Res_Done \<Longrightarrow> phases s' = (phases s)[i := ph] \<Longrightarrow> ph \<noteq> Res_Done \<Longrightarrow>
     unfinished s' = unfinished s"
  by (auto simp: unfinished_def nth_list_update split: if_splits)

lemma tokens_ok_opens:
  assumes "tokens_ok s" "i < length (phases s)" "phases s ! i = Res_Opening"
    "ph = Res_Used \<or> ph = Res_Closing sig"
    "phases s' = (phases s)[i := ph]" "u_tokens s' = (u_tokens s)(i := Some t)" "u_closed s' = u_closed s"
  shows "tokens_ok s'"
proof -
  have "i \<notin> set (u_closed s)" using assms(1,3) by (auto simp: tokens_ok_def)
  moreover have "token_ok (phases s' ! j) (u_tokens s' j) (j \<in> set (u_closed s'))" if "j < length (phases s')" for j
    using assms that by (cases "j = i") (auto simp: tokens_ok_def)
  moreover have "j < length (phases s') \<and> phases s' ! j = Res_Done \<and> u_tokens s' j \<noteq> None"
    if "j \<in> set (u_closed s')" for j
    using assms that calculation(1) by (cases "j = i") (auto simp: tokens_ok_def)
  ultimately show ?thesis using assms(1,7) by (simp add: tokens_ok_def)
qed

lemma res_opened_inv:
  assumes inv: "use_inv s" and i: "i < length (phases s)" "phases s ! i = Res_Opening" and s': "res_opened i t s = Some s'"
  shows "use_inv s'"
proof -
  have zipped: "zipped (u_zip s) = []" and ran: "u_ran s = None" and first: "u_first s = first_init"
    using inv i nth_mem [OF i(1)] by (auto simp: use_inv_def row_ok_def split: option.splits)
  have queues: "z_queues (u_zip s) = map (\<lambda>j. if queued s j then [(j, the (u_tokens s j))] else []) [0..<length (phases s)]"
    and ready: "n_ready (u_zip s) = int (card {j. queued s j})"
    using inv by (simp_all add: use_inv_def queues_ok_def)
  have done_ok: "done_ok s" and tok: "tokens_ok s" using inv by (simp_all add: use_inv_def)
  have mem: "i \<in> unfinished s" using i by (simp add: unfinished_def)
  have nq: "\<not> queued s i" using i by (simp add: queued_def)
  show ?thesis using inv i(1,2)
  proof (cases rule: res_opened_cases [where t = t])
    case refused
    then have sel: "phases s' = (phases s)[i := Res_Closing Set_Stopped]" "u_tokens s' = (u_tokens s)(i := Some t)"
      "u_zip s' = (u_zip s)\<lparr>item_signals := item_signals (u_zip s) @ [(i, Set_Stopped)]\<rparr>"
      "u_ran s' = u_ran s" "u_first s' = u_first s" "u_closed s' = u_closed s" "u_close_failed s' = u_close_failed s"
      "u_token s' = u_token s" using s' by auto
    have q: "queued s' j \<longleftrightarrow> queued s j" for j using i nq by (auto simp: queued_def sel nth_list_update)
    have "unfinished s' = unfinished s" by (rule unfinished_update [OF i(1), where ph = "Res_Closing Set_Stopped"]) (simp_all add: sel i(2))
    then have "done_ok s'" using done_ok mem set_update_subset_insert [of "phases s" i "Res_Closing Set_Stopped"]
      by (auto simp: done_ok_def sel refused(1))
    moreover have "queues_ok s'" unfolding queues_ok_def q using queues ready nq i(1) by (auto simp: sel)
    moreover have "row_ok s'" using zipped ran first by (simp add: row_ok_def sel)
    moreover have "tokens_ok s'" by (rule tokens_ok_opens [OF tok i]) (auto simp: sel)
    ultimately show ?thesis by (simp add: use_inv_def)
  next
    case waits
    then have sel: "phases s' = (phases s)[i := Res_Used]" "u_tokens s' = (u_tokens s)(i := Some t)"
      "u_zip s' = (u_zip s)\<lparr>z_queues := (z_queues (u_zip s))[i := [(i, t)]], n_ready := n_ready (u_zip s) + 1\<rparr>"
      "u_ran s' = u_ran s" "u_first s' = u_first s" "u_closed s' = u_closed s" "u_close_failed s' = u_close_failed s"
      "u_token s' = u_token s" using s' by auto
    have q: "queued s' j \<longleftrightarrow> queued s j \<or> j = i" for j using i zipped by (auto simp: queued_def sel nth_list_update)
    have "unfinished s' = unfinished s" by (rule unfinished_update [OF i(1), where ph = Res_Used]) (simp_all add: sel i(2))
    moreover have "Res_Done \<notin> set (phases s)" using done_ok mem waits(1) by (auto simp: done_ok_def)
    ultimately have "done_ok s'" using done_ok mem set_update_subset_insert [of "phases s" i Res_Used]
      by (auto simp: done_ok_def sel)
    moreover have "\<exists>j < length (phases s). \<not> queued s j \<and> j \<noteq> i"
    proof (rule ccontr)
      assume "\<not> ?thesis"
      then have "{j. queued s j} = {..<length (phases s)} - {i}" using nq by (auto simp: queued_def)
      with waits(2) i(1) show False by simp
    qed
    moreover have "z_queues (u_zip s') = map (\<lambda>j. if queued s' j then [(j, the (u_tokens s' j))] else []) [0..<length (phases s')]"
      using i(1) by (intro nth_equalityI) (auto simp: sel queues q nth_list_update)
    moreover have "{j. queued s' j} = insert i {j. queued s j}" by (auto simp: q)
    then have "n_ready (u_zip s') = int (card {j. queued s' j})" using ready nq by (simp add: sel)
    ultimately have "done_ok s'" "queues_ok s'" by (auto simp: queues_ok_def q sel)
    moreover have "row_ok s'" using zipped ran first by (simp add: row_ok_def sel)
    moreover have "tokens_ok s'" by (rule tokens_ok_opens [OF tok i]) (auto simp: sel)
    ultimately show ?thesis by (simp add: use_inv_def)
  next
    case fires
    then have sel: "phases s' = (phases s)[i := Res_Used]" "u_tokens s' = (u_tokens s)(i := Some t)"
      "u_zip s' = (u_zip s)\<lparr>z_queues := replicate (length (phases s)) [], n_ready := 0,
        zipped := [([0..<length (phases s)], map (\<lambda>j. the (((u_tokens s)(i := Some t)) j)) [0..<length (phases s)])]\<rparr>"
      "u_ran s' = u_ran s" "u_first s' = u_first s" "u_closed s' = u_closed s" "u_close_failed s' = u_close_failed s"
      "u_token s' = u_token s" using s' by auto
    have used: "phases s' ! j = Res_Used" if "j < length (phases s)" for j
      using fires(2) that i(1) by (auto simp: sel queued_def nth_list_update)
    then have "set (phases s') \<subseteq> {Res_Used}" by (auto simp: in_set_conv_nth sel)
    moreover have "phases s' \<noteq> []" using i(1) by (auto simp: sel)
    ultimately have set: "set (phases s') = {Res_Used}" by (cases "phases s'") auto
    have nq': "\<not> queued s' j" for j using i(1) by (auto simp: queued_def sel)
    have "unfinished s' = unfinished s" by (rule unfinished_update [OF i(1), where ph = Res_Used]) (simp_all add: sel i(2))
    then have "done_ok s'" using done_ok mem set by (auto simp: done_ok_def sel)
    moreover have "queues_ok s'" using nq' i(1) by (auto simp: queues_ok_def sel map_replicate_const)
    moreover have tok': "tokens_ok s'" by (rule tokens_ok_opens [OF tok i]) (auto simp: sel)
    moreover have "\<forall>j < length (phases s'). u_tokens s' j \<noteq> None"
      using tok' used by (auto simp: tokens_ok_def sel)
    then have "row_ok s'" using ran first set by (simp add: row_ok_def sel)
    ultimately show ?thesis by (simp add: use_inv_def)
  qed
qed

subsection \<open>The other steps\<close>

lemma fn_completes_eq:
  assumes inv: "use_inv s" and row: "zipped (u_zip s) \<noteq> []" and ran: "u_ran s = None"
  shows "fn_completes sig s = s\<lparr>u_first := first_emplace sig first_init, u_ran := Some sig,
    u_zip := (u_zip s)\<lparr>z_stop := True, n_ready := 0, z_queues := replicate (length (phases s)) [],
      item_signals := item_signals (u_zip s) @ map (\<lambda>i. (i, Set_Stopped)) [0..<length (phases s)]\<rparr>,
    phases := deliver (map (\<lambda>i. (i, Set_Stopped)) [0..<length (phases s)]) (phases s)\<rparr>"
proof -
  let ?n = "length (phases s)"
  have z: "zipped (u_zip s) = [([0..<?n], map (\<lambda>i. the (u_tokens s i)) [0..<?n])]" "u_first s = first_init"
    using inv row ran by (auto simp: use_inv_def row_ok_def)
  have "\<not> queued s i" for i using row by (simp add: queued_def)
  then have "z_queues (u_zip s) = map (\<lambda>i. if False then [(i, undefined)] else []) [0..<?n]"
    using inv by (simp add: use_inv_def queues_ok_def)
  from notify_stop_eq [OF this] have "zipped_set_stopped [0..<?n] (u_zip s) = (u_zip s)\<lparr>z_stop := True,
      n_ready := 0, z_queues := replicate ?n [],
      item_signals := item_signals (u_zip s) @ map (\<lambda>i. (i, Set_Stopped)) [0..<?n]\<rparr>"
    by (simp add: zipped_set_stopped_def complete_all_stopped)
  then show ?thesis by (simp add: fn_completes_def first_item_def z with_zip_def)
qed

lemma fn_completes_inv:
  assumes inv: "use_inv s" and row: "zipped (u_zip s) \<noteq> []" and ran: "u_ran s = None"
  shows "use_inv (fn_completes sig s)"
proof -
  let ?n = "length (phases s)"
  have z: "zipped (u_zip s) = [([0..<?n], map (\<lambda>i. the (u_tokens s i)) [0..<?n])]"
    and used: "set (phases s) = {Res_Used}" and tokens: "\<forall>i < ?n. u_tokens s i \<noteq> None"
    using inv row ran by (auto simp: use_inv_def row_ok_def)
  have ph: "phases s ! i = Res_Used" if "i < ?n" for i using used nth_mem [OF that] by auto
  let ?z = "(u_zip s)\<lparr>z_stop := True, n_ready := 0, z_queues := replicate ?n [],
      item_signals := item_signals (u_zip s) @ map (\<lambda>i. (i, Set_Stopped)) [0..<?n]\<rparr>"
  let ?ps = "deliver (map (\<lambda>i. (i, Set_Stopped)) [0..<?n]) (phases s)"
  note s' = fn_completes_eq [OF assms, of sig]
  have ph': "?ps ! i = Res_Closing Set_Stopped" if "i < ?n" for i using that by simp
  then have set: "set ?ps \<subseteq> {Res_Closing Set_Stopped}" by (auto simp: in_set_conv_nth)
  have unf: "unfinished (fn_completes sig s) = {..<?n}" "unfinished s = {..<?n}"
    using ph ph' by (auto simp: unfinished_def s')
  have n: "?n > 0" using used by (cases "phases s") auto
  have nq': "\<not> queued (fn_completes sig s) i" for i using row by (simp add: queued_def s')
  have sel: "u_zip (fn_completes sig s) = ?z" "phases (fn_completes sig s) = ?ps" "u_ran (fn_completes sig s) = Some sig"
    "u_first (fn_completes sig s) = first_emplace sig first_init" "u_tokens (fn_completes sig s) = u_tokens s"
    "u_closed (fn_completes sig s) = u_closed s"
    by (simp_all add: s')
  have some: "{..<?n} \<noteq> {}" using n by auto
  have "queues_ok (fn_completes sig s)" using nq' n by (auto simp: queues_ok_def sel map_replicate_const)
  moreover have "n_pending_ops (u_zip s) = int (card (unfinished s))" "z_completed (u_zip s) = []"
    using inv some unf(2) by (simp_all add: use_inv_def done_ok_def)
  then have "done_ok (fn_completes sig s)"
    unfolding done_ok_def unf(1) sel using set some unf(2) by auto
  moreover have "token_ok (?ps ! i) (u_tokens s i) (i \<in> set (u_closed s))" if "i < ?n" for i
    using tokens that ph' [OF that] by simp
  moreover have "u_closed s = []"
    using inv ph [of "hd (u_closed s)"] by (cases "u_closed s") (auto simp: use_inv_def tokens_ok_def)
  ultimately have "tokens_ok (fn_completes sig s)" by (simp add: tokens_ok_def sel)
  moreover have "row_ok (fn_completes sig s)"
    unfolding row_ok_def unf(1) sel using z set some tokens by auto
  ultimately show ?thesis
    using \<open>queues_ok (fn_completes sig s)\<close> \<open>done_ok (fn_completes sig s)\<close> by (simp add: use_inv_def)
qed

lemma use_stop_inv:
  assumes "use_inv s"
  shows "use_inv (use_stop s)"
proof -
  have sel: "phases (use_stop s) = phases s" "u_zip (use_stop s) = (u_zip s)\<lparr>z_stop := True\<rparr>" "u_tokens (use_stop s) = u_tokens s"
    "u_first (use_stop s) = u_first s" "u_ran (use_stop s) = u_ran s" "u_closed (use_stop s) = u_closed s"
    "u_close_failed (use_stop s) = u_close_failed s" "u_token (use_stop s) = Stoppable True"
    by (simp_all add: use_stop_def)
  have q: "queued (use_stop s) = queued s" by (rule ext) (simp add: queued_def sel)
  have u: "unfinished (use_stop s) = unfinished s" by (simp add: unfinished_def sel)
  have "queues_ok (use_stop s)" using assms by (simp add: use_inv_def queues_ok_def q sel)
  moreover have "done_ok (use_stop s)" using assms by (simp add: use_inv_def done_ok_def u sel)
  moreover have "tokens_ok (use_stop s)" using assms by (simp add: use_inv_def tokens_ok_def sel)
  moreover have "row_ok (use_stop s)"
    using assms by (cases "u_ran s") (simp_all add: use_inv_def row_ok_def u sel stop_requested_def)
  ultimately show ?thesis by (simp add: use_inv_def)
qed

lemma res_done_tokens:
  assumes inv: "use_inv s" and i: "i < length (phases s)" "phases s ! i \<noteq> Res_Done" "phases s ! i \<noteq> Res_Used"
    and closed': "closed' = (if u_tokens s i = None then u_closed s else u_closed s @ [i])"
  shows "tokens_ok ((res_done i sig s)\<lparr>u_closed := closed', u_close_failed := f\<rparr>)"
proof -
  let ?s = "(res_done i sig s)\<lparr>u_closed := closed', u_close_failed := f\<rparr>"
  have tok: "tokens_ok s" and ok: "queues_ok s" "done_ok s" "row_ok s" using inv by (simp_all add: use_inv_def)
  note facts = res_done_facts [OF ok i, of sig]
  have new: "i \<notin> set (u_closed s)" using tok i by (auto simp: tokens_ok_def)
  have "token_ok (phases ?s ! j) (u_tokens ?s j) (j \<in> set (u_closed ?s))" if "j < length (phases s)" for j
  proof -
    have "token_ok (phases s ! j) (u_tokens s j) (j \<in> set (u_closed s))" using tok that by (simp add: tokens_ok_def)
    then show ?thesis using facts that closed' by (cases "phases s ! j") (auto split: if_splits)
  qed
  moreover have "j < length (phases ?s) \<and> phases ?s ! j = Res_Done \<and> u_tokens ?s j \<noteq> None" if "j \<in> set closed'" for j
  proof (cases "j = i")
    case True
    then show ?thesis using facts i that new closed' by (auto split: if_splits)
  next
    case False
    then have "j \<in> set (u_closed s)" using that closed' by (auto split: if_splits)
    then have "j < length (phases s) \<and> phases s ! j = Res_Done \<and> u_tokens s j \<noteq> None" using tok by (simp add: tokens_ok_def)
    then show ?thesis using facts False by auto
  qed
  moreover have "distinct closed'" using tok new closed' by (simp add: tokens_ok_def)
  ultimately show ?thesis using facts by (simp add: tokens_ok_def)
qed

lemma use_step_inv:
  assumes "use_step fin s s'" "use_inv s" "fin Set_Stopped (Set_Value ()) = Set_Stopped"
  shows "use_inv s'"
  using assms(1)
proof cases
  case (opens i t)
  then show ?thesis using res_opened_inv [OF assms(2)] by blast
next
  case (fails i err)
  have ok: "queues_ok s" "done_ok s" "row_ok s" "tokens_ok s" using assms(2) by (simp_all add: use_inv_def)
  have none: "u_tokens s i = None" "u_ran s = None"
    using ok(3,4) fails(2,3) nth_mem [OF fails(2)] by (auto simp: tokens_ok_def row_ok_def split: option.splits)
  let ?sig = "case err of Some e \<Rightarrow> Set_Error e | None \<Rightarrow> set_value_unless_stopped (zip_token s)"
  have "s' = (res_done i ?sig s)\<lparr>u_closed := u_closed s, u_close_failed := u_close_failed s \<or> False\<rparr>" (is "_ = ?s")
    using fails(1,2,3) res_done_facts [OF ok(1-3), of i ?sig] by (simp add: res_open_failed_def)
  moreover have "queues_ok ?s \<and> done_ok ?s \<and> row_ok ?s"
    by (rule res_done_inv [OF ok(1-3)]) (use fails none in auto)
  moreover have "tokens_ok ?s"
    by (rule res_done_tokens [OF assms(2)]) (use fails none in auto)
  ultimately show ?thesis by (simp add: use_inv_def)
next
  case (closes i sig close_sig)
  have ok: "queues_ok s" "done_ok s" "row_ok s" "tokens_ok s" using assms(2) by (simp_all add: use_inv_def)
  have tok: "u_tokens s i \<noteq> None" using ok(4) closes(2,3) by (auto simp: tokens_ok_def)
  have sig: "sig = Set_Stopped" using ok(2) closes(2,3) nth_mem [OF closes(2)] by (auto simp: done_ok_def)
  let ?sig = "final_receiver_complete (zip_token s) (fin sig close_sig)"
  have "s' = (res_done i ?sig s)\<lparr>u_closed := u_closed s @ [i], u_close_failed := u_close_failed s \<or> close_sig \<noteq> Set_Value ()\<rparr>"
    (is "_ = ?s")
    using closes res_done_facts [OF ok(1-3), of i ?sig] by (simp add: res_closed_def Let_def)
  moreover have "u_ran s \<noteq> None \<Longrightarrow> ?sig = Set_Stopped \<or> close_sig \<noteq> Set_Value ()"
    using ok(3) assms(3) sig
    by (auto simp: row_ok_def final_receiver_complete_def set_value_unless_stopped_def zip_token_def)
  then have "queues_ok ?s \<and> done_ok ?s \<and> row_ok ?s"
    by (intro res_done_inv [OF ok(1-3)]) (use closes in auto)
  moreover have "tokens_ok ?s"
    by (rule res_done_tokens [OF assms(2)]) (use closes tok in auto)
  ultimately show ?thesis by (simp add: use_inv_def)
next
  case (runs sig)
  then show ?thesis using fn_completes_inv [OF assms(2)] by simp
next
  case stop
  then show ?thesis using use_stop_inv [OF assms(2)] by simp
qed

lemma use_reach_inv:
  assumes "use_reach fin n token s" "n > 0" "fin Set_Stopped (Set_Value ()) = Set_Stopped"
  shows "use_inv s"
  using assms(1)
proof induction
  case init
  show ?case by (rule use_init_inv [OF assms(2)])
next
  case (step s s')
  then show ?case using use_step_inv assms(3) by blast
qed

lemma deliver_length [simp]: "length (deliver sigs ps) = length ps"
  by (induction sigs arbitrary: ps) (auto simp: deliver_def)

lemma use_reach_length: "use_reach fin n token s \<Longrightarrow> length (phases s) = n"
proof (induction rule: use_reach.induct)
  case init
  then show ?case by (simp add: use_init_def)
next
  case (step s s')
  from step(2,3) show ?case
    by cases (auto simp: res_opened_def res_open_failed_def res_done_def res_closed_def fn_completes_def use_stop_def
        with_zip_def Let_def bind_eq_Some_conv split: prod.splits)
qed

subsection \<open>Resources are closed\<close>


definition sample_finally :: "(unit, 'e) signal \<Rightarrow> (unit, 'e) signal \<Rightarrow> (unit, 'e) signal" where
  "sample_finally sig close_sig = (case close_sig of Set_Value _ \<Rightarrow> sig | _ \<Rightarrow> close_sig)"

text \<open>One resource, with token 7, whose use completes with 42.\<close>

lemma one_resource:
  "\<exists>s. use_reach sample_finally 1 Unstoppable (s :: (nat, nat, nat) use_op) \<and> u_ran s = Some (Set_Value 42) \<and>
     z_completed (u_zip s) = [Set_Value ()] \<and> \<not> u_close_failed s \<and> u_token s = Unstoppable \<and> u_closed s = [0]"
proof -
  let ?fin = "sample_finally :: (unit, nat) signal \<Rightarrow> (unit, nat) signal \<Rightarrow> (unit, nat) signal"
  let ?s0 = "use_init 1 Unstoppable :: (nat, nat, nat) use_op"
  have s0: "use_reach ?fin 1 Unstoppable ?s0" by (simp add: use_reach.init stop_requested_def)
  obtain s1 where s1: "res_opened 0 7 ?s0 = Some s1" "phases s1 = [Res_Used]" "zipped (u_zip s1) = [([0], [7])]"
    "u_ran s1 = None" "u_zip s1 = (u_zip ?s0)\<lparr>zipped := [([0], [7])]\<rparr>" "u_token s1 = Unstoppable"
    "u_close_failed s1 = False" "u_closed s1 = []"
    by (simp add: res_opened_def use_init_def zip_init_def item_set_value_def push_back_item_op_def push_check_def
        push_locked_def notify_result.simps is_front_def fetch_add_ready_def collect_results_def pop_fronts_def
        count_ready_def with_zip_def Let_def)
  have "use_step ?fin ?s0 s1" by (rule use_step.opens [OF _ _ s1(1)]) (simp_all add: use_init_def)
  then have r1: "use_reach ?fin 1 Unstoppable s1" by (rule use_reach.step [OF s0])
  let ?s2 = "fn_completes (Set_Value 42) s1"
  have "use_step ?fin s1 ?s2" by (rule use_step.runs) (simp_all add: s1)
  then have r2: "use_reach ?fin 1 Unstoppable ?s2" by (rule use_reach.step [OF r1])
  have s2: "phases ?s2 = [Res_Closing Set_Stopped]" "u_ran ?s2 = Some (Set_Value 42)" "n_pending_ops (u_zip ?s2) = 1"
    "z_stop (u_zip ?s2)" "z_completed (u_zip ?s2) = []" "u_token ?s2 = Unstoppable" "\<not> u_close_failed ?s2" "u_closed ?s2 = []"
    by (simp_all add: fn_completes_def first_item_def s1 with_zip_def zipped_set_stopped_def notify_stop_def
        complete_all_item_ops_def complete_item_def use_init_def zip_init_def deliver_def Let_def)
  let ?s3 = "res_closed ?fin 0 Set_Stopped (Set_Value ()) ?s2"
  have "use_step ?fin ?s2 ?s3" by (rule use_step.closes) (simp_all add: s2)
  then have "use_reach ?fin 1 Unstoppable ?s3" by (rule use_reach.step [OF r2])
  moreover have "u_ran ?s3 = Some (Set_Value 42)" "z_completed (u_zip ?s3) = [Set_Value ()]" "\<not> u_close_failed ?s3"
    "u_token ?s3 = Unstoppable" "u_closed ?s3 = [0]"
    using s2 by (simp_all add: res_closed_def res_done_def with_zip_def sample_finally_def final_receiver_complete_def
        set_value_unless_stopped_def zip_token_def child_complete_def child_set_stopped_def send_def Let_def)
  ultimately show ?thesis by blast
qed


text \<open>C7 (use_result). When the sender of the function completed, closing did not fail and stop was not requested from outside,
  \<^verbatim>\<open>use_resources\<close> completes with the signal of that sender, whatever that signal is.\<close>

theorem use_resources_result:
  assumes "use_reach fin n token s" "n > 0" "fin Set_Stopped (Set_Value ()) = Set_Stopped"
    and "u_ran s = Some sig" "z_completed (u_zip s) \<noteq> []" "\<not> u_close_failed s" "\<not> stop_requested (u_token s)"
  shows "use_result s = Some ([], Some sig)"
proof -
  have inv: "done_ok s" "row_ok s" using use_reach_inv [OF assms(1-3)] by (simp_all add: use_inv_def)
  have "unfinished s = {}" using inv(1) assms(5) by (auto simp: done_ok_def split: if_splits)
  with inv(2) assms(4,6,7) have "z_completed (u_zip s) = [Set_Value ()]" "u_first s = first_emplace sig first_init"
    by (auto simp: row_ok_def)
  then show ?thesis
    by (simp add: use_result_def first_complete_def first_visit_def first_emplace_def first_cas_def first_init_def
        first_construct_def first_publish_def)
qed

theorem use_resources_result_witness:
  "\<exists>s :: (nat, nat, nat) use_op. use_reach sample_finally 1 Unstoppable s \<and> use_result s = Some ([], Some (Set_Value 42))"
proof -
  obtain s :: "(nat, nat, nat) use_op" where s: "use_reach sample_finally 1 Unstoppable s" "u_ran s = Some (Set_Value 42)"
    "z_completed (u_zip s) = [Set_Value ()]" "\<not> u_close_failed s" "u_token s = Unstoppable"
    using one_resource by blast
  with use_resources_result [OF s(1) _ _ s(2)] show ?thesis by (auto simp: sample_finally_def stop_requested_def)
qed

subsection \<open>The operation ends\<close>

fun phase_rank :: "'e resource_phase \<Rightarrow> nat" where
  "phase_rank Res_Opening = 3"
| "phase_rank Res_Used = 2"
| "phase_rank (Res_Closing _) = 1"
| "phase_rank Res_Done = 0"

definition use_rank :: "('t, 'v, 'e) use_op \<Rightarrow> nat" where
  "use_rank s = sum_list (map phase_rank (phases s)) + (if u_token s = Stoppable False then 1 else 0)"

lemma phase_rank_le: "phase_rank ph \<le> 3"
  by (cases ph) simp_all

lemma ranks_less:
  assumes "length ps' = length ps" "\<And>j. j < length ps \<Longrightarrow> phase_rank (ps' ! j) \<le> phase_rank (ps ! j)"
    "i < length ps" "phase_rank (ps' ! i) < phase_rank (ps ! i)"
  shows "sum_list (map phase_rank ps') < sum_list (map phase_rank ps)"
proof -
  have "(\<Sum>j<length ps. phase_rank (ps' ! j)) < (\<Sum>j<length ps. phase_rank (ps ! j))"
    by (rule sum_strict_mono_ex1) (use assms(2-4) in auto)
  with assms(1) show ?thesis by (simp add: sum_list_sum_nth lessThan_atLeast0)
qed

lemma res_done_rank:
  assumes "use_inv s" "i < length (phases s)" "phases s ! i \<noteq> Res_Done" "phases s ! i \<noteq> Res_Used"
  shows "use_rank (res_done i sig s) < use_rank s"
proof -
  have "queues_ok s" "done_ok s" "row_ok s" using assms(1) by (simp_all add: use_inv_def)
  note facts = res_done_facts [OF this assms(2-4), of sig]
  have "sum_list (map phase_rank (phases (res_done i sig s))) < sum_list (map phase_rank (phases s))"
    by (rule ranks_less [of _ _ i]) (use facts assms(2-4) in \<open>auto; cases "phases s ! i"; simp\<close>)+
  with facts show ?thesis by (simp add: use_rank_def)
qed

lemma use_step_rank:
  assumes inv: "use_inv s" and step: "use_step fin s s'"
  shows "use_rank s' < use_rank s"
  using step
proof cases
  case (opens i t)
  have "phase_rank ph < 3 \<Longrightarrow> sum_list (map phase_rank ((phases s)[i := ph])) < sum_list (map phase_rank (phases s))" for ph
    by (rule ranks_less [of _ _ i]) (use opens(1,2) in \<open>auto simp: nth_list_update\<close>)
  note less = this [of Res_Used] this [of "Res_Closing Set_Stopped"]
  show ?thesis using inv opens(1,2)
    by (cases rule: res_opened_cases [where t = t]) (use opens(3) less in \<open>auto simp: use_rank_def\<close>)
next
  case (fails i err)
  with res_done_rank [OF inv] show ?thesis by (simp add: res_open_failed_def)
next
  case (closes i sig close_sig)
  then have "use_rank (res_closed fin i sig close_sig s) =
      use_rank (res_done i (final_receiver_complete (zip_token s) (fin sig close_sig)) s)"
    by (simp add: res_closed_def use_rank_def Let_def)
  with res_done_rank [OF inv] closes show ?thesis by simp
next
  case (runs sig)
  let ?n = "length (phases s)"
  have used: "set (phases s) = {Res_Used}" using inv runs(2,3) by (auto simp: use_inv_def row_ok_def)
  have ps: "phases (fn_completes sig s) = deliver (map (\<lambda>i. (i, Set_Stopped)) [0..<?n]) (phases s)"
    "u_token (fn_completes sig s) = u_token s"
    by (simp_all add: fn_completes_eq [OF inv runs(2,3)])
  have at: "phases s ! j = Res_Used" if "j < ?n" for j using used nth_mem [OF that] by auto
  moreover have "0 < ?n" using used by (cases "phases s") auto
  ultimately have "sum_list (map phase_rank (phases (fn_completes sig s))) < sum_list (map phase_rank (phases s))"
    unfolding ps by (intro ranks_less [of _ _ 0]) simp_all
  with ps runs(1) show ?thesis by (simp add: use_rank_def)
next
  case stop
  then show ?thesis by (simp add: use_rank_def use_stop_def)
qed

lemma use_done_no_step:
  assumes "use_inv s" "unfinished s = {}" "phases s \<noteq> []"
  shows "\<not> use_step fin s s'"
proof
  have ok: "done_ok s" "row_ok s" using assms(1) by (simp_all add: use_inv_def)
  have all_done: "phases s ! i = Res_Done" if "i < length (phases s)" for i using that assms(2) by (auto simp: unfinished_def)
  have completed: "z_completed (u_zip s) \<noteq> []" using ok(1) assms(2) by (auto simp: done_ok_def)
  assume "use_step fin s s'"
  then show False
  proof cases
    case (runs sig)
    then have "set (phases s) = {Res_Used}" using ok(2) by (auto simp: row_ok_def)
    with all_done [of 0] assms(3) show False using nth_mem [of 0 "phases s"] by auto
  qed (use all_done completed in auto)
qed

lemma use_some_step:
  assumes "use_inv s" "unfinished s \<noteq> {}"
  shows "\<exists>s'. use_step fin s s' \<and> u_token s' = u_token s"
proof -
  have ok: "queues_ok s" "done_ok s" "tokens_ok s" "row_ok s" using assms(1) by (simp_all add: use_inv_def)
  define n where "n = length (phases s)"
  note n = n_def [symmetric]
  obtain i where "i \<in> unfinished s" using assms(2) by blast
  then have i: "i < n" "phases s ! i \<noteq> Res_Done" by (simp_all add: unfinished_def n_def)
  consider j where "j < n" "phases s ! j = Res_Opening" | j sig where "j < n" "phases s ! j = Res_Closing sig"
    | "\<forall>j < n. phases s ! j = Res_Used \<or> phases s ! j = Res_Done"
    by (metis resource_phase.exhaust)
  then show ?thesis
  proof cases
    case 1
    have tok: "u_token (res_open_failed j None s) = u_token s"
      using res_done_facts [OF ok(1,2,4), of j] 1 n by (simp add: res_open_failed_def)
    have "use_step fin s (res_open_failed j None s)" by (rule use_step.fails) (use 1 n in auto)
    with tok show ?thesis by blast
  next
    case 2
    have tok: "u_token (res_closed fin j sig (Set_Value ()) s) = u_token s"
      using res_done_facts [OF ok(1,2,4), of j] 2 n by (simp add: res_closed_def Let_def)
    have "use_step fin s (res_closed fin j sig (Set_Value ()) s)" by (rule use_step.closes) (use 2 n in auto)
    with tok show ?thesis by blast
  next
    case 3
    then have used: "phases s ! i = Res_Used" using i by blast
    then have "Res_Used \<in> set (phases s)" using i(1) n nth_mem by fastforce
    then have "Res_Done \<notin> set (phases s)" using ok(2) by (auto simp: done_ok_def)
    then have all: "phases s ! j = Res_Used" if "j < n" for j using 3 that n nth_mem by fastforce
    obtain j where "j < n" "\<not> queued s j" using ok(1) n by (auto simp: queues_ok_def)
    then have row: "zipped (u_zip s) \<noteq> []" using all n by (auto simp: queued_def)
    moreover have "u_ran s = None" using ok(4) \<open>Res_Used \<in> set (phases s)\<close> by (auto simp: row_ok_def split: option.splits)
    ultimately have "use_step fin s (fn_completes Set_Stopped s)" by (rule use_step.runs)
    moreover have "u_token (fn_completes Set_Stopped s) = u_token s"
      by (simp add: fn_completes_def with_zip_def Let_def split: prod.split)
    ultimately show ?thesis by blast
  qed
qed



subsection \<open>Errors that are lost\<close>



end
