(* ===== verification/Sync_Sequences.thy ===== *)
theory Sync_Sequences
  imports Sequence_Adaptors Scan_Reduce Async_Resource Io_Uring_Correct
begin

text \<open>
  Sequences whose items complete before the call that starts them returns. Such a sequence is a tree: it is done, or
  it gives its receiver an item that completes with a signal, and goes on as the sender that the receiver made of the item
  completes; \<open>Seq_Step\<close> is work without an item. Trees can be infinite. The adaptors of the library make trees of
  trees, with the functions that model their receivers; connecting and subscribing is passing the tree of the child, starting is
  running the tree against what the receiver does with an item.
\<close>

subsection \<open>Trees\<close>

codatatype ('v, 'e) seq =
    Seq_Done "(unit, 'e) signal"
  | Seq_Item "('v, 'e) signal" "next_outcome \<Rightarrow> ('v, 'e) seq"
  | Seq_Step "('v, 'e) seq"

text \<open>A run gives the completion and the state of the receiver; \<open>None\<close> is a run without end.\<close>

partial_function (option) seq_run ::
  "(('v, 'e) signal \<Rightarrow> 's \<Rightarrow> 's \<times> next_outcome) \<Rightarrow> ('v, 'e) seq \<Rightarrow> 's \<Rightarrow> ((unit, 'e) signal \<times> 's) option" where
  "seq_run h t s =
     (case t of
        Seq_Done sig \<Rightarrow> Some (sig, s)
      | Seq_Item i k \<Rightarrow> seq_run h (k (snd (h i s))) (fst (h i s))
      | Seq_Step u \<Rightarrow> seq_run h u s)"

lemma seq_run_simps [simp]:
  "seq_run h (Seq_Done sig) s = Some (sig, s)"
  "seq_run h (Seq_Item i k) s = seq_run h (k (snd (h i s))) (fst (h i s))"
  "seq_run h (Seq_Step u) s = seq_run h u s"
  by (subst seq_run.simps, simp)+

definition outcome_of :: "(unit, 'e) signal \<Rightarrow> next_outcome" where
  "outcome_of sig = (case sig of Set_Value _ \<Rightarrow> Next_Value | _ \<Rightarrow> Next_Stopped)"

subsection \<open>Sources\<close>

text \<open>A buffered sequence, where \<open>rs i\<close> is how the item number \<open>i\<close> completes.\<close>

definition buffered_step ::
  "(size_t \<Rightarrow> 's \<Rightarrow> 's) \<Rightarrow> ('s \<Rightarrow> bool) \<Rightarrow> 'e round \<Rightarrow> 's \<Rightarrow> next_outcome \<Rightarrow> ('s, 'e) bseq" where
  "buffered_step advance empty_data r s outcome =
     next_complete empty_data outcome (connect_throws r) (stop_seen r) (item_complete advance (item_signal r) s)"

fun bseq_signal :: "('s, 'e) bseq \<Rightarrow> (unit, 'e + unit) signal option" where
  "bseq_signal (Running s) = None"
| "bseq_signal (Finished s sig) = Some sig"

primcorec buffered_seq ::
  "(size_t \<Rightarrow> 's \<Rightarrow> 's) \<Rightarrow> ('s \<Rightarrow> bool) \<Rightarrow> (nat \<Rightarrow> 'e round) \<Rightarrow> nat \<Rightarrow> 's \<Rightarrow> (size_t, 'e + unit) seq" where
  "buffered_seq advance empty_data rs i s =
     Seq_Item (lift_error (item_signal (rs i)))
       (\<lambda>r. if bseq_signal (buffered_step advance empty_data (rs i) s r) = None
            then buffered_seq advance empty_data rs (Suc i) (final (buffered_step advance empty_data (rs i) s r))
            else Seq_Done (the (bseq_signal (buffered_step advance empty_data (rs i) s r))))"

definition resource_seq ::
  "((unit, 'e) signal \<Rightarrow> (unit, 'e) signal \<Rightarrow> (unit, 'e) signal) \<Rightarrow> stop_token \<Rightarrow> (unit, 'e) signal \<Rightarrow>
     ('t, 'e) signal \<Rightarrow> ('t, 'e) seq" where
  "resource_seq fin token close_sig open_sig =
     (case open_sig of
        Set_Value t \<Rightarrow> Seq_Item (Set_Value t)
          (\<lambda>r. Seq_Done (final_receiver_complete token
             (fin (case r of Next_Value \<Rightarrow> Set_Value () | Next_Stopped \<Rightarrow> Set_Stopped) close_sig)))
      | Set_Error e \<Rightarrow> Seq_Done (Set_Error e)
      | Set_Stopped \<Rightarrow> Seq_Done (set_value_unless_stopped token))"

subsection \<open>Adaptors\<close>

primcorec scan_seq :: "('t, 'a) fold_fun \<Rightarrow> 't \<Rightarrow> ('a, 'e) seq \<Rightarrow> ('t, 'e + unit) seq" where
  "scan_seq fn value t =
     (case t of
        Seq_Done sig \<Rightarrow> Seq_Done (lift_error (scan_complete sig))
      | Seq_Item i k \<Rightarrow> Seq_Item (snd (scan_item fn i value)) (\<lambda>r. scan_seq fn (fst (scan_item fn i value)) (k r))
      | Seq_Step u \<Rightarrow> Seq_Step (scan_seq fn value u))"

primcorec finally_seq :: "stop_token \<Rightarrow> (unit, 'e) signal \<Rightarrow> ('v, 'e) seq \<Rightarrow> ('v, 'e) seq" where
  "finally_seq token final_sig t =
     (case t of
        Seq_Done sig \<Rightarrow> Seq_Done (finally_run token sig final_sig)
      | Seq_Item i k \<Rightarrow> Seq_Item i (\<lambda>r. finally_seq token final_sig (k r))
      | Seq_Step u \<Rightarrow> Seq_Step (finally_seq token final_sig u))"

text \<open>\<^verbatim>\<open>repeat\<close> subscribes the child \<open>child\<close> again; \<open>t\<close> is what is left of this round.\<close>

fun repeat_signal :: "'e repeat_state \<Rightarrow> (unit, 'e + unit) signal" where
  "repeat_signal Subscribed = Set_Value ()"
| "repeat_signal (Completed sig) = sig"

primcorec repeat_seq :: "stop_token \<Rightarrow> ('v, 'e) seq \<Rightarrow> ('v, 'e) seq \<Rightarrow> ('v, 'e + unit) seq" where
  "repeat_seq token child t =
     (case t of
        Seq_Done sig \<Rightarrow>
          (if repeat_child_complete token False sig = Subscribed then Seq_Step (repeat_seq token child child)
           else Seq_Done (repeat_signal (repeat_child_complete token False sig)))
      | Seq_Item i k \<Rightarrow> Seq_Item (lift_error i) (\<lambda>r. repeat_seq token child (k r))
      | Seq_Step u \<Rightarrow> Seq_Step (repeat_seq token child u))"

text \<open>\<^verbatim>\<open>merge_each\<close> starts its children one after the other; \<open>ts\<close> are those that have not been started.\<close>

primcorec merge_seq :: "stop_token \<Rightarrow> 'e merge \<Rightarrow> ('v, 'e) seq \<Rightarrow> ('v, 'e) seq list \<Rightarrow> ('v, 'e) seq" where
  "merge_seq token m t ts =
     (case t of
        Seq_Done sig \<Rightarrow>
          (case ts of
             [] \<Rightarrow> Seq_Done (hd (m_completed (merge_child_complete token sig m)))
           | u # us \<Rightarrow> Seq_Step (merge_seq token (merge_child_complete token sig m) u us))
      | Seq_Item i k \<Rightarrow> Seq_Item i (\<lambda>r. merge_seq token m (k r) ts)
      | Seq_Step u \<Rightarrow> Seq_Step (merge_seq token m u ts))"

subsection \<open>Senders of one signal\<close>

text \<open>The outer option is a run without end, the inner one reading a result that does not exist.\<close>

definition first_handler :: "('v, 'e) signal \<Rightarrow> ('v, 'e) first_cell \<Rightarrow> ('v, 'e) first_cell \<times> next_outcome" where
  "first_handler sig c = (let (c1, out) = first_item sig c in (c1, outcome_of (out :: (unit, 'e) signal)))"

definition first_seq :: "('v, 'e) seq \<Rightarrow> (('v, 'e) sent \<times> ('v, 'e) signal option) option" where
  "first_seq t = map_option (\<lambda>(sig, c). first_complete sig c) (seq_run first_handler t first_init)"

definition last_handler :: "('v, 'e) signal \<Rightarrow> ('v, 'e) last_cell \<Rightarrow> ('v, 'e) last_cell \<times> next_outcome" where
  "last_handler sig c = (let (c1, out) = last_item sig c in (c1, outcome_of out))"

definition last_seq :: "('v, 'e) seq \<Rightarrow> ('v, 'e) signal option option" where
  "last_seq t = map_option (\<lambda>(sig, c). map_option snd (last_complete sig c)) (seq_run last_handler t last_init)"

definition reduce_seq :: "('t, 'a) fold_fun \<Rightarrow> 't \<Rightarrow> ('a, 'e) seq \<Rightarrow> ('t, 'e + unit) signal option option" where
  "reduce_seq fn init t = last_seq (scan_seq fn init t)"

subsection \<open>Unfolding\<close>

lemma scan_seq_simps [simp]:
  "scan_seq fn v (Seq_Done sig) = Seq_Done (lift_error (scan_complete sig))"
  "scan_seq fn v (Seq_Item i k) =
     Seq_Item (snd (scan_item fn i v)) (\<lambda>r. scan_seq fn (fst (scan_item fn i v)) (k r))"
  "scan_seq fn v (Seq_Step u) = Seq_Step (scan_seq fn v u)"
  by (subst scan_seq.code, simp)+

lemma finally_seq_simps [simp]:
  "finally_seq token f (Seq_Done sig) = Seq_Done (finally_run token sig f)"
  "finally_seq token f (Seq_Item i k) = Seq_Item i (\<lambda>r. finally_seq token f (k r))"
  "finally_seq token f (Seq_Step u) = Seq_Step (finally_seq token f u)"
  by (subst finally_seq.code, simp)+

lemma repeat_seq_simps [simp]:
  "repeat_seq token child (Seq_Done sig) =
     (if repeat_child_complete token False sig = Subscribed then Seq_Step (repeat_seq token child child)
      else Seq_Done (repeat_signal (repeat_child_complete token False sig)))"
  "repeat_seq token child (Seq_Item i k) = Seq_Item (lift_error i) (\<lambda>r. repeat_seq token child (k r))"
  "repeat_seq token child (Seq_Step u) = Seq_Step (repeat_seq token child u)"
  by (subst repeat_seq.code, simp)+

lemma merge_seq_simps [simp]:
  "merge_seq token m (Seq_Done sig) [] = Seq_Done (hd (m_completed (merge_child_complete token sig m)))"
  "merge_seq token m (Seq_Done sig) (u # us) = Seq_Step (merge_seq token (merge_child_complete token sig m) u us)"
  "merge_seq token m (Seq_Item i k) ts = Seq_Item i (\<lambda>r. merge_seq token m (k r) ts)"
  "merge_seq token m (Seq_Step u) ts = Seq_Step (merge_seq token m u ts)"
  by (subst merge_seq.code, simp)+

lemma first_handler_eq: "first_handler sig c = (first_emplace sig c, Next_Stopped)"
  by (simp add: first_handler_def first_item_def outcome_of_def)

lemma last_handler_simps [simp]:
  "last_handler (Set_Value v) c = (last_emplace (Set_Value v) c, Next_Value)"
  "last_handler (Set_Error e) c = (last_emplace (Set_Error e) c, Next_Stopped)"
  "last_handler Set_Stopped c = (last_emplace Set_Stopped c, Next_Stopped)"
  by (simp_all add: last_handler_def last_item_def outcome_of_def)

subsection \<open>What a sequence gives\<close>

text \<open>The items of a sequence whose receiver goes on after every item, and its completion.\<close>

inductive gives :: "('v, 'e) seq \<Rightarrow> ('v, 'e) signal list \<Rightarrow> (unit, 'e) signal \<Rightarrow> bool" where
  finished: "gives (Seq_Done sig) [] sig"
| item: "gives (k Next_Value) items sig \<Longrightarrow> gives (Seq_Item i k) (i # items) sig"
| step: "gives u items sig \<Longrightarrow> gives (Seq_Step u) items sig"

lemma finally_gives: "gives t items sig \<Longrightarrow> gives (finally_seq token f t) items (finally_run token sig f)"
  by (induction rule: gives.induct) (auto intro: gives.intros)

lemma merge_gives:
  assumes "gives t items sig" "ts = [] \<Longrightarrow> rest = [] \<and> out = hd (m_completed (merge_child_complete token sig m))"
    "\<And>u us. ts = u # us \<Longrightarrow> gives (merge_seq token (merge_child_complete token sig m) u us) rest out"
  shows "gives (merge_seq token m t ts) (items @ rest) out"
  using assms
proof (induction rule: gives.induct)
  case (finished sig)
  then show ?case by (cases ts) (auto intro: gives.intros)
qed (auto intro: gives.intros)

lemma merge_list_gives:
  assumes "gives t items sig" "list_all2 (\<lambda>t g. gives t (fst g) (snd g)) ts gs"
  shows "gives (merge_seq token m t ts) (items @ concat (map fst gs))
    (hd (m_completed (merge_children token (sig # map snd gs) m)))"
  using assms(2,1)
proof (induction arbitrary: t items sig m rule: list_all2_induct)
  case Nil
  then show ?case using merge_gives [of t items sig "[]" "[]"] by simp
next
  case (Cons u us g gs)
  have "gives (merge_seq token (merge_child_complete token sig m) u us) (fst g @ concat (map fst gs))
      (hd (m_completed (merge_children token (snd g # map snd gs) (merge_child_complete token sig m))))"
    using Cons.IH [OF Cons.hyps(1)] Cons.hyps(1) by blast
  then show ?case
    using merge_gives [OF Cons.prems, where ts = "u # us" and token = token and m = m and
      rest = "fst g @ concat (map fst gs)"] by simp
qed

text \<open>Remark (sync_merge). Merging sequences that complete synchronously gives the items of the first sequence, then those of the second, and so on,
  and completes with the first error that a sequence completed with, or else as the stop token says.\<close>

theorem merge_concatenates:
  assumes "list_all2 (\<lambda>t g. gives t (fst g) (snd g)) (t # ts) gs"
  shows "gives (merge_seq token (merge_init (length gs)) t ts) (concat (map fst gs))
    (merge_result token (first_error (map snd gs)))"
proof -
  from assms obtain g gs' where gs: "gs = g # gs'" "gives t (fst g) (snd g)" "list_all2 (\<lambda>t g. gives t (fst g) (snd g)) ts gs'"
    by (auto simp: list_all2_Cons1)
  have "m_completed (merge_children token (map snd gs) (merge_init (length gs))) =
      [merge_result token (first_error (map snd gs))]"
    using merge_children_run [of "merge_init (length gs)" "map snd gs" token]
    by (simp add: merge_init_def merge_ok_def Let_def gs(1))
  with merge_list_gives [OF gs(2,3), of token "merge_init (length gs)"] show ?thesis by (simp add: gs(1))
qed

definition give_one :: "'v \<Rightarrow> (unit, 'e) signal \<Rightarrow> ('v, 'e) seq" where
  "give_one v sig = Seq_Item (Set_Value v) (\<lambda>_. Seq_Done sig)"

lemma give_one_gives: "gives (give_one v sig) [Set_Value v] sig"
  by (auto simp: give_one_def intro: gives.intros)

theorem merge_concatenates_witness:
  "gives (merge_seq Unstoppable (merge_init 2) (give_one (1 :: nat) (Set_Value ())) [give_one (3 :: nat) (Set_Error (7 :: nat))])
     [Set_Value 1, Set_Value 3] (Set_Error 7)"
  using merge_concatenates [of "give_one (1 :: nat) (Set_Value ())" "[give_one (3 :: nat) (Set_Error (7 :: nat))]"
      "[([Set_Value 1], Set_Value ()), ([Set_Value 3], Set_Error (7 :: nat))]" Unstoppable]
  by (simp add: give_one_gives merge_result_def numeral_2_eq_2)

subsection \<open>Reduce\<close>

lemma scan_last_run:
  assumes "gives t items sig" "items = map Set_Value as" "folded fn as v = Some r"
  shows "seq_run last_handler (scan_seq fn v t) c =
    Some (lift_error (scan_complete sig), last_items (map Set_Value (partials fn as v)) c)"
  using assms
proof (induction arbitrary: as v c rule: gives.induct)
  case (item k items sig i)
  then obtain a as' where as: "as = a # as'" "i = Set_Value a" "items = map Set_Value as'" by (cases as) auto
  with item.prems obtain v1 where v1: "fn v a = Some v1" "folded fn as' v1 = Some r" by (auto simp: bind_Some_iff)
  with item.IH [OF as(3) v1(2)] as v1 show ?case
    by (simp add: scan_item_def scan_emplace_def last_item_def)
qed simp_all

text \<open>C29 (sync_reduce). \<^verbatim>\<open>reduce\<close> of a sequence that gives values and completes is the left fold of the values, and reads a result that does
  not exist when there are none; after \<^verbatim>\<open>merge_each\<close> it is the fold over all values, sequence by sequence.\<close>

theorem reduce_of_sequences:
  fixes t :: "('b, 'c) seq"
  assumes "list_all2 (\<lambda>t vs. gives t (map Set_Value vs) (Set_Value ())) (t # ts) vss" "folded fn (concat vss) init = Some r"
    "\<not> stop_requested token"
  shows "reduce_seq fn init (merge_seq token (merge_init (length vss)) t ts) =
    Some (if concat vss = [] then None else Some (Set_Value r))"
proof -
  define gs where "gs = map (\<lambda>vs. (map Set_Value vs :: ('b, 'c) signal list, Set_Value () :: (unit, 'c) signal)) vss"
  have "list_all2 (\<lambda>t g. gives t (fst g) (snd g)) (t # ts) gs"
    unfolding gs_def using assms(1) by (simp add: list_all2_map2)
  note merge = merge_concatenates [OF this, of token]
  have "concat (map fst gs) = map Set_Value (concat vss)" unfolding gs_def by (induction vss) simp_all
  moreover have "first_error (map snd gs) = None" unfolding gs_def by (induction vss) simp_all
  moreover have "length gs = length vss" by (simp add: gs_def)
  moreover have "merge_result token None = (Set_Value () :: (unit, 'c) signal)"
    using assms(3) by (simp add: merge_result_def set_value_unless_stopped_def stop_requested_def split: stop_token.splits)
  ultimately have "gives (merge_seq token (merge_init (length vss)) t ts) (map Set_Value (concat vss)) (Set_Value ())"
    using merge by simp
  from scan_last_run [OF this refl assms(2)]
  have run: "seq_run last_handler (scan_seq fn init (merge_seq token (merge_init (length vss)) t ts)) last_init =
      Some (Set_Value (), last_items (map Set_Value (partials fn (concat vss) init)) last_init)"
    by (simp add: scan_complete_def lift_error_def)
  show ?thesis
  proof (cases "concat vss = []")
    case True
    with run show ?thesis by (simp add: reduce_seq_def last_seq_def last_complete_def last_visit_def last_init_def)
  next
    case False
    with partials_last [OF assms(2)] obtain ps where "partials fn (concat vss) init = ps @ [r]"
      by (metis append_butlast_last_id)
    with run False show ?thesis
      by (simp add: reduce_seq_def last_seq_def last_complete_def last_visit_def last_items_values)
  qed
qed

theorem reduce_of_sequences_witness:
  "reduce_seq (\<lambda>t a. Some (t + a)) 10 (merge_seq Unstoppable (merge_init 2)
     (give_one (1 :: int) (Set_Value () :: (unit, nat) signal)) [give_one 5 (Set_Value ())]) = Some (Some (Set_Value 16))"
  using reduce_of_sequences [where fn = "\<lambda>t a. Some (t + a)" and init = "10 :: int" and vss = "[[1], [5]]" and token = Unstoppable and
      t = "give_one (1 :: int) (Set_Value () :: (unit, nat) signal)" and ts = "[give_one 5 (Set_Value ())]"]
  by (simp add: give_one_gives [where sig = "Set_Value ()", simplified] stop_requested_def numeral_2_eq_2)

subsection \<open>Buffered sequences\<close>

lemma buffered_seq_item:
  "buffered_seq advance empty_data rs i s =
     Seq_Item (lift_error (item_signal (rs i)))
       (\<lambda>r. case buffered_step advance empty_data (rs i) s r of
          Running s1 \<Rightarrow> buffered_seq advance empty_data rs (Suc i) s1
        | Finished s1 sig \<Rightarrow> Seq_Done sig)"
  by (subst buffered_seq.code) (rule arg_cong2 [where f = Seq_Item], simp_all add: fun_eq_iff split: bseq.split)

text \<open>The receivers of \<^verbatim>\<open>reduce\<close> go on after an item exactly if it completed with a value and the function did not throw.\<close>

definition goes_on :: "'e round \<Rightarrow> bool" where
  "goes_on r \<longleftrightarrow> next_signal r = (case item_signal r of Set_Value _ \<Rightarrow> Next_Value | _ \<Rightarrow> Next_Stopped)"

lemma reduce_buffered_run:
  assumes "bseq_run advance empty_data rs s = (given, Finished s1 sig)" "\<forall>r \<in> set rs. goes_on r"
    "\<forall>j < length rs. f (i + j) = rs ! j" "\<forall>t n. fn t n \<noteq> None"
  shows "seq_run last_handler (scan_seq fn v (buffered_seq advance empty_data f i s)) c =
    Some (lift_error (scan_complete sig),
      last_items (scan_items fn (map (\<lambda>r. lift_error (item_signal r)) (take (length given) rs)) v) c)"
  using assms(1-3)
proof (induction rs arbitrary: i s given v c)
  case (Cons r rs)
  have f: "f i = r" "\<forall>j < length rs. f (Suc i + j) = rs ! j" using Cons.prems(3) by force+
  show ?case
  proof (cases "item_signal r")
    case (Set_Value n)
    obtain v1 where v1: "fn v n = Some v1" using assms(4) by blast
    have r: "next_signal r = Next_Value" using Cons.prems(2) Set_Value by (simp add: goes_on_def)
    then have round: "buffered_step advance empty_data r s Next_Value = bseq_round advance empty_data r s"
      by (simp add: buffered_step_def bseq_round_def)
    show ?thesis
    proof (cases "bseq_round advance empty_data r s")
      case (Running s2)
      with Cons.prems(1) obtain given2 where g: "bseq_run advance empty_data rs s2 = (given2, Finished s1 sig)" "given = s # given2"
        by (auto split: prod.splits)
      from Cons.IH [OF g(1) _ f(2), of v1 "last_emplace (Set_Value v1) c"] Cons.prems(2) Running round v1 Set_Value f(1) g(2) show ?thesis
        by (subst buffered_seq_item)
          (simp add: lift_error_def scan_item_def scan_emplace_def last_item_def)
    next
      case (Finished s2 sig2)
      with Cons.prems(1) have "given = [s]" "sig2 = sig" by simp_all
      with Finished round v1 Set_Value f(1) show ?thesis
        by (subst buffered_seq_item)
          (simp add: lift_error_def scan_item_def scan_emplace_def last_item_def)
    qed
  next
    case (Set_Error e)
    then have "next_signal r = Next_Stopped" using Cons.prems(2) by (simp add: goes_on_def)
    with Cons.prems(1) Set_Error f(1) show ?thesis
      by (subst buffered_seq_item)
        (auto simp: lift_error_def scan_item_def last_item_def buffered_step_def
          bseq_round_def next_complete_def)
  next
    case Set_Stopped
    then have "next_signal r = Next_Stopped" using Cons.prems(2) by (simp add: goes_on_def)
    with Cons.prems(1) Set_Stopped f(1) show ?thesis
      by (subst buffered_seq_item)
        (auto simp: lift_error_def scan_item_def last_item_def buffered_step_def
          bseq_round_def next_complete_def)
  qed
qed simp

text \<open>C13 (sync_stream). Whole reads and writes of a stream are \<^verbatim>\<open>reduce\<close> of a buffered sequence: when the sequence finishes, the adaptors,
  composed as the code composes them, send the signal that the model of the stream computes from the list of its results.\<close>

theorem stream_is_reduce:
  assumes "bseq_run single_advance (\<lambda>s. cb_empty (s_buffer s)) (map (stream_round stop) results) s = (given, Finished s1 sig)"
  shows "reduce_seq (\<lambda>t n. Some (t + n)) 0
      (buffered_seq single_advance (\<lambda>s. cb_empty (s_buffer s)) (\<lambda>i. stream_round stop (results ! i)) 0 s) =
    Some (snd (stream_transfer submit stop results s))"
proof -
  have items: "(\<lambda>r. lift_error (item_signal r)) \<circ> stream_round stop = (\<lambda>res. lift_error (io_complete res))"
    by (simp add: fun_eq_iff stream_round_def)
  have "seq_run last_handler (scan_seq (\<lambda>t n. Some (t + n)) 0
        (buffered_seq single_advance (\<lambda>s. cb_empty (s_buffer s)) (\<lambda>i. stream_round stop (results ! i)) 0 s)) last_init =
      Some (lift_error (scan_complete sig), last_items (scan_items (\<lambda>t n. Some (t + n))
        (map (\<lambda>r. lift_error (item_signal r)) (take (length given) (map (stream_round stop) results))) 0) last_init)"
    by (rule reduce_buffered_run [OF assms]) (auto simp: goes_on_def stream_round_def)
  moreover have "lift_error (scan_complete sig) = (case scan_complete sig of
      Set_Value _ \<Rightarrow> Set_Value () | Set_Error e \<Rightarrow> Set_Error (Inl e) | Set_Stopped \<Rightarrow> Set_Stopped)"
    by (simp add: lift_error_def split: signal.split)
  ultimately show ?thesis
    by (simp add: reduce_seq_def last_seq_def stream_transfer_def assms reduce_def take_map items)
qed

theorem stream_is_reduce_witness:
  "reduce_seq (\<lambda>t n. Some (t + n)) 0 (buffered_seq single_advance (\<lambda>s. cb_empty (s_buffer s))
      (\<lambda>i. stream_round False ([2, 1] ! i)) 0 \<lparr>s_buffer = cb_make 100 3, s_offset = 0\<rparr>) = Some (Some (Set_Value 3))"
proof -
  let ?s = "\<lparr>s_buffer = cb_make 100 3, s_offset = 0\<rparr>"
  have "\<exists>given s1. bseq_run single_advance (\<lambda>s. cb_empty (s_buffer s)) (map (stream_round False) [2, 1]) ?s =
      (given, Finished s1 (Set_Value ())) \<and> length given = 2"
    by (simp add: stream_round_def io_complete_def bseq_round_def next_complete_def item_complete_def single_advance_def
        cb_advance_def cb_empty_def cb_make_def Let_def)
  then obtain given s1 where run: "bseq_run single_advance (\<lambda>s. cb_empty (s_buffer s)) (map (stream_round False) [2, 1]) ?s =
      (given, Finished s1 (Set_Value ()))" "length given = 2" by blast
  show ?thesis using stream_is_reduce [OF run(1), of "\<lambda>_. submit"] run
    by (simp add: stream_transfer_def io_complete_def lift_error_def reduce_def scan_complete_def scan_item_def
        scan_emplace_def last_item_def last_emplace_def last_init_def last_complete_def last_visit_def numeral_2_eq_2)
qed

subsection \<open>Sequences that never complete\<close>

definition goes_to ::
  "(('v, 'e) signal \<Rightarrow> 's \<Rightarrow> 's \<times> next_outcome) \<Rightarrow> (('v, 'e) seq \<times> 's) set \<Rightarrow> ('v, 'e) seq \<Rightarrow> 's \<Rightarrow> bool" where
  "goes_to h T t s \<longleftrightarrow>
     (case t of
        Seq_Done sig \<Rightarrow> False
      | Seq_Item i k \<Rightarrow> (k (snd (h i s)), fst (h i s)) \<in> T
      | Seq_Step u \<Rightarrow> (u, s) \<in> T)"

lemma seq_run_never:
  assumes "(t, s) \<in> T" "\<And>t s. (t, s) \<in> T \<Longrightarrow> goes_to h T t s"
  shows "seq_run h t s = None"
proof -
  have "h' = h \<longrightarrow> (t, s) \<notin> T" if "seq_run h' t s = Some y" for h' t s y
    using that
  proof (induction h' t s y rule: seq_run.raw_induct)
    case (1 rec h' t s y)
    have IH: "rec h t1 s1 = Some y \<Longrightarrow> seq_run h t1 s1 = Some y \<Longrightarrow> (t1, s1) \<notin> T" for t1 s1 using 1(1) [of h t1 s1 y] by blast
    show ?case using 1(2-) IH assms(2) [of t s] by (cases t) (auto simp: goes_to_def)
  qed (fact that)
  with assms(1) show ?thesis by (metis not_Some_eq)
qed

lemma first_repeat_never:
  assumes child: "child = Seq_Item i k" "k Next_Stopped = Seq_Done (Set_Value ())" and "\<not> stop_requested token"
  shows "seq_run first_handler (repeat_seq token child child) c = None"
proof -
  let ?r = "repeat_seq token child child" and ?r1 = "repeat_seq token child (k Next_Stopped)"
  have r: "?r = Seq_Item (lift_error i) (\<lambda>r. repeat_seq token child (k r))" by (simp add: child(1))
  have r1: "?r1 = Seq_Step ?r"
    using assms(3) by (simp add: child(2) repeat_child_complete_def repeat_again_def)
  show ?thesis
  proof (rule seq_run_never [where T = "{?r, ?r1} \<times> UNIV"])
    show "goes_to first_handler ({?r, ?r1} \<times> UNIV) t c" if "(t, c) \<in> {?r, ?r1} \<times> UNIV" for t c
    proof -
      have "goes_to first_handler ({?r, ?r1} \<times> UNIV) ?r c"
        by (subst r) (simp add: goes_to_def first_handler_eq)
      moreover have "goes_to first_handler ({?r, ?r1} \<times> UNIV) ?r1 c"
        by (subst r1) (simp add: goes_to_def)
      ultimately show ?thesis using that by auto
    qed
  qed simp
qed



end
