(* ===== verification/Item_Operations.thy ===== *)
theory Item_Operations
  imports Sync_Sequences
begin

text \<open>
  The items of \<open>Sync_Sequences\<close> as the objects that the code makes of them. An adaptor wraps the sender of an item in
  an item sender; connecting it makes an item operation that holds a receiver, a pointer into the operation of the sequence
  and the operation of the wrapped sender; starting it starts that one. \<^verbatim>\<open>buffered_sequence\<close> calls its sender
  factory when its item is connected.

  The objects that a sequence keeps between its items are in a world \<open>'w\<close>. An operation is what starting it does to
  the world, \<open>None\<close> when the fuel of the sequence is used up; connecting a sender reads the world and gives an
  operation.
\<close>

subsection \<open>Senders, receivers, operations\<close>

type_synonym 'w operation = "'w \<Rightarrow> 'w option"
type_synonym ('w, 'v, 'e) receiver = "('v, 'e) signal \<Rightarrow> 'w operation"
type_synonym ('w, 'v, 'e) sender = "('w, 'v, 'e) receiver \<Rightarrow> 'w \<Rightarrow> 'w operation"

record ('w, 'c) pointer =
  deref :: "'w \<Rightarrow> 'c"
  assign :: "'c \<Rightarrow> 'w \<Rightarrow> 'w"

record ('w, 'c, 'v, 'e) item_operation_base =
  ib_receiver :: "('w, 'v, 'e) receiver"
  ib_parent :: "('w, 'c) pointer"

record ('w, 'c, 'v, 'e) item_operation = "('w, 'c, 'v, 'e) item_operation_base" +
  io_op :: "'w operation"

record ('w, 'c, 'v, 'e) item_sender =
  is_sender :: "('w, 'v, 'e) sender"
  is_parent :: "('w, 'c) pointer"

text \<open>
  What an item receiver does with a signal is the function of its adaptor, on the part of the world that the pointer
  leads to; then it completes the receiver of its operation.
\<close>

definition item_deliver ::
  "(('v, 'e) signal \<Rightarrow> 'c \<Rightarrow> 'c \<times> ('u, 'f) signal) \<Rightarrow> ('w, 'c, 'u, 'f) item_operation_base \<Rightarrow>
     ('w, 'v, 'e) receiver" where
  "item_deliver handle base sig w =
     (let (c1, out) = handle sig (deref (ib_parent base) w)
      in ib_receiver base out (assign (ib_parent base) c1 w))"

definition item_operation_make ::
  "(('v, 'e) signal \<Rightarrow> 'c \<Rightarrow> 'c \<times> ('u, 'f) signal) \<Rightarrow> ('w, 'c) pointer \<Rightarrow> ('w, 'v, 'e) sender \<Rightarrow>
     ('w, 'u, 'f) receiver \<Rightarrow> 'w \<Rightarrow> ('w, 'c, 'u, 'f) item_operation" where
  "item_operation_make handle parent sndr rcvr w =
     (let base = \<lparr>ib_receiver = rcvr, ib_parent = parent\<rparr>
      in \<lparr>ib_receiver = rcvr, ib_parent = parent, io_op = sndr (item_deliver handle base) w\<rparr>)"

definition item_operation_start :: "('w, 'c, 'u, 'f) item_operation \<Rightarrow> 'w operation" where
  "item_operation_start self = io_op self"

definition last_item_connect ::
  "('w, ('v, 'e) last_cell, 'v, 'e) item_sender \<Rightarrow> ('w, unit, 'e) receiver \<Rightarrow> 'w \<Rightarrow>
     ('w, ('v, 'e) last_cell, unit, 'e) item_operation" where
  "last_item_connect self = item_operation_make last_item (is_parent self) (is_sender self)"

definition scan_item_connect ::
  "('t, 'a) fold_fun \<Rightarrow> ('w, 't, 'a, 'e) item_sender \<Rightarrow> ('w, 't, 'e + unit) receiver \<Rightarrow> 'w \<Rightarrow>
     ('w, 't, 't, 'e + unit) item_operation" where
  "scan_item_connect fn self = item_operation_make (scan_item fn) (is_parent self) (is_sender self)"

definition last_set_next ::
  "('w, ('v, 'e) last_cell) pointer \<Rightarrow> ('w, 'v, 'e) sender \<Rightarrow> ('w, unit, 'e) sender" where
  "last_set_next result item rcvr w =
     item_operation_start (last_item_connect \<lparr>is_sender = item, is_parent = result\<rparr> rcvr w)"

definition scan_set_next ::
  "('t, 'a) fold_fun \<Rightarrow> ('w, 't) pointer \<Rightarrow> (('w, 't, 'e + unit) sender \<Rightarrow> 'n) \<Rightarrow> ('w, 'a, 'e) sender \<Rightarrow> 'n" where
  "scan_set_next fn data next item =
     next (\<lambda>rcvr w. item_operation_start (scan_item_connect fn \<lparr>is_sender = item, is_parent = data\<rparr> rcvr w))"

subsection \<open>A buffered sequence\<close>

text \<open>
  The sequence calls \<open>sb_factory\<close> with what is left of the buffers. Its receiver makes the next sender of an
  item, is completed with a signal, and has a stop token.
\<close>

record ('w, 's, 'e) sequence_op_base =
  sb_factory :: "'s \<Rightarrow> ('w, size_t, 'e) sender"
  sb_buffer :: "('w, 's) pointer"

record ('w, 'v, 'e, 'f) sequence_receiver =
  sr_set_next :: "('w, 'v, 'e) sender \<Rightarrow> ('w, unit, 'f) sender"
  sr_complete :: "(unit, 'e) signal \<Rightarrow> 'w operation"
  sr_token :: stop_token

definition make_sender :: "('w, 's, 'e) sequence_op_base \<Rightarrow> 'w \<Rightarrow> ('w, size_t, 'e) sender" where
  "make_sender self w = sb_factory self (deref (sb_buffer self) w)"

definition buffered_item_connect ::
  "(size_t \<Rightarrow> 's \<Rightarrow> 's) \<Rightarrow> ('w, 's, 'e) sequence_op_base \<Rightarrow> ('w, size_t, 'e) receiver \<Rightarrow> 'w \<Rightarrow>
     ('w, 's, size_t, 'e) item_operation" where
  "buffered_item_connect advance self rcvr w =
     item_operation_make (\<lambda>sig s. (item_complete advance sig s, sig)) (sb_buffer self) (make_sender self w) rcvr w"

definition connect_next ::
  "(size_t \<Rightarrow> 's \<Rightarrow> 's) \<Rightarrow> ('w, 's, 'e) sequence_op_base \<Rightarrow> ('w, size_t, 'e, 'f) sequence_receiver \<Rightarrow>
     ('w, unit, 'f) receiver \<Rightarrow> 'w \<Rightarrow> 'w operation" where
  "connect_next advance self rcvr next_receiver w =
     sr_set_next rcvr (\<lambda>r w1. item_operation_start (buffered_item_connect advance self r w1)) next_receiver w"

text \<open>The fuel bounds how often the next item is connected. Connecting does not throw here.\<close>

primrec next_receiver ::
  "nat \<Rightarrow> (size_t \<Rightarrow> 's \<Rightarrow> 's) \<Rightarrow> ('s \<Rightarrow> bool) \<Rightarrow> ('w, 's, 'e) sequence_op_base \<Rightarrow>
     ('w, size_t, 'e, 'f) sequence_receiver \<Rightarrow> ('w, unit, 'f) receiver" where
  "next_receiver 0 advance empty_data self rcvr = (\<lambda>sig w. None)"
| "next_receiver (Suc k) advance empty_data self rcvr = (\<lambda>sig w.
     case sig of
       Set_Value _ \<Rightarrow>
         (if empty_data (deref (sb_buffer self) w) then sr_complete rcvr (Set_Value ()) w
          else connect_next advance self rcvr (next_receiver k advance empty_data self rcvr) w w)
     | _ \<Rightarrow> sr_complete rcvr (set_value_unless_stopped (sr_token rcvr)) w)"

text \<open>The constructor connects the first item, and \<^verbatim>\<open>start\<close> starts it.\<close>

definition sequence_op_run ::
  "nat \<Rightarrow> (size_t \<Rightarrow> 's \<Rightarrow> 's) \<Rightarrow> ('s \<Rightarrow> bool) \<Rightarrow> ('w, 's, 'e) sequence_op_base \<Rightarrow>
     ('w, size_t, 'e, 'f) sequence_receiver \<Rightarrow> 'w operation" where
  "sequence_op_run k advance empty_data self rcvr w =
     connect_next advance self rcvr (next_receiver k advance empty_data self rcvr) w w"

subsection \<open>Reduce of a buffered sequence\<close>

text \<open>
  The objects of \<^verbatim>\<open>reduce\<close> over a buffered sequence, that is \<^verbatim>\<open>last\<close> over \<^verbatim>\<open>scan\<close>: the buffers, the value of the fold, the
  result, how many operations the factory made, and what the receiver was sent (\<open>Some None\<close> is a result that does not
  exist).
\<close>

record ('s, 't, 'e) reduce_world =
  rw_buffer :: 's
  rw_value :: 't
  rw_result :: "('t, 'e + unit) last_cell"
  rw_made :: nat
  rw_sent :: "('t, 'e + unit) signal option option"

definition bytes_ptr :: "(('s, 't, 'e) reduce_world, 's) pointer" where
  "bytes_ptr = \<lparr>deref = rw_buffer, assign = (\<lambda>c. rw_buffer_update (\<lambda>_. c))\<rparr>"

definition value_ptr :: "(('s, 't, 'e) reduce_world, 't) pointer" where
  "value_ptr = \<lparr>deref = rw_value, assign = (\<lambda>c. rw_value_update (\<lambda>_. c))\<rparr>"

definition result_ptr :: "(('s, 't, 'e) reduce_world, ('t, 'e + unit) last_cell) pointer" where
  "result_ptr = \<lparr>deref = rw_result, assign = (\<lambda>c. rw_result_update (\<lambda>_. c))\<rparr>"

definition reduce_receiver ::
  "('t, size_t) fold_fun \<Rightarrow> stop_token \<Rightarrow> (('s, 't, 'e) reduce_world, size_t, 'e, 'e + unit) sequence_receiver" where
  "reduce_receiver fn token =
     \<lparr>sr_set_next = scan_set_next fn value_ptr (last_set_next result_ptr),
      sr_complete = (\<lambda>sig w. Some (w\<lparr>rw_sent :=
        Some (map_option snd (last_complete (lift_error (scan_complete sig)) (rw_result w)))\<rparr>)),
      sr_token = token\<rparr>"

definition reduce_start_world :: "'s \<Rightarrow> 't \<Rightarrow> ('s, 't, 'e) reduce_world" where
  "reduce_start_world s init =
     \<lparr>rw_buffer = s, rw_value = init, rw_result = last_init, rw_made = 0, rw_sent = None\<rparr>"

definition reduce_run ::
  "nat \<Rightarrow> (size_t \<Rightarrow> 's \<Rightarrow> 's) \<Rightarrow> ('s \<Rightarrow> bool) \<Rightarrow> ('s \<Rightarrow> (('s, 't, 'e) reduce_world, size_t, 'e) sender) \<Rightarrow>
     ('t, size_t) fold_fun \<Rightarrow> stop_token \<Rightarrow> ('s, 't, 'e) reduce_world operation" where
  "reduce_run k advance empty_data factory fn token =
     sequence_op_run k advance empty_data \<lparr>sb_factory = factory, sb_buffer = bytes_ptr\<rparr> (reduce_receiver fn token)"

subsection \<open>One item\<close>

text \<open>What the model relies on: the operation number \<open>i\<close> of the factory completes inline, with the signal of \<open>rs i\<close>.\<close>

definition completes_inline ::
  "('s \<Rightarrow> (('s, 't, 'e + unit) reduce_world, size_t, 'e + unit) sender) \<Rightarrow> (nat \<Rightarrow> 'e round) \<Rightarrow> bool" where
  "completes_inline factory rs \<longleftrightarrow> (\<forall>s rcvr w w1. factory s rcvr w w1 =
     rcvr (lift_error (item_signal (rs (rw_made w1)))) (w1\<lparr>rw_made := Suc (rw_made w1)\<rparr>))"

lemma item_complete_lift [simp]: "item_complete advance (lift_error sig) s = item_complete advance sig s"
  by (cases sig) (simp_all add: item_complete_def lift_error_def)

lemma reduce_item:
  assumes "completes_inline factory rs"
  shows "connect_next advance \<lparr>sb_factory = factory, sb_buffer = bytes_ptr\<rparr> (reduce_receiver fn token) nr w w1 =
    (let sig = item_signal (rs (rw_made w1));
         (v1, scanned) = scan_item fn (lift_error sig) (rw_value w1);
         (c1, out) = last_item scanned (rw_result w1)
     in nr out (w1\<lparr>rw_made := Suc (rw_made w1), rw_buffer := item_complete advance sig (rw_buffer w1),
          rw_value := v1, rw_result := c1\<rparr>))"
  using assms
  by (simp add: completes_inline_def connect_next_def reduce_receiver_def scan_set_next_def last_set_next_def
      last_item_connect_def scan_item_connect_def buffered_item_connect_def item_operation_make_def
      item_operation_start_def item_deliver_def make_sender_def bytes_ptr_def value_ptr_def result_ptr_def
      Let_def split: prod.split)

lemma buffered_tree:
  "seq_run h (scan_seq fn v (buffered_seq advance empty_data rs i s)) c =
     (let (v1, scanned) = scan_item fn (lift_error (item_signal (rs i))) v;
          (c1, outcome) = h scanned c
      in case buffered_step advance empty_data (rs i) s outcome of
           Running s1 \<Rightarrow> seq_run h (scan_seq fn v1 (buffered_seq advance empty_data rs (Suc i) s1)) c1
         | Finished s1 sig \<Rightarrow> Some (lift_error (scan_complete sig), c1))"
  by (subst buffered_seq.code) (auto split: prod.split bseq.split)

lemma last_item_cases:
  obtains c1 where "last_item sig c = (c1, Set_Value ())" "last_handler sig c = (c1, Next_Value)"
  | c1 where "last_item sig c = (c1, Set_Stopped)" "last_handler sig c = (c1, Next_Stopped)"
  by (cases sig) (simp_all add: last_item_def)

abbreviation world_of :: "nat \<Rightarrow> 's \<Rightarrow> 't \<Rightarrow> ('t, 'e + unit) last_cell \<Rightarrow> ('s, 't, 'e) reduce_world" where
  "world_of i s v c \<equiv> \<lparr>rw_buffer = s, rw_value = v, rw_result = c, rw_made = i, rw_sent = None\<rparr>"

abbreviation reduce_tree ::
  "(size_t \<Rightarrow> 's \<Rightarrow> 's) \<Rightarrow> ('s \<Rightarrow> bool) \<Rightarrow> ('t, size_t) fold_fun \<Rightarrow> (nat \<Rightarrow> 'e round) \<Rightarrow> nat \<Rightarrow> 's \<Rightarrow> 't \<Rightarrow>
     ('t, ('e + unit) + unit) last_cell \<Rightarrow> ((unit, ('e + unit) + unit) signal \<times> ('t, ('e + unit) + unit) last_cell) option" where
  "reduce_tree advance empty_data fn rs i s v c \<equiv>
     seq_run last_handler (scan_seq fn v (buffered_seq advance empty_data rs i s)) c"

text \<open>A round of the objects is a step of the tree.\<close>

lemma reduce_run_unfold:
  assumes "completes_inline factory rs" "scan_item fn (lift_error (item_signal (rs i))) v = (v1, scanned)"
    "last_item scanned c = (c1, out)"
  shows "reduce_run k advance empty_data factory fn token (world_of i s v c) =
    next_receiver k advance empty_data \<lparr>sb_factory = factory, sb_buffer = bytes_ptr\<rparr> (reduce_receiver fn token) out
      (world_of (Suc i) (item_complete advance (item_signal (rs i)) s) v1 c1)"
  using assms by (simp add: reduce_run_def sequence_op_run_def reduce_item)

lemma reduce_receiver_simps:
  "deref bytes_ptr = rw_buffer" "sr_token (reduce_receiver fn token) = token"
  "sr_complete (reduce_receiver fn token) sig w = Some (w\<lparr>rw_sent :=
     Some (map_option snd (last_complete (lift_error (scan_complete sig)) (rw_result w)))\<rparr>)"
  by (simp_all add: bytes_ptr_def reduce_receiver_def)

lemma set_value_unless_stopped_if:
  "set_value_unless_stopped token = (if stop_requested token then Set_Stopped else Set_Value ())"
  by (auto simp: set_value_unless_stopped_def stop_requested_def split: stop_token.split)

lemma reduce_run_step:
  assumes "completes_inline factory rs" "\<And>i. \<not> connect_throws (rs i)" "\<And>i. stop_seen (rs i) = stop_requested token"
  obtains
    (ends) sig s' v' c' where "reduce_tree advance empty_data fn rs i s v c = Some (sig, c')"
      "\<And>k. reduce_run (Suc k) advance empty_data factory fn token (world_of i s v c) =
         Some (world_of (Suc i) s' v' c'\<lparr>rw_sent := Some (map_option snd (last_complete sig c'))\<rparr>)"
  | (goes_on) s' v' c' where
      "\<exists>sg k. scan_seq fn v (buffered_seq advance empty_data rs i s) = Seq_Item sg k \<and>
         last_handler sg c = (c', Next_Value) \<and> k Next_Value = scan_seq fn v' (buffered_seq advance empty_data rs (Suc i) s')"
      "\<And>k. reduce_run (Suc k) advance empty_data factory fn token (world_of i s v c) =
         reduce_run k advance empty_data factory fn token (world_of (Suc i) s' v' c')"
proof -
  let ?s1 = "item_complete advance (item_signal (rs i)) s"
  obtain v1 scanned where scan: "scan_item fn (lift_error (item_signal (rs i))) v = (v1, scanned)" by fastforce
  note tree = buffered_tree [of last_handler fn v advance empty_data rs i s c, unfolded scan]
  show ?thesis
  proof (cases scanned c rule: last_item_cases)
    case (1 c1)
    note run = reduce_run_unfold [OF assms(1) scan 1(1)]
    show ?thesis
    proof (cases "empty_data ?s1")
      case True
      show ?thesis
        by (rule ends [where sig = "lift_error (scan_complete (Set_Value ()))" and c' = c1 and s' = ?s1 and v' = v1])
          (use True 1 in \<open>simp_all add: tree run buffered_step_def next_complete_def reduce_receiver_simps\<close>)
    next
      case False
      then have next_k: "reduce_run (Suc k) advance empty_data factory fn token (world_of i s v c) =
          reduce_run k advance empty_data factory fn token (world_of (Suc i) ?s1 v1 c1)" for k
        by (subst run) (simp add: reduce_receiver_simps reduce_run_def sequence_op_run_def)
      show ?thesis
        by (rule goes_on [where s' = ?s1 and v' = v1 and c' = c1])
          (use False 1 assms(2) in \<open>simp_all add: next_k buffered_seq.code [of _ _ _ i] scan buffered_step_def next_complete_def\<close>)
    qed
  next
    case (2 c1)
    note run = reduce_run_unfold [OF assms(1) scan 2(1)]
    show ?thesis
      by (rule ends [where sig = "lift_error (scan_complete (set_value_unless_stopped token))" and c' = c1 and s' = ?s1 and v' = v1])
        (use 2 assms(3) in \<open>simp_all add: tree run buffered_step_def next_complete_def reduce_receiver_simps
             set_value_unless_stopped_if\<close>)
  qed
qed

subsection \<open>All rounds\<close>

lemma reduce_run_tree:
  assumes "completes_inline factory rs" "\<And>i. \<not> connect_throws (rs i)" "\<And>i. stop_seen (rs i) = stop_requested token"
    "reduce_run k advance empty_data factory fn token (world_of i s v c) = Some w"
  shows "\<exists>sig c'. reduce_tree advance empty_data fn rs i s v c = Some (sig, c') \<and>
    rw_sent w = Some (map_option snd (last_complete sig c'))"
  using assms(4)
proof (induction k arbitrary: i s v c)
  case 0
  obtain v1 scanned c1 out where "scan_item fn (lift_error (item_signal (rs i))) v = (v1, scanned)"
    "last_item scanned c = (c1, out)" by fastforce
  from reduce_run_unfold [OF assms(1) this, of 0] 0 show ?case by simp
next
  case (Suc k)
  show ?case
  proof (rule reduce_run_step [OF assms(1-3)])
    fix s' v' c'
    assume "\<exists>sg k. scan_seq fn v (buffered_seq advance empty_data rs i s) = Seq_Item sg k \<and>
        last_handler sg c = (c', Next_Value) \<and> k Next_Value = scan_seq fn v' (buffered_seq advance empty_data rs (Suc i) s')"
      and "\<And>k. reduce_run (Suc k) advance empty_data factory fn token (world_of i s v c) =
        reduce_run k advance empty_data factory fn token (world_of (Suc i) s' v' c')"
    with Suc.IH [where i = "Suc i" and s = s' and v = v' and c = c'] Suc.prems show ?thesis by auto
  next
    fix sig s' v' c'
    assume "reduce_tree advance empty_data fn rs i s v c = Some (sig, c')"
      and "\<And>k. reduce_run (Suc k) advance empty_data factory fn token (world_of i s v c) =
        Some (world_of (Suc i) s' v' c'\<lparr>rw_sent := Some (map_option snd (last_complete sig c'))\<rparr>)"
    with Suc.prems show ?thesis by auto
  qed
qed

text \<open>The runs of a tree that end.\<close>

inductive seq_ends :: "(('v, 'e) signal \<Rightarrow> 's \<Rightarrow> 's \<times> next_outcome) \<Rightarrow> ('v, 'e) seq \<Rightarrow> 's \<Rightarrow> bool"
  for h :: "('v, 'e) signal \<Rightarrow> 's \<Rightarrow> 's \<times> next_outcome"
where
  finished: "seq_ends h (Seq_Done sig) s"
| item: "seq_ends h (k (snd (h i s))) (fst (h i s)) \<Longrightarrow> seq_ends h (Seq_Item i k) s"
| step: "seq_ends h u s \<Longrightarrow> seq_ends h (Seq_Step u) s"

lemma seq_run_ends: "seq_run h t s = Some y \<Longrightarrow> seq_ends h t s"
  by (rule seq_run.raw_induct [where P = "\<lambda>h t s y. seq_ends h t s"])
    (auto split: seq.splits intro: seq_ends.intros)

lemma tree_reduce_run:
  assumes "completes_inline factory rs" "\<And>i. \<not> connect_throws (rs i)" "\<And>i. stop_seen (rs i) = stop_requested token"
    "seq_ends last_handler (scan_seq fn v (buffered_seq advance empty_data rs i s)) c"
  shows "\<exists>k w. reduce_run k advance empty_data factory fn token (world_of i s v c) = Some w"
  using assms(4)
proof (induction "scan_seq fn v (buffered_seq advance empty_data rs i s)" c arbitrary: v i s rule: seq_ends.induct)
  case (item k sg c)
  show ?case
  proof (rule reduce_run_step [OF assms(1-3)])
    fix s' v' c'
    assume tree: "\<exists>sg k. scan_seq fn v (buffered_seq advance empty_data rs i s) = Seq_Item sg k \<and>
        last_handler sg c = (c', Next_Value) \<and> k Next_Value = scan_seq fn v' (buffered_seq advance empty_data rs (Suc i) s')"
      and run: "\<And>k. reduce_run (Suc k) advance empty_data factory fn token (world_of i s v c) =
        reduce_run k advance empty_data factory fn token (world_of (Suc i) s' v' c')"
    from tree item.hyps(3) have "k (snd (last_handler sg c)) = scan_seq fn v' (buffered_seq advance empty_data rs (Suc i) s')"
      "fst (last_handler sg c) = c'" by auto
    with item.hyps(2) obtain k w where "reduce_run k advance empty_data factory fn token (world_of (Suc i) s' v' c') = Some w"
      by metis
    with run [of k] show ?thesis by auto
  qed blast
qed (simp_all add: buffered_seq.code [of _ _ _ _ s for s])

text \<open>C14 (item_operations). Starting \<^verbatim>\<open>reduce\<close> of a buffered sequence, with the operations and receivers that connecting its items makes, sends its
  receiver just what the tree of the sequence gives: the same completion when the tree ends, and nothing when it does not.\<close>

theorem item_operations_refine:
  assumes "completes_inline factory rs" "\<And>i. \<not> connect_throws (rs i)" "\<And>i. stop_seen (rs i) = stop_requested token"
  shows "reduce_seq fn init (buffered_seq advance empty_data rs 0 s) = Some r \<longleftrightarrow>
    (\<exists>k w. reduce_run k advance empty_data factory fn token (reduce_start_world s init) = Some w \<and> rw_sent w = Some r)"
proof
  assume "reduce_seq fn init (buffered_seq advance empty_data rs 0 s) = Some r"
  then obtain sig c where tree: "reduce_tree advance empty_data fn rs 0 s init last_init = Some (sig, c)"
    "r = map_option snd (last_complete sig c)" by (auto simp: reduce_seq_def last_seq_def)
  from tree_reduce_run [OF assms seq_run_ends [OF tree(1)]] obtain k w where
    "reduce_run k advance empty_data factory fn token (world_of 0 s init last_init) = Some w" by blast
  with reduce_run_tree [OF assms this] tree
  show "\<exists>k w. reduce_run k advance empty_data factory fn token (reduce_start_world s init) = Some w \<and> rw_sent w = Some r"
    by (auto simp: reduce_start_world_def)
next
  assume "\<exists>k w. reduce_run k advance empty_data factory fn token (reduce_start_world s init) = Some w \<and> rw_sent w = Some r"
  then obtain k w where "reduce_run k advance empty_data factory fn token (world_of 0 s init last_init) = Some w"
    "rw_sent w = Some r" by (auto simp: reduce_start_world_def)
  with reduce_run_tree [OF assms this(1)] show "reduce_seq fn init (buffered_seq advance empty_data rs 0 s) = Some r"
    by (auto simp: reduce_seq_def last_seq_def)
qed

text \<open>Five bytes that two operations transfer.\<close>

definition inline_factory ::
  "(nat \<Rightarrow> 'e round) \<Rightarrow> 's \<Rightarrow> (('s, 't, 'e + unit) reduce_world, size_t, 'e + unit) sender" where
  "inline_factory rs s rcvr w w1 =
     rcvr (lift_error (item_signal (rs (rw_made w1)))) (w1\<lparr>rw_made := Suc (rw_made w1)\<rparr>)"

definition two_rounds :: "nat \<Rightarrow> nat round" where
  "two_rounds i = \<lparr>item_signal = Set_Value (if i = 0 then 3 else 2), next_signal = Next_Value,
     connect_throws = False, stop_seen = False\<rparr>"

theorem item_operations_refine_witness:
  "\<exists>k w. reduce_run k (\<lambda>n s. s - unat n) (\<lambda>s. s = 0) (inline_factory two_rounds)
     (\<lambda>t a. Some (t + unat a)) Unstoppable (reduce_start_world (5 :: nat) (0 :: nat)) = Some w \<and>
     rw_sent w = Some (Some (Set_Value 5))"
proof -
  have inline: "completes_inline (inline_factory two_rounds :: nat \<Rightarrow> ((nat, nat, nat + unit) reduce_world, size_t, nat + unit) sender)
      two_rounds"
    by (simp add: completes_inline_def inline_factory_def)
  have tree: "reduce_seq (\<lambda>t a. Some (t + unat a)) (0 :: nat)
      (buffered_seq (\<lambda>n s. s - unat n) (\<lambda>s. s = 0) two_rounds 0 (5 :: nat)) = Some (Some (Set_Value 5))"
    by (simp add: reduce_seq_def last_seq_def buffered_tree two_rounds_def scan_item_def scan_emplace_def lift_error_def
        buffered_step_def next_complete_def item_complete_def last_emplace_def last_init_def last_complete_def last_visit_def
        scan_complete_def)
  have rounds: "\<not> connect_throws (two_rounds i)" "stop_seen (two_rounds i) = stop_requested Unstoppable" for i
    by (simp_all add: two_rounds_def stop_requested_def)
  show ?thesis by (rule iffD1 [OF item_operations_refine [OF inline rounds] tree])
qed

end
