(* ===== verification/Each_Adaptors.thy ===== *)
theory Each_Adaptors
  imports Sync_Sequences
begin

text \<open>
  \<^verbatim>\<open>sequence/then_each.hpp\<close> and \<^verbatim>\<open>sequence/let_value_each.hpp\<close>: a sequence whose class has a function of its own for
  the adaptor is given to that; any other is given to \<^verbatim>\<open>transform_each\<close> of the third-party library, with its sender adaptor
  \<^verbatim>\<open>then\<close> or \<^verbatim>\<open>let_value\<close>. What a class provides and the three functions of the library are parameters; a sender adaptor is
  what it makes of the signal of an item.
\<close>

subsection \<open>The adaptors\<close>

type_synonym ('v, 'u, 'e) signal_map = "('v, 'e) signal \<Rightarrow> ('u, 'e) signal"
type_synonym ('v, 'u, 'e) each_fun = "('v, 'e) seq \<Rightarrow> ('v, 'u, 'e) signal_map \<Rightarrow> ('u, 'e) seq"

text \<open>\<open>customized\<close> is the function that \<^verbatim>\<open>tag_invoke\<close> finds for the class of the sequence, if there is one.\<close>

definition then_each ::
  "(('v, 'e) seq \<Rightarrow> 'fn \<Rightarrow> ('u, 'e) seq) option \<Rightarrow> ('v, 'u, 'e) each_fun \<Rightarrow> ('fn \<Rightarrow> ('v, 'u, 'e) signal_map) \<Rightarrow>
     ('v, 'e) seq \<Rightarrow> 'fn \<Rightarrow> ('u, 'e) seq" where
  "then_each customized transform_each then_sender sender fn =
     (case customized of
        Some tag_invoke \<Rightarrow> tag_invoke sender fn
      | None \<Rightarrow> transform_each sender (then_sender fn))"

definition let_value_each ::
  "(('v, 'e) seq \<Rightarrow> 'fn \<Rightarrow> ('u, 'e) seq) option \<Rightarrow> ('v, 'u, 'e) each_fun \<Rightarrow> ('fn \<Rightarrow> ('v, 'u, 'e) signal_map) \<Rightarrow>
     ('v, 'e) seq \<Rightarrow> 'fn \<Rightarrow> ('u, 'e) seq" where
  "let_value_each customized transform_each let_value sender fn =
     (case customized of
        Some tag_invoke \<Rightarrow> tag_invoke sender fn
      | None \<Rightarrow> transform_each sender (let_value fn))"

subsection \<open>What they rely on\<close>

text \<open>
  \<^verbatim>\<open>transform_each\<close> gives each item with its signal adapted and completes as the sequence does; \<^verbatim>\<open>then\<close> applies its function to
  a value, and \<^verbatim>\<open>let_value\<close> completes as the sender that its function makes of it. Other signals pass.
\<close>

definition transforms_items :: "('v, 'u, 'e) each_fun \<Rightarrow> bool" where
  "transforms_items transform_each \<longleftrightarrow>
     (\<forall>t items sig adapt. gives t items sig \<longrightarrow> gives (transform_each t adapt) (map adapt items) sig)"

definition applies_function :: "(('v \<Rightarrow> 'u) \<Rightarrow> ('v, 'u, 'e) signal_map) \<Rightarrow> bool" where
  "applies_function then_sender \<longleftrightarrow> (\<forall>f v. then_sender f (Set_Value v) = Set_Value (f v))"

definition completes_as_made :: "(('v \<Rightarrow> ('u, 'e) signal) \<Rightarrow> ('v, 'u, 'e) signal_map) \<Rightarrow> bool" where
  "completes_as_made let_value \<longleftrightarrow> (\<forall>f v. let_value f (Set_Value v) = f v)"

lemma then_each_gives:
  assumes "transforms_items transform_each" "applies_function then_sender" "gives t (map Set_Value vs) sig"
  shows "gives (then_each None transform_each then_sender t f) (map Set_Value (map f vs)) sig"
proof -
  from assms(1,3) have "gives (transform_each t (then_sender f)) (map (then_sender f) (map Set_Value vs)) sig"
    unfolding transforms_items_def by blast
  moreover have "map (then_sender f) (map Set_Value vs) = map Set_Value (map f vs)"
    using assms(2) by (simp add: applies_function_def)
  ultimately show ?thesis by (simp only: then_each_def option.case)
qed

lemma let_value_each_gives:
  assumes "transforms_items transform_each" "completes_as_made let_value" "gives t (map Set_Value vs) sig"
  shows "gives (let_value_each None transform_each let_value t f) (map f vs) sig"
proof -
  from assms(1,3) have "gives (transform_each t (let_value f)) (map (let_value f) (map Set_Value vs)) sig"
    unfolding transforms_items_def by blast
  moreover have "map (let_value f) (map Set_Value vs) = map f vs"
    using assms(2) by (simp add: completes_as_made_def)
  ultimately show ?thesis by (simp only: let_value_each_def option.case)
qed

lemma reduce_gives:
  assumes "gives t (map Set_Value vs) (Set_Value ())" "folded fn vs init = Some r"
  shows "reduce_seq fn init t = Some (if vs = [] then None else Some (Set_Value r))"
proof -
  have run: "seq_run last_handler (scan_seq fn init t) last_init =
      Some (Set_Value (), last_items (map Set_Value (partials fn vs init)) last_init)"
    using scan_last_run [OF assms(1) refl assms(2), of last_init] by (simp add: scan_complete_def lift_error_def)
  show ?thesis
  proof (cases "vs = []")
    case True
    with run show ?thesis by (simp add: reduce_seq_def last_seq_def last_complete_def last_visit_def last_init_def)
  next
    case False
    with partials_last [OF assms(2)] obtain ps where "partials fn vs init = ps @ [r]"
      by (metis append_butlast_last_id)
    with run False show ?thesis
      by (simp add: reduce_seq_def last_seq_def last_complete_def last_visit_def last_items_values)
  qed
qed

text \<open>Remark (then_each). Reducing a sequence after \<^verbatim>\<open>then_each\<close> folds the images of its values; with \<^verbatim>\<open>let_value_each\<close> and
  senders that complete with a value it folds the values of these.\<close>

theorem reduce_then_each:
  assumes "transforms_items transform_each" "applies_function then_sender" "completes_as_made let_value"
    "gives t (map Set_Value vs) (Set_Value ())" "folded fn (map f vs) init = Some r"
  shows "reduce_seq fn init (then_each None transform_each then_sender t f) =
      Some (if vs = [] then None else Some (Set_Value r)) \<and>
    reduce_seq fn init (let_value_each None transform_each let_value t (\<lambda>v. Set_Value (f v))) =
      reduce_seq fn init (then_each None transform_each then_sender t f)"
proof -
  have "gives (let_value_each None transform_each let_value t (\<lambda>v. Set_Value (f v))) (map Set_Value (map f vs)) (Set_Value ())"
    using let_value_each_gives [OF assms(1,3,4), of "\<lambda>v. Set_Value (f v)"] by (simp add: comp_def)
  from reduce_gives [OF this assms(5)] reduce_gives [OF then_each_gives [OF assms(1,2,4)] assms(5)]
  show ?thesis by simp
qed

text \<open>The library's functions on trees.\<close>

primcorec transform_each_tree :: "('v, 'u, 'e) each_fun" where
  "transform_each_tree t adapt =
     (case t of
        Seq_Done sig \<Rightarrow> Seq_Done sig
      | Seq_Item i k \<Rightarrow> Seq_Item (adapt i) (\<lambda>r. transform_each_tree (k r) adapt)
      | Seq_Step u \<Rightarrow> Seq_Step (transform_each_tree u adapt))"

fun on_value :: "('v \<Rightarrow> ('u, 'e) signal) \<Rightarrow> ('v, 'u, 'e) signal_map" where
  "on_value f (Set_Value v) = f v"
| "on_value f (Set_Error e) = Set_Error e"
| "on_value f Set_Stopped = Set_Stopped"

lemma transform_each_tree_items: "transforms_items transform_each_tree"
proof -
  have "gives (transform_each_tree t adapt) (map adapt items) sig" if "gives t items sig"
    for t :: "('a, 'b) seq" and adapt :: "('a, 'c, 'b) signal_map" and items sig
    using that by (induction rule: gives.induct) (auto intro: gives.intros simp: transform_each_tree.code)
  then show ?thesis by (simp add: transforms_items_def)
qed

theorem reduce_then_each_witness:
  "reduce_seq (\<lambda>t a. Some (t + a)) (1 :: int)
     (then_each None transform_each_tree (\<lambda>f. on_value (\<lambda>v. Set_Value (f v)))
        (give_one (20 :: int) (Set_Value () :: (unit, nat) signal)) (\<lambda>v. 2 * v)) = Some (Some (Set_Value 41))"
proof -
  have "gives (give_one (20 :: int) (Set_Value () :: (unit, nat) signal)) (map Set_Value [20]) (Set_Value ())"
    using give_one_gives [of 20 "Set_Value () :: (unit, nat) signal"] by simp
  moreover have "applies_function (\<lambda>f. on_value (\<lambda>v. Set_Value (f v)) :: (int, int, nat) signal_map)"
    "completes_as_made (on_value :: (int \<Rightarrow> (int, nat) signal) \<Rightarrow> (int, int, nat) signal_map)"
    by (simp_all add: applies_function_def completes_as_made_def)
  ultimately show ?thesis
    using reduce_then_each [OF transform_each_tree_items, where vs = "[20]" and f = "\<lambda>v. 2 * v" and
        fn = "\<lambda>t a. Some (t + a)" and init = "1 :: int" and r = 41] by fastforce
qed

end
