(* ===== verification/Ip_Text.thy ===== *)
theory Ip_Text
  imports Ip_Address_Correct Std_Numbers
begin

text \<open>
  The text of addresses and the other comparisons of \<^verbatim>\<open>ip/address.hpp\<close>. Printing is the system's \<^verbatim>\<open>inet_ntop\<close>, which
  writes into a buffer of the caller when the text and its terminating zero fit, and leaves the buffer alone when not. The
  texts are parameters.
\<close>

subsection \<open>Text\<close>

definition INET_ADDRSTRLEN :: nat where "INET_ADDRSTRLEN = 16"
definition INET6_ADDRSTRLEN :: nat where "INET6_ADDRSTRLEN = 46"

definition inet_ntop_into :: "string \<Rightarrow> nat \<Rightarrow> string \<Rightarrow> string" where
  "inet_ntop_into t n buffer = (if length t < n then t @ CHR 0x00 # drop (Suc (length t)) buffer else buffer)"

definition v4_to_string :: "(bytes4 \<Rightarrow> string) \<Rightarrow> byte_order \<Rightarrow> address_v4 \<Rightarrow> string" where
  "v4_to_string ntop4 bo a =
     (let buffer = replicate (INET_ADDRSTRLEN + 1) (CHR 0x00)
      in c_str (inet_ntop_into (ntop4 (mem_bytes bo (addr_v4 a))) INET_ADDRSTRLEN buffer))"

definition v6_to_string :: "(u8 list \<Rightarrow> string) \<Rightarrow> address_v6 \<Rightarrow> string" where
  "v6_to_string ntop6 a =
     (let buffer = replicate (INET6_ADDRSTRLEN + 1) (CHR 0x00)
      in c_str (inet_ntop_into (ntop6 (addr_v6 a)) INET6_ADDRSTRLEN buffer))"

definition addr_to_string ::
  "(bytes4 \<Rightarrow> string) \<Rightarrow> (u8 list \<Rightarrow> string) \<Rightarrow> byte_order \<Rightarrow> ip_address \<Rightarrow> bad_variant_access + string" where
  "addr_to_string ntop4 ntop6 bo a =
     (if is_v4 a then map_sum id (v4_to_string ntop4 bo) (addr_to_v4 a)
      else map_sum id (v6_to_string ntop6) (addr_to_v6 a))"

text \<open>What is documented: printed addresses are parsed back, and the texts fit the constants that were made for them.\<close>

definition text_law4 :: "(bytes4 \<Rightarrow> string) \<Rightarrow> (string \<Rightarrow> bytes4 option) \<Rightarrow> bool" where
  "text_law4 ntop4 pton4 \<longleftrightarrow>
     (\<forall>bs. pton4 (ntop4 bs) = Some bs \<and> length (ntop4 bs) < INET_ADDRSTRLEN \<and> CHR 0x00 \<notin> set (ntop4 bs))"

definition text_law6 :: "(u8 list \<Rightarrow> string) \<Rightarrow> (string \<Rightarrow> u8 list option) \<Rightarrow> bool" where
  "text_law6 ntop6 pton6 \<longleftrightarrow>
     (\<forall>bs. length bs = 16 \<longrightarrow> pton6 (ntop6 bs) = Some bs \<and> length (ntop6 bs) < INET6_ADDRSTRLEN \<and>
        CHR 0x00 \<notin> set (ntop6 bs) \<and> CHR ''%'' \<notin> set (ntop6 bs))"

lemma c_str_ntop: "CHR 0x00 \<notin> set t \<Longrightarrow> length t < n \<Longrightarrow> c_str (inet_ntop_into t n buffer) = t"
  by (auto simp: c_str_def inet_ntop_into_def takeWhile_append2 takeWhile_tail)

lemma c_str_no_zero: "CHR 0x00 \<notin> set t \<Longrightarrow> c_str t = t"
  by (auto simp: c_str_def takeWhile_eq_all_conv)

lemma text_law4D:
  "text_law4 ntop4 pton4 \<Longrightarrow> pton4 (ntop4 bs) = Some bs" "text_law4 ntop4 pton4 \<Longrightarrow> length (ntop4 bs) < INET_ADDRSTRLEN"
  "text_law4 ntop4 pton4 \<Longrightarrow> CHR 0x00 \<notin> set (ntop4 bs)"
  unfolding text_law4_def by blast+

lemma v4_text: "text_law4 ntop4 pton4 \<Longrightarrow> v4_to_string ntop4 bo a = ntop4 (v4_to_bytes bo a)"
  by (simp add: text_law4D v4_to_string_def v4_to_bytes_def c_str_ntop)

lemma v6_text: "text_law6 ntop6 pton6 \<Longrightarrow> length (addr_v6 a) = 16 \<Longrightarrow> v6_to_string ntop6 a = ntop6 (addr_v6 a)"
  by (simp add: text_law6_def v6_to_string_def c_str_ntop)

text \<open>C35 (address_text). An IPv4 address is read back from its text as it was; an IPv6 address loses its scope, which is not printed.\<close>

theorem address_text_roundtrip:
  assumes "text_law4 ntop4 pton4" "text_law6 ntop6 pton6" "length (addr_v6 w) = 16"
  shows "map_sum id (make_address_v4_string pton4 bo) (addr_to_string ntop4 ntop6 bo (Is_V4 a)) = Inr a \<and>
    map_sum id (make_address_v6_string pton6 if_nametoindex) (addr_to_string ntop4 ntop6 bo (Is_V6 w)) =
      Inr (Some (v6_set_scope_id 0 w))"
proof
  show "map_sum id (make_address_v4_string pton4 bo) (addr_to_string ntop4 ntop6 bo (Is_V4 a)) = Inr a"
    by (simp add: addr_to_string_def v4_text [OF assms(1)] make_address_v4_string_def make_address_v4_cstr_def c_str_no_zero
        text_law4D [OF assms(1)])
  have t: "CHR 0x00 \<notin> set (ntop6 (addr_v6 w))" "CHR ''%'' \<notin> set (ntop6 (addr_v6 w))" "pton6 (ntop6 (addr_v6 w)) = Some (addr_v6 w)"
    using assms(2,3) by (simp_all add: text_law6_def)
  then have p: "takeWhile (\<lambda>c. c \<noteq> CHR ''%'') (ntop6 (addr_v6 w)) = ntop6 (addr_v6 w)"
    "dropWhile (\<lambda>c. c \<noteq> CHR ''%'') (ntop6 (addr_v6 w)) = []"
    by (auto simp: takeWhile_eq_all_conv dropWhile_eq_Nil_conv)
  from t show "map_sum id (make_address_v6_string pton6 if_nametoindex) (addr_to_string ntop4 ntop6 bo (Is_V6 w)) =
      Inr (Some (v6_set_scope_id 0 w))"
    by (simp add: addr_to_string_def v6_text [OF assms(2,3)] make_address_v6_string_def make_address_v6_cstr_def c_str_no_zero
        Let_def v6_of_bytes_def v6_set_scope_id_def p)
qed

subsection \<open>Texts that satisfy the laws\<close>

text \<open>Dotted decimals.\<close>

definition dotted :: "bytes4 \<Rightarrow> string" where
  "dotted bs = (case bs of (a, b, c, d) \<Rightarrow>
     decimal (unat a) @ CHR ''.'' # decimal (unat b) @ CHR ''.'' # decimal (unat c) @ CHR ''.'' # decimal (unat d))"

fun read_parts :: "nat \<Rightarrow> string \<Rightarrow> nat list" where
  "read_parts 0 s = []"
| "read_parts (Suc k) s = digits_value (takeWhile is_digit s) # read_parts k (tl (dropWhile is_digit s))"

definition read_dotted :: "string \<Rightarrow> bytes4 option" where
  "read_dotted s = (case read_parts 4 s of [a, b, c, d] \<Rightarrow> Some (of_nat a, of_nat b, of_nat c, of_nat d) | _ \<Rightarrow> None)"

lemma byte_less: "unat (b :: u8) < 256"
  using unsigned_less [where ?'a = nat and w = b] by simp

lemma dot_no_digit: "\<not> is_digit (CHR ''.'')"
  by (simp add: is_digit_def)

lemma dropWhile_decimal: "rest = [] \<or> \<not> is_digit (hd rest) \<Longrightarrow> dropWhile is_digit (decimal n @ rest) = rest"
  using decimal_digits [of n] by (cases rest) (simp_all add: dropWhile_append2 dropWhile_eq_Nil_conv)

lemma read_part_dot: "read_parts (Suc k) (decimal n @ CHR ''.'' # s) = n # read_parts k s"
  using takeWhile_digits [of "CHR ''.'' # s" n] dropWhile_decimal [of "CHR ''.'' # s" n] dot_no_digit
  by (simp add: digits_value_decimal)

lemma read_part_end: "read_parts (Suc 0) (decimal n) = [n]"
  using takeWhile_digits [of "[]" n] by (simp only: read_parts.simps append_Nil2 digits_value_decimal simp_thms)

lemma decimal_no_zero: "CHR 0x00 \<notin> set (decimal n)"
  using decimal_digits [of n] by (auto simp: is_digit_def)

lemma dotted_law: "text_law4 dotted read_dotted"
proof (unfold text_law4_def, intro allI)
  fix bs :: bytes4
  obtain a b c d where bs: "bs = (a, b, c, d)" by (cases bs)
  have len: "length (decimal (unat x)) \<le> 3" for x :: u8
    using length_decimal_le [of "unat x" 3] byte_less [of x] by simp
  have "read_parts 4 (dotted bs) = map unat [a, b, c, d]"
    by (simp only: bs dotted_def prod.case eval_nat_numeral(2,3) BitM.simps One_nat_def read_part_dot read_part_end list.map)
      (simp add: numeral_eq_Suc read_part_dot read_part_end del: read_parts.simps(2))
  then show "read_dotted (dotted bs) = Some bs \<and> length (dotted bs) < INET_ADDRSTRLEN \<and> CHR 0x00 \<notin> set (dotted bs)"
    using len [of a] len [of b] len [of c] len [of d] decimal_no_zero
    by (auto simp: read_dotted_def bs dotted_def INET_ADDRSTRLEN_def)
qed

text \<open>Groups of two bytes in hexadecimal, none left out.\<close>

definition hex_digit :: "nat \<Rightarrow> char" where
  "hex_digit n = (if n < 10 then digit n else char_of (87 + n))"

definition hex_value :: "char \<Rightarrow> nat" where
  "hex_value c = (if is_digit c then of_char c - 48 else of_char c - 87)"

definition hex_byte :: "u8 \<Rightarrow> string" where
  "hex_byte b = [hex_digit (unat b div 16), hex_digit (unat b mod 16)]"

fun hex_groups :: "u8 list \<Rightarrow> string" where
  "hex_groups (a # b # bs) = hex_byte a @ hex_byte b @ (if bs = [] then [] else CHR '':'' # hex_groups bs)"
| "hex_groups bs = []"

fun read_groups :: "string \<Rightarrow> u8 list" where
  "read_groups (c # d # e # f # s) =
     of_nat (16 * hex_value c + hex_value d) # of_nat (16 * hex_value e + hex_value f) # read_groups (tl s)"
| "read_groups s = []"

lemma of_char_hex: "n < 16 \<Longrightarrow> (of_char (hex_digit n) :: nat) = (if n < 10 then 48 + n else 87 + n)"
  by (simp add: hex_digit_def digit_def)

lemma hex_value_digit: "n < 16 \<Longrightarrow> hex_value (hex_digit n) = n"
  by (simp add: hex_value_def is_digit_def of_char_hex)

lemma hex_byte_value: "of_nat (16 * hex_value (hex_digit (unat b div 16)) + hex_value (hex_digit (unat b mod 16))) = (b :: u8)"
  using byte_less [of b] by (simp add: hex_value_digit)

lemma hex_digit_plain: "n < 16 \<Longrightarrow> hex_digit n \<noteq> CHR 0x00 \<and> hex_digit n \<noteq> CHR ''%''"
  using of_char_hex [of n] by (auto split: if_splits)

lemma hex_groups_law:
  "even (length bs) \<Longrightarrow> read_groups (hex_groups bs) = bs \<and> CHR 0x00 \<notin> set (hex_groups bs) \<and> CHR ''%'' \<notin> set (hex_groups bs) \<and>
     2 * length (hex_groups bs) \<le> 5 * length bs"
proof (induction bs rule: hex_groups.induct)
  case (1 a b bs)
  have "hex_digit (unat x div 16) \<noteq> CHR 0x00 \<and> hex_digit (unat x mod 16) \<noteq> CHR 0x00 \<and>
      hex_digit (unat x div 16) \<noteq> CHR ''%'' \<and> hex_digit (unat x mod 16) \<noteq> CHR ''%''" for x :: u8
    using byte_less [of x] by (simp add: hex_digit_plain)
  from this [of a] this [of b] 1 show ?case
    using hex_byte_value [of a] hex_byte_value [of b] by (cases "bs = []") (auto simp: hex_byte_def)
qed simp_all

lemma hex_law: "text_law6 hex_groups (\<lambda>s. Some (read_groups s))"
proof (unfold text_law6_def, intro allI impI)
  fix bs :: "u8 list" assume bs: "length bs = 16"
  with hex_groups_law [of bs] show "Some (read_groups (hex_groups bs)) = Some bs \<and> length (hex_groups bs) < INET6_ADDRSTRLEN \<and>
      CHR 0x00 \<notin> set (hex_groups bs) \<and> CHR ''%'' \<notin> set (hex_groups bs)"
    by (simp add: INET6_ADDRSTRLEN_def)
qed

theorem address_text_roundtrip_witness:
  "map_sum id (make_address_v4_string read_dotted Little_Endian)
     (addr_to_string dotted hex_groups Little_Endian (Is_V4 (Address_V4 16777343))) = Inr (Address_V4 16777343) \<and>
   map_sum id (make_address_v6_string (\<lambda>s. Some (read_groups s)) (\<lambda>_. 0))
     (addr_to_string dotted hex_groups Little_Endian (Is_V6 (Address_V6 (replicate 16 1) 7))) =
     Inr (Some (Address_V6 (replicate 16 1) 0))"
  using address_text_roundtrip [OF dotted_law hex_law, of "Address_V6 (replicate 16 1) 7" Little_Endian "Address_V4 16777343" "\<lambda>_. 0"]
  by (simp add: v6_set_scope_id_def)

subsection \<open>The other comparisons\<close>

definition v6_ne :: "address_v6 \<Rightarrow> address_v6 \<Rightarrow> bool" where
  "v6_ne a1 a2 \<longleftrightarrow> \<not> v6_eq a1 a2"

definition v6_greater :: "address_v6 \<Rightarrow> address_v6 \<Rightarrow> bool" where
  "v6_greater a1 a2 \<longleftrightarrow> v6_less a2 a1"

definition v6_greater_eq :: "address_v6 \<Rightarrow> address_v6 \<Rightarrow> bool" where
  "v6_greater_eq a1 a2 \<longleftrightarrow> \<not> v6_less a1 a2"

text \<open>The defaulted comparison of variants: the same alternative, and equal there.\<close>

fun addr_eq :: "ip_address \<Rightarrow> ip_address \<Rightarrow> bool" where
  "addr_eq (Is_V4 x) (Is_V4 y) = (addr_v4 x = addr_v4 y)"
| "addr_eq (Is_V6 x) (Is_V6 y) = v6_eq x y"
| "addr_eq _ _ = False"

definition addr_ne :: "ip_address \<Rightarrow> ip_address \<Rightarrow> bool" where
  "addr_ne a1 a2 \<longleftrightarrow> \<not> addr_eq a1 a2"

definition addr_greater :: "ip_address \<Rightarrow> ip_address \<Rightarrow> bool" where
  "addr_greater a1 a2 \<longleftrightarrow> addr_less a2 a1"

definition addr_greater_eq :: "ip_address \<Rightarrow> ip_address \<Rightarrow> bool" where
  "addr_greater_eq a1 a2 \<longleftrightarrow> \<not> addr_less a1 a2"

lemma v6_eq_iff: "v6_eq a b \<longleftrightarrow> a = b"
  by (auto simp: v6_eq_def address_v6.expand)

text \<open>Remark (addr_comparisons). The six comparisons of IPv6 addresses, and those of addresses, are those of one linear order: exactly one of less,
  equal and greater holds, and the others follow from these.\<close>

theorem address_comparisons:
  "v6_eq v w = (v = w) \<and> v6_ne v w = (v \<noteq> w) \<and> v6_less v w = (v < w) \<and> v6_greater v w = (w < v) \<and>
   v6_less_eq v w = (v < w \<or> v = w) \<and> v6_greater_eq v w = (w < v \<or> v = w) \<and>
   addr_eq a b = (a = b) \<and> addr_ne a b = (a \<noteq> b) \<and> addr_less a b = (a < b) \<and> addr_greater a b = (b < a) \<and>
   addr_less_eq a b = (a < b \<or> a = b) \<and> addr_greater_eq a b = (b < a \<or> a = b)"
proof -
  have "addr_eq a b = (a = b)" by (cases a; cases b) (auto simp: v6_eq_iff address_v4.expand)
  then show ?thesis
    by (auto simp: v6_eq_iff v6_ne_def v6_greater_def v6_greater_eq_def addr_ne_def addr_greater_def addr_greater_eq_def
        simp flip: less_address_v6_def less_eq_address_v6_def less_ip_address_def less_eq_ip_address_def)
qed

end
