(* ===== verification/Resolve.thy ===== *)
theory Resolve
  imports Ip_Endpoint Sequence_Core
begin

text \<open>
  \<^verbatim>\<open>ip/resolve.hpp\<close>: queries for a host and a service, and the sequence of the endpoints they resolve to.

  The resolver is the system's \<^verbatim>\<open>getaddrinfo_a\<close>: it calls \<open>resolve_notify\<close> with a return code and a linked
  list of addresses, a list here. Socket addresses are those of \<open>Ip_Endpoint\<close>.
\<close>

subsection \<open>Flags and queries\<close>

type_synonym resolver_flags = u32

definition canonical_name :: resolver_flags where "canonical_name = 2"
definition AI_passive :: resolver_flags where "AI_passive = 1"
definition numeric_host :: resolver_flags where "numeric_host = 4"
definition numeric_service :: resolver_flags where "numeric_service = 0x400"
definition v4_mapped_flag :: resolver_flags where "v4_mapped_flag = 8"
definition all_matching :: resolver_flags where "all_matching = 0x10"
definition address_configured :: resolver_flags where "address_configured = 0x20"

definition flags_or :: "resolver_flags \<Rightarrow> resolver_flags \<Rightarrow> resolver_flags" where
  "flags_or lhs rhs = lhs OR rhs"

definition flags_and :: "resolver_flags \<Rightarrow> resolver_flags \<Rightarrow> resolver_flags" where
  "flags_and lhs rhs = lhs AND rhs"

definition flags_xor :: "resolver_flags \<Rightarrow> resolver_flags \<Rightarrow> resolver_flags" where
  "flags_xor lhs rhs = lhs XOR rhs"

definition flags_not :: "resolver_flags \<Rightarrow> resolver_flags" where
  "flags_not flags = NOT flags"

record resolver_query =
  hints :: protocol
  hint_flags :: resolver_flags
  q_host_name :: string
  q_service_name :: string

text \<open>Any family, type and protocol.\<close>

definition unspecified_protocol :: protocol where
  "unspecified_protocol = \<lparr>proto_type = 0, proto_protocol = 0, proto_family = 0\<rparr>"

definition default_service_flags :: resolver_flags where
  "default_service_flags = flags_or AI_passive address_configured"

definition query_service :: "string \<Rightarrow> resolver_flags \<Rightarrow> resolver_query" where
  "query_service service flags =
     \<lparr>hints = unspecified_protocol, hint_flags = flags, q_host_name = [], q_service_name = service\<rparr>"

definition query_host :: "string \<Rightarrow> string \<Rightarrow> resolver_flags \<Rightarrow> resolver_query" where
  "query_host host service flags =
     \<lparr>hints = unspecified_protocol, hint_flags = flags, q_host_name = host, q_service_name = service\<rparr>"

definition query_protocol_service :: "protocol \<Rightarrow> string \<Rightarrow> resolver_flags \<Rightarrow> resolver_query" where
  "query_protocol_service p service flags =
     \<lparr>hints = p, hint_flags = flags, q_host_name = [], q_service_name = service\<rparr>"

definition query_protocol_host :: "protocol \<Rightarrow> string \<Rightarrow> string \<Rightarrow> resolver_flags \<Rightarrow> resolver_query" where
  "query_protocol_host p host service flags =
     \<lparr>hints = p, hint_flags = flags, q_host_name = host, q_service_name = service\<rparr>"

text \<open>
  The request to the system: the name and the service as C strings. The name is a string even when the
  query has none: it is then empty, and not the null pointer that would ask for the wildcard address.
\<close>

record gai_request =
  ar_name :: "string ptr"
  ar_service :: "string ptr"
  ar_hints :: protocol
  ar_flags :: resolver_flags

definition resolve_request :: "resolver_query \<Rightarrow> gai_request" where
  "resolve_request q =
     \<lparr>ar_name = Some (c_str (q_host_name q)), ar_service = Some (c_str (q_service_name q)),
      ar_hints = hints q, ar_flags = hint_flags q\<rparr>"

subsection \<open>Results\<close>

record addrinfo =
  ai_addr :: endpoint
  ai_addrlen :: size_t

record resolver_result =
  rr_host :: string
  rr_service :: string
  rr_endpoint :: endpoint

text \<open>The port of the result, in network order, is given to a constructor that converts it to network order.\<close>

definition make_result :: "byte_order \<Rightarrow> resolver_query \<Rightarrow> addrinfo \<Rightarrow> resolver_result option" where
  "make_result bo q ai =
     (case ai_addr ai of
        Sockaddr_In p a \<Rightarrow>
          Some \<lparr>rr_host = q_host_name q, rr_service = q_service_name q,
            rr_endpoint = ep_of_address bo (Is_V4 (v4_of_bytes bo (mem_bytes bo a))) p\<rparr>
      | Sockaddr_In6 p a sid \<Rightarrow>
          (if ai_addrlen ai = 28 then
             Some \<lparr>rr_host = q_host_name q, rr_service = q_service_name q,
               rr_endpoint = ep_of_address bo (Is_V6 (v6_of_bytes a 0)) p\<rparr>
           else None)
      | No_Addr \<Rightarrow> None)"

subsection \<open>The operation\<close>

text \<open>
  The results that \<open>rs_iter\<close> still has, the results that were given to the receiver, how often the
  list was freed, and the completions of the receiver. An error is a return code of the resolver or an
  exception.
\<close>

record 'e resolve_op =
  rs_query :: resolver_query
  rs_result :: "addrinfo list"
  rs_iter :: "addrinfo list"
  rs_items :: "resolver_result list"
  rs_freed :: nat
  rs_completed :: "(unit, int + 'e) signal list"

definition resolve_init :: "resolver_query \<Rightarrow> 'e resolve_op" where
  "resolve_init q = \<lparr>rs_query = q, rs_result = [], rs_iter = [], rs_items = [], rs_freed = 0, rs_completed = []\<rparr>"

definition rs_complete :: "(unit, int + 'e) signal \<Rightarrow> 'e resolve_op \<Rightarrow> 'e resolve_op" where
  "rs_complete sig s = s\<lparr>rs_completed := rs_completed s @ [sig]\<rparr>"

definition free_results :: "'e resolve_op \<Rightarrow> 'e resolve_op" where
  "free_results s = s\<lparr>rs_freed := rs_freed s + 1\<rparr>"

text \<open>\<open>throws\<close> says that making the next sender throws.\<close>

definition start_next :: "byte_order \<Rightarrow> 'e option \<Rightarrow> 'e resolve_op \<Rightarrow> 'e resolve_op option" where
  "start_next bo throws s =
     (case rs_iter s of
        [] \<Rightarrow> None
      | ai # _ \<Rightarrow> do {
          result \<leftarrow> make_result bo (rs_query s) ai;
          Some (case throws of
             Some e \<Rightarrow> rs_complete (Set_Error (Inr e)) s
           | None \<Rightarrow> s\<lparr>rs_items := rs_items s @ [result]\<rparr>)
        })"

definition next_set_value :: "byte_order \<Rightarrow> 'e option \<Rightarrow> 'e resolve_op \<Rightarrow> 'e resolve_op option" where
  "next_set_value bo throws s =
     (case rs_iter s of
        [] \<Rightarrow> None
      | _ # rest \<Rightarrow>
          (let s1 = s\<lparr>rs_iter := rest\<rparr>
           in if rest \<noteq> [] then start_next bo throws s1
              else Some (rs_complete (Set_Value ()) (free_results s1))))"

definition next_set_stopped :: "stop_token \<Rightarrow> 'e resolve_op \<Rightarrow> 'e resolve_op option" where
  "next_set_stopped token s =
     (if rs_result s = [] then None
      else Some (rs_complete (set_value_unless_stopped token) (free_results s)))"

definition EAI_CANCELED :: int where "EAI_CANCELED = - 101"
definition EAI_INPROGRESS :: int where "EAI_INPROGRESS = - 100"

definition resolve_notify ::
  "byte_order \<Rightarrow> 'e option \<Rightarrow> int \<Rightarrow> addrinfo list \<Rightarrow> 'e resolve_op \<Rightarrow> 'e resolve_op option" where
  "resolve_notify bo throws rc result s =
     (if rc = 0 then
        (if result \<noteq> [] then start_next bo throws (s\<lparr>rs_result := result, rs_iter := result\<rparr>)
         else Some (rs_complete (Set_Value ()) s))
      else if rc = EAI_CANCELED then Some (rs_complete Set_Stopped s)
      else if rc \<noteq> EAI_INPROGRESS then Some (rs_complete (Set_Error (Inl rc)) s)
      else Some s)"

text \<open>The return code of \<^verbatim>\<open>getaddrinfo_a\<close> is not looked at: if it fails, there is no notification.\<close>

definition resolve_start :: "int \<Rightarrow> 'e resolve_op \<Rightarrow> 'e resolve_op" where
  "resolve_start getaddrinfo_rc s = s"

text \<open>The rest of the run: each item completes its next sender with a value, or stops it.\<close>

datatype 'e item_end = Next_Done "'e option" | Next_Cancel stop_token

fun resolve_items :: "byte_order \<Rightarrow> 'e item_end list \<Rightarrow> 'e resolve_op \<Rightarrow> 'e resolve_op option" where
  "resolve_items bo [] s = Some s"
| "resolve_items bo (Next_Done throws # evs) s = do { s1 \<leftarrow> next_set_value bo throws s; resolve_items bo evs s1 }"
| "resolve_items bo (Next_Cancel token # evs) s = do { s1 \<leftarrow> next_set_stopped token s; resolve_items bo evs s1 }"

definition resolve_run ::
  "byte_order \<Rightarrow> int \<Rightarrow> addrinfo list \<Rightarrow> 'e item_end list \<Rightarrow> resolver_query \<Rightarrow> 'e resolve_op option" where
  "resolve_run bo rc result evs q = do {
     s \<leftarrow> resolve_notify bo None rc result (resolve_init q);
     resolve_items bo evs s
   }"

subsection \<open>Correctness\<close>

definition valid_ai :: "addrinfo \<Rightarrow> bool" where
  "valid_ai ai \<longleftrightarrow> (case ai_addr ai of Sockaddr_In _ _ \<Rightarrow> True | Sockaddr_In6 _ _ _ \<Rightarrow> ai_addrlen ai = 28 | No_Addr \<Rightarrow> False)"

definition result_of :: "byte_order \<Rightarrow> resolver_query \<Rightarrow> addrinfo \<Rightarrow> resolver_result" where
  "result_of bo q ai = the (make_result bo q ai)"

lemma make_result_valid: "valid_ai ai \<Longrightarrow> make_result bo q ai = Some (result_of bo q ai)"
  by (auto simp: valid_ai_def result_of_def make_result_def split: endpoint.splits)

text \<open>The state while item \<open>k\<close> is with the receiver.\<close>

definition at_item :: "byte_order \<Rightarrow> resolver_query \<Rightarrow> addrinfo list \<Rightarrow> nat \<Rightarrow> 'e resolve_op" where
  "at_item bo q ais k = \<lparr>rs_query = q, rs_result = ais, rs_iter = drop k ais,
     rs_items = map (result_of bo q) (take (Suc k) ais), rs_freed = 0, rs_completed = []\<rparr>"

lemma notify_first:
  assumes "\<forall>ai \<in> set ais. valid_ai ai" "ais \<noteq> []"
  shows "resolve_notify bo None 0 ais (resolve_init q) = Some (at_item bo q ais 0)"
  using assms
  by (cases ais) (simp_all add: resolve_notify_def start_next_def resolve_init_def at_item_def make_result_valid)

lemma next_item:
  assumes "\<forall>ai \<in> set ais. valid_ai ai" "Suc k < length ais"
  shows "next_set_value bo None (at_item bo q ais k) = Some (at_item bo q ais (Suc k))"
proof -
  have d: "drop k ais = ais ! k # ais ! Suc k # drop (Suc (Suc k)) ais"
    using assms(2) by (metis Cons_nth_drop_Suc Suc_lessD)
  have "valid_ai (ais ! Suc k)" using assms by simp
  with d assms(2) show ?thesis
    by (simp add: next_set_value_def start_next_def at_item_def make_result_valid Let_def
        take_Suc_conv_app_nth flip: Cons_nth_drop_Suc)
qed

lemma items_run:
  assumes "\<forall>ai \<in> set ais. valid_ai ai" "k + m < length ais"
  shows "resolve_items bo (replicate m (Next_Done None) @ evs) (at_item bo q ais k) =
    resolve_items bo evs (at_item bo q ais (k + m))"
  using assms
proof (induction m arbitrary: k)
  case (Suc m)
  then show ?case using Suc.IH [of "Suc k"] by (simp add: next_item [OF assms(1)])
qed simp

text \<open>C25 (resolve). A query that resolves to \<open>n\<close> addresses gives the receiver these addresses in order, completes it once, with a
  value after the last one or as its stop token says when it stops early, and frees the list once. But when
  making the sender of a result throws, the list is not freed.\<close>

theorem resolve_delivers:
  assumes "\<forall>ai \<in> set ais. valid_ai ai" "k < length ais"
  shows "(\<exists>s. resolve_run bo 0 ais (replicate (length ais) (Next_Done None)) q = Some (s :: 'e resolve_op) \<and>
      rs_items s = map (result_of bo q) ais \<and> rs_completed s = [Set_Value ()] \<and> rs_freed s = 1) \<and>
    (\<exists>s. resolve_run bo 0 ais (replicate k (Next_Done None) @ [Next_Cancel token]) q = Some (s :: 'e resolve_op) \<and>
      rs_items s = map (result_of bo q) (take (Suc k) ais) \<and>
      rs_completed s = [set_value_unless_stopped token] \<and> rs_freed s = 1) \<and>
    (Suc k < length ais \<longrightarrow>
     (\<exists>s. resolve_run bo 0 ais (replicate k (Next_Done None) @ [Next_Done (Some e)]) q = Some (s :: 'e resolve_op) \<and>
      rs_completed s = [Set_Error (Inr e)] \<and> rs_freed s = 0))"
proof (intro conjI impI)
  have ne: "ais \<noteq> []" using assms(2) by auto
  have run: "resolve_run bo 0 ais (replicate m (Next_Done None) @ evs) q =
      resolve_items bo evs (at_item bo q ais m :: 'e resolve_op)" if "m < length ais" for m and evs :: "'e item_end list"
    using items_run [OF assms(1), of 0 m bo evs q] that
    by (simp add: resolve_run_def notify_first [OF assms(1) ne])
  obtain m where m: "length ais = Suc m" using ne by (cases ais) auto
  have "replicate (length ais) (Next_Done None) = replicate m (Next_Done None) @ [Next_Done None :: 'e item_end]"
    by (simp add: m replicate_append_same)
  moreover have "drop m ais = [ais ! m]" using m Cons_nth_drop_Suc [of m ais] by simp
  ultimately show "\<exists>s. resolve_run bo 0 ais (replicate (length ais) (Next_Done None)) q = Some (s :: 'e resolve_op) \<and>
      rs_items s = map (result_of bo q) ais \<and> rs_completed s = [Set_Value ()] \<and> rs_freed s = 1"
    using run [of m "[Next_Done None]"] m
    by (simp add: next_set_value_def at_item_def rs_complete_def free_results_def Let_def)
  show "\<exists>s. resolve_run bo 0 ais (replicate k (Next_Done None) @ [Next_Cancel token]) q = Some (s :: 'e resolve_op) \<and>
      rs_items s = map (result_of bo q) (take (Suc k) ais) \<and>
      rs_completed s = [set_value_unless_stopped token] \<and> rs_freed s = 1"
    using run [OF assms(2), of "[Next_Cancel token]"] ne
    by (simp add: next_set_stopped_def at_item_def rs_complete_def free_results_def)
  assume k: "Suc k < length ais"
  then have d: "drop k ais = ais ! k # ais ! Suc k # drop (Suc (Suc k)) ais"
    by (metis Cons_nth_drop_Suc Suc_lessD)
  have "valid_ai (ais ! Suc k)" using assms(1) k by simp
  with d show "\<exists>s. resolve_run bo 0 ais (replicate k (Next_Done None) @ [Next_Done (Some e)]) q = Some (s :: 'e resolve_op) \<and>
      rs_completed s = [Set_Error (Inr e)] \<and> rs_freed s = 0"
    using run [OF assms(2), of "[Next_Done (Some e)]"]
    by (simp add: next_set_value_def start_next_def at_item_def make_result_valid rs_complete_def Let_def)
qed

theorem resolve_delivers_witness:
  "\<exists>s. resolve_run Little_Endian 0 [\<lparr>ai_addr = Sockaddr_In 80 1, ai_addrlen = 16\<rparr>, \<lparr>ai_addr = Sockaddr_In 80 2, ai_addrlen = 16\<rparr>]
      [Next_Done None, Next_Done None] (query_host ''a'' ''b'' 0) = Some (s :: nat resolve_op) \<and>
    rs_completed s = [Set_Value ()] \<and> rs_freed s = 1"
  using resolve_delivers [where ais = "[\<lparr>ai_addr = Sockaddr_In 80 1, ai_addrlen = 16\<rparr>, \<lparr>ai_addr = Sockaddr_In 80 2, ai_addrlen = 16\<rparr>]"
      and k = 0 and bo = Little_Endian and q = "query_host ''a'' ''b'' 0" and 'e = nat]
  by (auto simp: valid_ai_def numeral_2_eq_2)

text \<open>Remark (resolve_port). The endpoint of a result has the address that was resolved, but its port is converted to network order
  twice: on a little-endian machine the bytes of the port are swapped, so that the port of an \<^verbatim>\<open>http\<close>
  service is 20480 and not 80.\<close>

theorem resolve_port_swapped:
  assumes "ai_addr ai = Sockaddr_In (htons bo p) a"
  shows "ep_address bo (rr_endpoint (result_of bo q ai)) = ep_address bo (ai_addr ai) \<and>
    ep_port bo (ai_addr ai) = Some p \<and> ep_port bo (rr_endpoint (result_of bo q ai)) = Some (htons bo p) \<and>
    htons Little_Endian 80 = 20480"
  using assms
  by (simp add: result_of_def make_result_def ep_of_address_def) (simp add: htons_def)

theorem resolve_port_swapped_witness:
  "ep_port Little_Endian (rr_endpoint (result_of Little_Endian (query_host ''a'' ''http'' 0)
     \<lparr>ai_addr = Sockaddr_In (htons Little_Endian 80) 1, ai_addrlen = 16\<rparr>)) = Some (htons Little_Endian 80)"
  by (rule resolve_port_swapped [where a = 1, THEN conjunct2, THEN conjunct2, THEN conjunct1]) simp

end
