(* ===== verification/Resolve_Calls.thy ===== *)
theory Resolve_Calls
  imports Resolve First_Last Customization
begin

text \<open>
  The calls of \<^verbatim>\<open>async::resolve\<close> of \<^verbatim>\<open>ip/resolve.hpp\<close>: the overloads of the function object, the sender that they make, the error
  codes, and the first result of a query, which the programs that use the resolver ask for.
\<close>

subsection \<open>Error codes\<close>

datatype gaierrc =
    Invalid_Flags | Unknown_Name | Temporary_Failure | Non_Recoverable_Failure | Family_Not_Supported
  | Socktype_Not_Supported | Service_Not_Supported | Memory_Allocation_Failure | Gai_System_Error | Argument_Buffer_Overflow
  | No_Address | Address_Family_Not_Supported | In_Progress | Canceled | Not_Canceled | All_Done | Interrupted | Idn_Encode

fun gaierrc_value :: "gaierrc \<Rightarrow> int" where
  "gaierrc_value Invalid_Flags = - 1"
| "gaierrc_value Unknown_Name = - 2"
| "gaierrc_value Temporary_Failure = - 3"
| "gaierrc_value Non_Recoverable_Failure = - 4"
| "gaierrc_value No_Address = - 5"
| "gaierrc_value Family_Not_Supported = - 6"
| "gaierrc_value Socktype_Not_Supported = - 7"
| "gaierrc_value Service_Not_Supported = - 8"
| "gaierrc_value Address_Family_Not_Supported = - 9"
| "gaierrc_value Memory_Allocation_Failure = - 10"
| "gaierrc_value Gai_System_Error = - 11"
| "gaierrc_value Argument_Buffer_Overflow = - 12"
| "gaierrc_value In_Progress = - 100"
| "gaierrc_value Canceled = - 101"
| "gaierrc_value Not_Canceled = - 102"
| "gaierrc_value All_Done = - 103"
| "gaierrc_value Interrupted = - 104"
| "gaierrc_value Idn_Encode = - 105"

text \<open>A category has a name and the messages of its codes, those of \<^verbatim>\<open>gai_strerror\<close> here; an error code is a value and a category.\<close>

record error_category =
  category_name :: string
  category_message :: "int \<Rightarrow> string"

definition resolver_error_category :: "(int \<Rightarrow> string) \<Rightarrow> error_category" where
  "resolver_error_category gai_strerror = \<lparr>category_name = ''resolver'', category_message = gai_strerror\<rparr>"

text \<open>How the operation reports each code.\<close>

definition code_completion :: "int \<Rightarrow> (unit, int + 'e) signal option" where
  "code_completion rc =
     (if rc = 0 \<or> rc = gaierrc_value In_Progress then None
      else if rc = gaierrc_value Canceled then Some Set_Stopped
      else Some (Set_Error (Inl rc)))"

text \<open>Remark (resolve_codes). The codes are distinct and none is success. A failed resolution completes the operation with the code, except for a
  cancellation, which completes it as stopped, and a notification that the request is still in progress, which does not complete it.\<close>

theorem resolve_codes:
  "(gaierrc_value x = gaierrc_value y \<longleftrightarrow> x = y) \<and> gaierrc_value x \<noteq> 0 \<and>
   resolve_notify bo throws (gaierrc_value x) ais (resolve_init q) =
     Some (case code_completion (gaierrc_value x) of None \<Rightarrow> resolve_init q | Some sig \<Rightarrow> rs_complete sig (resolve_init q)) \<and>
   (code_completion (gaierrc_value x) = (None :: (unit, int + 'e) signal option) \<longleftrightarrow> x = In_Progress)"
  by (cases x; cases y) (simp_all add: resolve_notify_def code_completion_def EAI_CANCELED_def EAI_INPROGRESS_def)

subsection \<open>Queries\<close>

text \<open>
  The arguments of a call. A context is a scheduler, or a class that customizes \<^verbatim>\<open>resolve\<close>, or both; the inline scheduler is one
  of the schedulers.
\<close>

datatype 's call_context = Inline_Scheduler | Context 's

datatype 's argument =
    Context_Arg "'s call_context"
  | Query_Arg resolver_query
  | Protocol_Arg protocol
  | String_Arg string
  | Flags_Arg resolver_flags

text \<open>The four constructors of a query, all of them explicit, with the default argument for the flags, and the copy constructor.\<close>

fun take_string :: "'s argument list \<Rightarrow> (string \<times> 's argument list) option" where
  "take_string (String_Arg s # args) = Some (s, args)"
| "take_string _ = None"

fun take_protocol :: "'s argument list \<Rightarrow> (protocol \<times> 's argument list) option" where
  "take_protocol (Protocol_Arg p # args) = Some (p, args)"
| "take_protocol _ = None"

fun take_flags :: "resolver_flags \<Rightarrow> 's argument list \<Rightarrow> resolver_flags option" where
  "take_flags flags0 [] = Some flags0"
| "take_flags flags0 [Flags_Arg flags] = Some flags"
| "take_flags flags0 _ = None"

fun construct_copy :: "'s argument list \<Rightarrow> resolver_query option" where
  "construct_copy [Query_Arg q] = Some q"
| "construct_copy _ = None"

definition construct_service :: "'s argument list \<Rightarrow> resolver_query option" where
  "construct_service args = do {
     (service, args) \<leftarrow> take_string args;
     flags \<leftarrow> take_flags default_service_flags args;
     Some (query_service service flags)
   }"

definition construct_host :: "'s argument list \<Rightarrow> resolver_query option" where
  "construct_host args = do {
     (host, args) \<leftarrow> take_string args;
     (service, args) \<leftarrow> take_string args;
     flags \<leftarrow> take_flags address_configured args;
     Some (query_host host service flags)
   }"

definition construct_protocol_service :: "'s argument list \<Rightarrow> resolver_query option" where
  "construct_protocol_service args = do {
     (p, args) \<leftarrow> take_protocol args;
     (service, args) \<leftarrow> take_string args;
     flags \<leftarrow> take_flags default_service_flags args;
     Some (query_protocol_service p service flags)
   }"

definition construct_protocol_host :: "'s argument list \<Rightarrow> resolver_query option" where
  "construct_protocol_host args = do {
     (p, args) \<leftarrow> take_protocol args;
     (host, args) \<leftarrow> take_string args;
     (service, args) \<leftarrow> take_string args;
     flags \<leftarrow> take_flags address_configured args;
     Some (query_protocol_host p host service flags)
   }"

definition constructors :: "'s argument list \<Rightarrow> resolver_query list" where
  "constructors args = concat (map (\<lambda>f. case f args of None \<Rightarrow> [] | Some q \<Rightarrow> [q])
     [construct_copy, construct_service, construct_host, construct_protocol_service, construct_protocol_host])"

text \<open>The constructor that takes part in overload resolution. It is the only one.\<close>

definition construct_query :: "'s argument list \<Rightarrow> resolver_query option" where
  "construct_query args = (case constructors args of [q] \<Rightarrow> Some q | _ \<Rightarrow> None)"

lemmas constructor_defs = construct_query_def constructors_def construct_service_def construct_host_def
  construct_protocol_service_def construct_protocol_host_def

lemma take_flags_Some: "take_flags d args = Some f \<Longrightarrow> args = [] \<or> args = [Flags_Arg f]"
  by (cases "(d, args)" rule: take_flags.cases) auto

lemma take_flags_None: "take_string args = Some x \<Longrightarrow> take_flags d args = None"
  by (cases args rule: take_string.cases) simp_all

lemma constructors_unique: "length (constructors args) \<le> 1"
proof (cases args)
  case (Cons a as)
  show ?thesis
  proof (cases a)
    case (String_Arg s)
    then show ?thesis using take_flags_None [of as]
      by (cases "take_string as") (auto simp: Cons constructor_defs split: option.split)
  next
    case (Protocol_Arg p)
    show ?thesis
    proof (cases "take_string as")
      case (Some x)
      with Protocol_Arg show ?thesis using take_flags_None [of "snd x"]
        by (cases "take_string (snd x)") (auto simp: Cons constructor_defs split: option.split prod.split)
    qed (simp add: Cons Protocol_Arg constructor_defs)
  qed (cases as; simp add: Cons constructor_defs)+
qed (simp add: constructor_defs)

subsection \<open>The sender\<close>

record 's resolve_sender =
  rs_scheduler :: "'s call_context"
  rs_sender_query :: resolver_query
  rs_moved :: bool

text \<open>
  Subscribing moves the scheduler and the query out of the sender, also when it is an lvalue; a constant sender does not
  compile. What a moved-from query holds is not specified.
\<close>

definition resolve_subscribe ::
  "category \<Rightarrow> 's resolve_sender \<Rightarrow> (gai_request \<times> 'e resolve_op \<times> 's resolve_sender) option" where
  "resolve_subscribe c s =
     (if c = Const_Lvalue \<or> rs_moved s then None
      else Some (resolve_request (rs_sender_query s), resolve_init (rs_sender_query s), s\<lparr>rs_moved := True\<rparr>))"

subsection \<open>The overloads\<close>

text \<open>\<open>customized\<close> and \<open>scheduler\<close> say which contexts customize \<^verbatim>\<open>resolve\<close> for a query, and which are schedulers.\<close>

fun customized_viable :: "('s call_context \<Rightarrow> bool) \<Rightarrow> 's argument list \<Rightarrow> bool" where
  "customized_viable customized [Context_Arg c, Query_Arg q] = customized c"
| "customized_viable customized _ = False"

fun sender_viable :: "('s call_context \<Rightarrow> bool) \<Rightarrow> ('s call_context \<Rightarrow> bool) \<Rightarrow> 's argument list \<Rightarrow> bool" where
  "sender_viable customized scheduler [Context_Arg c, Query_Arg q] = (scheduler c \<and> \<not> customized c)"
| "sender_viable customized scheduler _ = False"

fun is_query :: "'s argument \<Rightarrow> bool" where
  "is_query (Query_Arg q) = True"
| "is_query _ = False"

fun scheduler_viable :: "('s call_context \<Rightarrow> bool) \<Rightarrow> ('s call_context \<Rightarrow> bool) \<Rightarrow> 's argument list \<Rightarrow> bool" where
  "scheduler_viable customized scheduler (Context_Arg c # arg # args) =
     (scheduler c \<and> \<not> is_query arg \<and>
      (\<forall>q \<in> set_option (construct_query (arg # args)).
         customized_viable customized [Context_Arg c, Query_Arg q :: 's argument] \<or>
         sender_viable customized scheduler [Context_Arg c, Query_Arg q :: 's argument]) \<and>
      construct_query (arg # args) \<noteq> None)"
| "scheduler_viable customized scheduler _ = False"

fun inline_viable :: "('s call_context \<Rightarrow> bool) \<Rightarrow> 's argument list \<Rightarrow> bool" where
  "inline_viable scheduler (arg # args) =
     ((case arg of Context_Arg c \<Rightarrow> \<not> scheduler c | _ \<Rightarrow> True) \<and> construct_query (arg # args) \<noteq> None)"
| "inline_viable scheduler [] = False"

text \<open>The result: a customization is called, or a sender of the library is made.\<close>

datatype 's resolution = Customized "'s call_context" resolver_query | Library_Sender "'s resolve_sender"

definition library_sender :: "'s call_context \<Rightarrow> resolver_query \<Rightarrow> 's resolution" where
  "library_sender c q = Library_Sender \<lparr>rs_scheduler = c, rs_sender_query = q, rs_moved = False\<rparr>"

text \<open>The first two overloads.\<close>

definition resolve_query_call ::
  "('s call_context \<Rightarrow> bool) \<Rightarrow> ('s call_context \<Rightarrow> bool) \<Rightarrow> 's call_context \<Rightarrow> resolver_query \<Rightarrow> 's resolution option" where
  "resolve_query_call customized scheduler c q =
     (if customized_viable customized [Context_Arg c, Query_Arg q :: 's argument] then Some (Customized c q)
      else if sender_viable customized scheduler [Context_Arg c, Query_Arg q :: 's argument] then Some (library_sender c q)
      else None)"

text \<open>All overloads; the last two call one of the first. \<open>None\<close>: the call does not compile.\<close>

definition resolve_call ::
  "('s call_context \<Rightarrow> bool) \<Rightarrow> ('s call_context \<Rightarrow> bool) \<Rightarrow> 's argument list \<Rightarrow> 's resolution option" where
  "resolve_call customized scheduler args =
     (if customized_viable customized args \<or> sender_viable customized scheduler args then
        (case args of [Context_Arg c, Query_Arg q] \<Rightarrow> resolve_query_call customized scheduler c q | _ \<Rightarrow> None)
      else if scheduler_viable customized scheduler args then
        (case args of
           Context_Arg c # rest \<Rightarrow> do { q \<leftarrow> construct_query rest; resolve_query_call customized scheduler c q }
         | _ \<Rightarrow> None)
      else if inline_viable scheduler args then
        do { q \<leftarrow> construct_query args; resolve_query_call customized scheduler Inline_Scheduler q }
      else None)"

lemma construct_no_context [simp]: "construct_query (Context_Arg c # args) = None"
  by (cases args) (simp_all add: constructor_defs)

lemma construct_query_copy [simp]:
  "construct_query [Query_Arg q] = Some q" "construct_query (Query_Arg q # a # as) = None"
  by (simp_all add: constructor_defs)

lemma construct_nothing [simp]: "construct_query [] = None"
  by (simp add: constructor_defs)

definition viable_overloads :: "('s call_context \<Rightarrow> bool) \<Rightarrow> ('s call_context \<Rightarrow> bool) \<Rightarrow> 's argument list \<Rightarrow> bool list" where
  "viable_overloads customized scheduler args =
     filter id [customized_viable customized args, sender_viable customized scheduler args,
       scheduler_viable customized scheduler args, inline_viable scheduler args]"

lemma viable_context:
  "viable_overloads customized scheduler (Context_Arg c # args) =
     (if construct_query args \<noteq> None \<and> (scheduler c \<or> customized c \<and> is_query (hd args)) then [True] else [])"
proof (cases args)
  case (Cons arg rest)
  then show ?thesis
    by (cases arg; cases rest) (auto simp: viable_overloads_def construct_no_context)
qed (simp add: viable_overloads_def)

lemma viable_plain:
  "(\<And>c. arg \<noteq> Context_Arg c) \<Longrightarrow> viable_overloads customized scheduler (arg # args) =
     (if construct_query (arg # args) \<noteq> None then [True] else [])"
  by (cases arg) (auto simp: viable_overloads_def)

text \<open>Remark (resolve_overloads). No call of \<^verbatim>\<open>resolve\<close> is ambiguous. A call without a context that constructs a query makes a sender on the inline scheduler; a call with a
  scheduler that constructs a query reaches the customization of the scheduler, or makes a sender of the library; any other context
  can be given a query only.\<close>

theorem resolve_overloads:
  assumes "scheduler Inline_Scheduler" "\<not> customized Inline_Scheduler"
  shows "length (viable_overloads customized scheduler args) \<le> 1 \<and>
    resolve_call customized scheduler args =
      (case args of
         Context_Arg c # rest \<Rightarrow>
           map_option (if customized c then Customized c else library_sender c)
             (if scheduler c \<or> customized c \<and> is_query (hd rest) then construct_query rest else None)
       | _ \<Rightarrow> map_option (library_sender Inline_Scheduler) (construct_query args))"
proof (cases args)
  case (Cons arg rest)
  note args = Cons
  show ?thesis
  proof (cases "\<exists>c. arg = Context_Arg c")
    case True
    then obtain c where c: "arg = Context_Arg c" by blast
    have "length (viable_overloads customized scheduler args) \<le> 1" by (simp add: args c viable_context)
    moreover have "resolve_call customized scheduler args = map_option (if customized c then Customized c else library_sender c)
        (if scheduler c \<or> customized c \<and> is_query (hd rest) then construct_query rest else None)"
    proof (cases rest)
      case (Cons a as)
      then show ?thesis
        by (cases a; cases as)
          (auto simp: args c resolve_call_def resolve_query_call_def construct_no_context split: option.split)
    qed (simp add: args c resolve_call_def)
    ultimately show ?thesis by (simp add: args c)
  next
    case False
    with assms show ?thesis
      by (cases arg) (auto simp: args viable_plain resolve_call_def resolve_query_call_def split: option.split)
  qed
qed (simp add: viable_overloads_def resolve_call_def)

theorem resolve_overloads_witness:
  "resolve_call (\<lambda>_. False) (\<lambda>_. True) [Protocol_Arg tcp_v4, String_Arg ''localhost'', String_Arg ''http'' :: nat argument] =
     Some (library_sender Inline_Scheduler (query_protocol_host tcp_v4 ''localhost'' ''http'' address_configured))"
  using resolve_overloads [of "\<lambda>_. True" "\<lambda>_. False" "[Protocol_Arg tcp_v4, String_Arg ''localhost'', String_Arg ''http'' :: nat argument]"]
  by (simp add: constructor_defs)

subsection \<open>The first result\<close>

text \<open>
  \<^verbatim>\<open>first\<close> of the sender: the item of the first result stores it and is stopped, and the signal that the sequence then completes
  with, if it completes, is that of \<^verbatim>\<open>first\<close>.
\<close>

definition first_result_handler ::
  "(resolver_result, int + 'e) first_cell \<Rightarrow> 'e resolve_op \<Rightarrow>
     ((resolver_result, int + 'e) sent \<times> (resolver_result, int + 'e) signal option) option" where
  "first_result_handler cell s = (case rs_completed s of [sig] \<Rightarrow> Some (first_complete sig cell) | _ \<Rightarrow> None)"

definition first_of_resolve ::
  "byte_order \<Rightarrow> stop_token \<Rightarrow> int \<Rightarrow> addrinfo list \<Rightarrow> 'e resolve_op \<Rightarrow>
     ('e resolve_op \<times> ((resolver_result, int + 'e) sent \<times> (resolver_result, int + 'e) signal option) option) option" where
  "first_of_resolve bo token rc ais op = do {
     s \<leftarrow> resolve_notify bo None rc ais op;
     (case rs_items s of
        [] \<Rightarrow> Some (s, first_result_handler first_init s)
      | result # _ \<Rightarrow> do {
          let (cell, sig) = first_item (Set_Value result) first_init;
          s1 \<leftarrow> (if sig = Set_Stopped then next_set_stopped token s else next_set_value bo None s);
          Some (s1, first_result_handler cell s1)
        })
   }"

text \<open>Remark (resolve_first). \<^verbatim>\<open>first\<close> of a query gives the first address that it resolves to and frees the list of all addresses once; an error of the
  resolver is its error; and when the resolver succeeds with no address, \<^verbatim>\<open>first\<close> completes as stopped and then reads a result that was never stored.\<close>

theorem first_of_resolve_gives:
  assumes "\<forall>ai \<in> set ais. valid_ai ai" "\<not> stop_requested token"
    "resolve_subscribe c sd = Some (req, op :: 'e resolve_op, sd1)"
  shows "(ais \<noteq> [] \<longrightarrow> (\<exists>s. first_of_resolve bo token 0 ais op =
      Some (s, Some ([], Some (Set_Value (result_of bo (rs_sender_query sd) (hd ais))))) \<and> rs_freed s = 1)) \<and>
    (code_completion rc = Some (Set_Error e) \<longrightarrow> (\<exists>s. first_of_resolve bo token rc ais op = Some (s, Some ([], Some (Set_Error e))))) \<and>
    (\<exists>s. first_of_resolve bo token 0 [] op = Some (s, Some ([Set_Stopped], None)))"
proof -
  have stops: "set_value_unless_stopped token = (Set_Value () :: (unit, 'x) signal)"
    using assms(2) by simp
  have op: "op = resolve_init (rs_sender_query sd)" using assms(3) by (simp add: resolve_subscribe_def split: if_splits)
  have "\<exists>s. first_of_resolve bo token 0 ais op =
      Some (s, Some ([], Some (Set_Value (result_of bo (rs_sender_query sd) (hd ais))))) \<and> rs_freed s = 1" if ne: "ais \<noteq> []"
  proof -
    have n: "resolve_notify bo None 0 ais op = Some (at_item bo (rs_sender_query sd) ais 0)"
      unfolding op by (rule notify_first [OF assms(1) ne])
    obtain a rest where "ais = a # rest" using ne by (cases ais) auto
    with n assms(2) show ?thesis
      by (simp add: first_of_resolve_def stops at_item_def first_item_def next_set_stopped_def rs_complete_def
          free_results_def first_result_handler_def first_complete_def first_visit_def first_emplace_def first_cas_def
          first_construct_def first_publish_def first_init_def)
  qed
  moreover have "\<exists>s. first_of_resolve bo token rc ais op = Some (s, Some ([], Some (Set_Error e)))" if "code_completion rc = Some (Set_Error e)"
    using that by (auto simp: first_of_resolve_def op code_completion_def resolve_notify_def EAI_CANCELED_def EAI_INPROGRESS_def
        resolve_init_def rs_complete_def first_result_handler_def first_complete_def split: if_splits)
  moreover have "\<exists>s. first_of_resolve bo token 0 [] op = Some (s, Some ([Set_Stopped], None))"
    by (simp add: first_of_resolve_def op resolve_notify_def resolve_init_def rs_complete_def first_result_handler_def
        first_complete_def first_visit_def first_init_def)
  ultimately show ?thesis by blast
qed

theorem first_of_resolve_gives_witness:
  "\<exists>s. first_of_resolve Little_Endian Unstoppable 0 [\<lparr>ai_addr = Sockaddr_In 80 1, ai_addrlen = 16\<rparr>]
      (resolve_init (query_host ''a'' ''b'' 0) :: nat resolve_op) =
    Some (s, Some ([], Some (Set_Value (result_of Little_Endian (query_host ''a'' ''b'' 0) \<lparr>ai_addr = Sockaddr_In 80 1, ai_addrlen = 16\<rparr>))))"
proof -
  let ?sd = "\<lparr>rs_scheduler = Inline_Scheduler :: nat call_context, rs_sender_query = query_host ''a'' ''b'' 0, rs_moved = False\<rparr>"
  have "resolve_subscribe Rvalue ?sd =
      Some (resolve_request (query_host ''a'' ''b'' 0), resolve_init (query_host ''a'' ''b'' 0) :: nat resolve_op, ?sd\<lparr>rs_moved := True\<rparr>)"
    by (simp add: resolve_subscribe_def)
  from first_of_resolve_gives [OF _ _ this, of "[\<lparr>ai_addr = Sockaddr_In 80 1, ai_addrlen = 16\<rparr>]" Unstoppable Little_Endian]
  show ?thesis by (auto simp: valid_ai_def stop_requested_def)
qed

text \<open>Remark (resolve_once). A sender of the resolver can be subscribed to once; \<^verbatim>\<open>repeat\<close>, which subscribes to a constant sender, does not compile for it.\<close>

theorem resolve_once:
  assumes "resolve_subscribe c s = Some (req, op :: 'e resolve_op, s1)"
  shows "resolve_subscribe c2 s1 = (None :: (gai_request \<times> 'e resolve_op \<times> 's resolve_sender) option) \<and>
    resolve_subscribe Const_Lvalue s = (None :: (gai_request \<times> 'e resolve_op \<times> 's resolve_sender) option)"
  using assms by (auto simp: resolve_subscribe_def split: if_splits)

theorem resolve_once_witness:
  "resolve_subscribe Lvalue \<lparr>rs_scheduler = Inline_Scheduler :: nat call_context, rs_sender_query = query_host ''a'' ''b'' 0, rs_moved = True\<rparr> =
     (None :: (gai_request \<times> nat resolve_op \<times> nat resolve_sender) option)"
  using resolve_once [of Rvalue "\<lparr>rs_scheduler = Inline_Scheduler :: nat call_context, rs_sender_query = query_host ''a'' ''b'' 0, rs_moved = False\<rparr>" _
      "resolve_init (query_host ''a'' ''b'' 0) :: nat resolve_op" _ Lvalue]
  by (simp add: resolve_subscribe_def)

end
