(* ===== verification/Io_Concepts.thy ===== *)
theory Io_Concepts
  imports Customization
begin

text \<open>
  The concepts of streams and files in \<^verbatim>\<open>io_concepts.hpp\<close>, the interfaces that the classes of
  \<^verbatim>\<open>io_uring/file_handle.hpp\<close> and \<^verbatim>\<open>io_uring/socket_handle.hpp\<close> offer to the customization points, and what
  the compiler accepts.
\<close>

subsection \<open>Concepts\<close>

text \<open>
  A stream is the typedefs it has and, for each overload of its functions, the interface together with
  whether the sender that it gives completes with a single \<^verbatim>\<open>std::size_t\<close>.
\<close>

record stream_type =
  buffer_typedefs :: bool
  offset_typedef :: bool
  read_some_of :: "interface \<times> bool"
  write_some_of :: "interface \<times> bool"
  read_some_at_of :: "interface \<times> bool"
  write_some_at_of :: "interface \<times> bool"

definition with_buffer_typedefs :: "stream_type \<Rightarrow> bool" where
  "with_buffer_typedefs t = buffer_typedefs t"

definition with_offset :: "stream_type \<Rightarrow> bool" where
  "with_offset t = offset_typedef t"

definition readable_byte_stream :: "stream_type \<Rightarrow> bool" where
  "readable_byte_stream t \<longleftrightarrow> with_buffer_typedefs t \<and>
     read_some_cpo_viable (fst (read_some_of t)) \<and> snd (read_some_of t)"

definition writable_byte_stream :: "stream_type \<Rightarrow> bool" where
  "writable_byte_stream t \<longleftrightarrow> with_buffer_typedefs t \<and>
     write_some_cpo_viable (fst (write_some_of t)) \<and> snd (write_some_of t)"

definition byte_stream_concept :: "stream_type \<Rightarrow> bool" where
  "byte_stream_concept t \<longleftrightarrow> with_buffer_typedefs t \<and> readable_byte_stream t \<and> writable_byte_stream t"

definition seekable_byte_stream_concept :: "stream_type \<Rightarrow> bool" where
  "seekable_byte_stream_concept t \<longleftrightarrow> byte_stream_concept t \<and> with_offset t \<and>
     read_some_cpo_viable (fst (read_some_at_of t)) \<and> snd (read_some_at_of t) \<and>
     write_some_cpo_viable (fst (write_some_at_of t)) \<and> snd (write_some_at_of t)"

text \<open>
  A handle of a path: whether its class is regular, which takes a default constructor, copies and \<^verbatim>\<open>==\<close>, and whether
  it has a \<^verbatim>\<open>path()\<close> that converts to a path. A resource is what opens to such a handle.
\<close>

record handle_type =
  is_regular :: bool
  path_converts :: bool

definition path_handle_concept :: "handle_type \<Rightarrow> bool" where
  "path_handle_concept h \<longleftrightarrow> is_regular h \<and> path_converts h"

definition path_resource_concept :: "bool \<Rightarrow> handle_type \<Rightarrow> bool" where
  "path_resource_concept is_resource token \<longleftrightarrow> is_resource \<and> path_handle_concept token"

definition file_handle_concept :: "handle_type \<Rightarrow> stream_type \<Rightarrow> bool" where
  "file_handle_concept h t \<longleftrightarrow> path_handle_concept h \<and> seekable_byte_stream_concept t"

definition file_resource_concept :: "bool \<Rightarrow> handle_type \<Rightarrow> stream_type \<Rightarrow> bool" where
  "file_resource_concept is_resource token t \<longleftrightarrow> is_resource \<and> file_handle_concept token t"

definition io_scheduler_concept :: "bool \<Rightarrow> bool \<Rightarrow> bool" where
  "io_scheduler_concept timed_scheduler factory \<longleftrightarrow> timed_scheduler \<and> factory"

text \<open>
  \<^verbatim>\<open>file_factory\<close> calls \<open>open_file\<close> with the base in front of the path, while \<open>open_file\<close> takes the path
  first: the call is viable when a base converts to a path and a path to a base.
\<close>

definition file_factory :: "category \<Rightarrow> interface \<Rightarrow> interface \<Rightarrow> bool \<Rightarrow> bool \<Rightarrow> bool \<Rightarrow> bool" where
  "file_factory c paths files base_is_path path_is_base gives_file_resource \<longleftrightarrow>
     path_factory paths \<and> base_is_path \<and> path_is_base \<and> open_file_viable c paths files \<and>
     gives_file_resource"

subsection \<open>The classes of the library\<close>

text \<open>
  A class that declares one function, perhaps \<open>const\<close> and perhaps \<open>noexcept\<close>, with parameters that are
  taken by value or by a reference to a constant; or none.
\<close>

definition declared :: "bool \<Rightarrow> bool \<Rightarrow> interface" where
  "declared is_const is_noexcept = \<lparr>member_fn = (\<lambda>c _. if c = Const_Lvalue \<and> \<not> is_const then Ill_Formed
       else Well_Formed is_noexcept), static_fn = (\<lambda>_ _. Ill_Formed)\<rparr>"

definition undeclared :: interface where
  "undeclared = \<lparr>member_fn = (\<lambda>_ _. Ill_Formed), static_fn = (\<lambda>_ _. Ill_Formed)\<rparr>"

definition native_handle_close :: interface where
  "native_handle_close = declared True True"

definition path_resource_open :: interface where
  "path_resource_open = declared True False"

definition file_resource_open :: interface where
  "file_resource_open = declared True True"

definition socket_open :: interface where
  "socket_open = declared False True"

definition acceptor_open_fn :: interface where
  "acceptor_open_fn = declared False True"

definition io_scheduler_open_path :: interface where
  "io_scheduler_open_path = declared True True"

definition io_scheduler_open_file :: interface where
  "io_scheduler_open_file = declared True True"

text \<open>The handles have a file descriptor and a context, but neither \<^verbatim>\<open>path()\<close> nor \<^verbatim>\<open>==\<close>.\<close>

definition native_fd_handle_class :: handle_type where
  "native_fd_handle_class = \<lparr>is_regular = False, path_converts = False\<rparr>"

definition byte_stream_class :: stream_type where
  "byte_stream_class = \<lparr>buffer_typedefs = True, offset_typedef = False,
     read_some_of = (declared True True, True), write_some_of = (declared True True, True),
     read_some_at_of = (undeclared, False), write_some_at_of = (undeclared, False)\<rparr>"

definition seekable_byte_stream_class :: stream_type where
  "seekable_byte_stream_class = \<lparr>buffer_typedefs = True, offset_typedef = True,
     read_some_of = (declared True True, True), write_some_of = (declared True True, True),
     read_some_at_of = (declared True True, True), write_some_at_of = (declared True True, True)\<rparr>"

definition socket_handle_connect :: interface where
  "socket_handle_connect = declared True True"

definition socket_handle_sendmsg :: interface where
  "socket_handle_sendmsg = declared True True"

definition acceptor_handle_accept_once :: interface where
  "acceptor_handle_accept_once = declared True True"

subsection \<open>What the compiler accepts\<close>

lemmas viable_defs = open_viable_def read_some_cpo_viable_def read_cpo_viable_def socket_cpo_viable_def
  connect_cpo_viable_def accept_once_cpo_viable_def accept_viable_def sendmsg_cpo_viable_def
  recvmsg_cpo_viable_def close_viable_def open_path_viable_def write_some_cpo_viable_def
  write_cpo_viable_def open_file_viable_def path_factory_def

lemmas call_defs = open_call_def read_some_cpo_call_def read_cpo_call_def socket_cpo_call_def
  connect_cpo_call_def accept_once_cpo_call_def accept_call_def sendmsg_cpo_call_def
  recvmsg_cpo_call_def close_call_def open_path_call_def write_some_cpo_call_def
  write_cpo_call_def open_file_call_def member_or_static_def call_of_def

lemmas noexcept_defs = open_noexcept_def read_some_cpo_noexcept_def read_cpo_noexcept_def
  socket_cpo_noexcept_def connect_cpo_noexcept_def accept_once_cpo_noexcept_def accept_noexcept_def
  sendmsg_cpo_noexcept_def recvmsg_cpo_noexcept_def close_noexcept_def open_path_noexcept_def
  write_some_cpo_noexcept_def write_cpo_noexcept_def open_file_noexcept_def


text \<open>
  The promise not to throw is made when one of the two functions makes it, so that it is right for
  a class with one of them, and for the fallback of \<open>accept\<close>, for which it is never made.
\<close>

lemma promise_of_only_function:
  assumes "nothrow m \<or> nothrow s" "\<not> (well_formed m \<and> well_formed s)"
    "member_or_static (well_formed m \<or> well_formed s) (well_formed m) m s = Calls f"
  shows "nothrow (if f = Member then m else s)"
  using assms by (auto simp: member_or_static_def call_of_def dest: nothrow_well_formed split: if_splits)

text \<open>Remark (cpo_noexcept). The exception specification of a customization point is right for a class that has only one of
  the two functions. With a member function that may throw and a static one that may not, the member function is called and the call is
  still promised not to throw.\<close>

theorem exception_specifications:
  assumes "\<And>c a. \<not> (well_formed (member_fn t c a) \<and> well_formed (static_fn t c a))"
  shows "(read_some_cpo_noexcept t \<and> read_some_cpo_call t = Calls f \<longrightarrow>
      nothrow (if f = Member then member_fn t Const_Lvalue Forwarded else static_fn t Const_Lvalue Forwarded)) \<and>
    (connect_cpo_noexcept c t \<and> connect_cpo_call c t = Calls f \<longrightarrow>
      nothrow (if f = Member then member_fn t c Forwarded else static_fn t c Forwarded)) \<and>
    (accept_noexcept c t \<longrightarrow> accept_call c t once \<noteq> Calls Repeat_And_Fork) \<and>
    (let both = \<lparr>member_fn = \<lambda>_ _. Well_Formed False, static_fn = \<lambda>_ _. Well_Formed True\<rparr>
     in read_some_cpo_noexcept both \<and> read_some_cpo_call both = Calls Member \<and>
       \<not> nothrow (member_fn both Const_Lvalue Forwarded))"
proof (intro conjI impI)
  assume "read_some_cpo_noexcept t \<and> read_some_cpo_call t = Calls f"
  then show "nothrow (if f = Member then member_fn t Const_Lvalue Forwarded else static_fn t Const_Lvalue Forwarded)"
    using promise_of_only_function [OF _ assms]
    by (simp only: read_some_cpo_noexcept_def read_some_cpo_call_def read_some_cpo_viable_def)
next
  assume "connect_cpo_noexcept c t \<and> connect_cpo_call c t = Calls f"
  then show "nothrow (if f = Member then member_fn t c Forwarded else static_fn t c Forwarded)"
    using promise_of_only_function [OF _ assms]
    by (simp only: connect_cpo_noexcept_def connect_cpo_call_def connect_cpo_viable_def)
next
  assume "accept_noexcept c t"
  then show "accept_call c t once \<noteq> Calls Repeat_And_Fork"
    by (auto simp: accept_noexcept_def accept_call_def call_of_def dest: nothrow_well_formed)
qed (simp add: read_some_cpo_noexcept_def call_defs viable_defs)

theorem exception_specifications_witness:
  "connect_cpo_noexcept Lvalue socket_handle_connect \<and>
   nothrow (member_fn socket_handle_connect Lvalue Forwarded)"
  using exception_specifications [of socket_handle_connect Member Lvalue undeclared]
  by (simp add: socket_handle_connect_def declared_def connect_cpo_noexcept_def call_defs viable_defs)

text \<open>Remark (cpo_mismatch). Where the constraint looks at another call than the body makes, classes are admitted whose call does not compile:
  a \<open>close\<close> or \<open>open_path\<close> that is not a constant function, a \<open>write_some\<close> or \<open>write\<close> that takes its buffers by
  a mutable reference, and a static \<open>open_file\<close> of a factory that is an lvalue. A static \<open>open\<close> is never called.\<close>

theorem constraints_do_not_fit:
  "let mutable_only = declared False True;
       by_reference = \<lparr>member_fn = \<lambda>_ a. if a = Named then Well_Formed True else Ill_Formed,
         static_fn = \<lambda>_ _. Ill_Formed\<rparr>;
       static_only = \<lparr>member_fn = \<lambda>_ _. Ill_Formed, static_fn = \<lambda>_ _. Well_Formed True\<rparr>
   in close_call mutable_only = Ill_Formed_Body \<and> open_path_call mutable_only = Ill_Formed_Body \<and>
     write_some_cpo_call by_reference = Ill_Formed_Body \<and> write_cpo_call by_reference = Ill_Formed_Body \<and>
     open_file_call Lvalue io_scheduler_open_path static_only = Ill_Formed_Body \<and>
     open_file_call Rvalue io_scheduler_open_path static_only = Calls Static_Member \<and>
     open_call t \<noteq> Calls Static_Member"
  by (simp add: call_defs viable_defs declared_def reference_static_def deduced_static_def
      io_scheduler_open_path_def)


end
