(* ===== verification/Signatures.thy ===== *)
theory Signatures
  imports Sequence_Adaptors Scan_Reduce Fork Zip Async_Resource Memory_Pool Io_Uring_Socket
begin

text \<open>
  Completion signatures: what every sender and sequence of the library declares that it completes with,
  and whether it keeps to that. A signature is a channel with the types of its arguments; the types of
  values and errors are names, and typing functions give the type of a value or an error of a model.
\<close>

subsection \<open>Signatures\<close>

datatype signature_type = Value_Sig "string list" | Error_Sig string | Stopped_Sig

type_synonym signatures = "signature_type list"

definition exception_ptr :: string where "exception_ptr = ''std::exception_ptr''"
definition error_code :: string where "error_code = ''std::error_code''"

definition error_types :: "signatures \<Rightarrow> string list" where
  "error_types sigs = concat (map (\<lambda>s. case s of Error_Sig e \<Rightarrow> [e] | _ \<Rightarrow> []) sigs)"

text \<open>
  \<^verbatim>\<open>transform_completion_signatures\<close> of the standard: the additional signatures, and those of the child
  with its value signatures replaced.
\<close>

definition transform_signatures ::
  "signatures \<Rightarrow> signatures \<Rightarrow> (string list \<Rightarrow> signatures) \<Rightarrow> signatures" where
  "transform_signatures child additional set_value =
     additional @ concat (map (\<lambda>s. case s of Value_Sig vs \<Rightarrow> set_value vs | _ \<Rightarrow> [s]) child)"

fun signature_of :: "('v \<Rightarrow> string list) \<Rightarrow> ('e \<Rightarrow> string) \<Rightarrow> ('v, 'e) signal \<Rightarrow> signature_type" where
  "signature_of vt et (Set_Value v) = Value_Sig (vt v)"
| "signature_of vt et (Set_Error e) = Error_Sig (et e)"
| "signature_of vt et Set_Stopped = Stopped_Sig"

definition declares :: "signatures \<Rightarrow> ('v \<Rightarrow> string list) \<Rightarrow> ('e \<Rightarrow> string) \<Rightarrow> ('v, 'e) signal \<Rightarrow> bool" where
  "declares sigs vt et sig \<longleftrightarrow> signature_of vt et sig \<in> set sigs"

lemma error_types_iff [simp]: "e \<in> set (error_types sigs) \<longleftrightarrow> Error_Sig e \<in> set sigs"
proof (induction sigs)
  case (Cons s sigs)
  then show ?case by (cases s) (auto simp: error_types_def)
qed (simp add: error_types_def)

lemma transform_Nil: "transform_signatures [] additional sv = additional"
  by (simp add: transform_signatures_def)

lemma transform_Cons:
  "set (transform_signatures (s # child) additional sv) =
     (case s of Value_Sig vs \<Rightarrow> set (sv vs) | _ \<Rightarrow> {s}) \<union> set (transform_signatures child additional sv)"
  by (cases s) (auto simp: transform_signatures_def)

lemma transform_error [simp]: "Error_Sig e \<in> set (transform_signatures child additional sv) \<longleftrightarrow>
    Error_Sig e \<in> set additional \<or> Error_Sig e \<in> set child \<or>
      (\<exists>vs. Value_Sig vs \<in> set child \<and> Error_Sig e \<in> set (sv vs))"
proof (induction child)
  case (Cons s child)
  then show ?case by (cases s) (auto simp: transform_Cons)
qed (simp add: transform_Nil)

lemma transform_stopped [simp]: "Stopped_Sig \<in> set (transform_signatures child additional sv) \<longleftrightarrow>
    Stopped_Sig \<in> set additional \<or> Stopped_Sig \<in> set child \<or>
      (\<exists>vs. Value_Sig vs \<in> set child \<and> Stopped_Sig \<in> set (sv vs))"
proof (induction child)
  case (Cons s child)
  then show ?case by (cases s) (auto simp: transform_Cons)
qed (simp add: transform_Nil)

lemma transform_value [simp]: "Value_Sig ws \<in> set (transform_signatures child additional sv) \<longleftrightarrow>
    Value_Sig ws \<in> set additional \<or> (\<exists>vs. Value_Sig vs \<in> set child \<and> Value_Sig ws \<in> set (sv vs))"
proof (induction child)
  case (Cons s child)
  then show ?case by (cases s) (auto simp: transform_Cons)
qed (simp add: transform_Nil)

text \<open>An error that is an exception (\<open>Inr ()\<close>) or one of a child (\<open>Inl\<close>); a completion without values.\<close>

definition or_exception :: "('e \<Rightarrow> string) \<Rightarrow> 'e + unit \<Rightarrow> string" where
  "or_exception et e = (case e of Inl e \<Rightarrow> et e | Inr _ \<Rightarrow> exception_ptr)"

lemma or_exception_simps [simp]:
  "or_exception et (Inl e) = et e" "or_exception et (Inr u) = exception_ptr"
  by (simp_all add: or_exception_def)

definition void :: "unit \<Rightarrow> string list" where
  "void _ = []"

lemma void_simp [simp]: "void u = []"
  by (simp add: void_def)

subsection \<open>What the sequences declare\<close>

text \<open>The arguments are what their children declare; of some, what the items of the children declare.\<close>

definition repeat_signatures :: "signatures \<Rightarrow> signatures" where
  "repeat_signatures child = Error_Sig exception_ptr # transform_signatures child [Stopped_Sig] (\<lambda>_. [])"

definition finally_signatures :: "signatures \<Rightarrow> signatures" where
  "finally_signatures fin = transform_signatures fin [Stopped_Sig] (\<lambda>vs. [Value_Sig vs])"

definition tap_signatures :: "signatures \<Rightarrow> signatures" where
  "tap_signatures fin = fin"

definition merge_signatures :: "signatures list \<Rightarrow> signatures" where
  "merge_signatures children = concat children"

definition scan_signatures :: "signatures \<Rightarrow> signatures" where
  "scan_signatures child = child"

definition scan_item_signatures :: "string \<Rightarrow> signatures \<Rightarrow> signatures" where
  "scan_item_signatures tp item = transform_signatures item [Error_Sig exception_ptr] (\<lambda>_. [Value_Sig [tp]])"

definition first_signatures :: "signatures \<Rightarrow> signatures \<Rightarrow> signatures" where
  "first_signatures child item = transform_signatures child item (\<lambda>_. [])"

definition first_item_signatures :: signatures where
  "first_item_signatures = [Stopped_Sig]"

definition last_signatures :: "signatures \<Rightarrow> signatures \<Rightarrow> signatures" where
  "last_signatures child item = transform_signatures child item (\<lambda>_. [])"

definition last_item_signatures :: signatures where
  "last_item_signatures = [Stopped_Sig]"

text \<open>\<^verbatim>\<open>fork\<close> and \<^verbatim>\<open>zip\<close> store errors in a variant, whose alternatives need not be what they declare.\<close>

definition fork_errors_variant :: "signatures \<Rightarrow> string list" where
  "fork_errors_variant child = error_types child @ [exception_ptr]"

definition fork_signatures :: "(string \<Rightarrow> string) \<Rightarrow> signatures \<Rightarrow> signatures" where
  "fork_signatures decay child = child @ map (\<lambda>e. Error_Sig (decay e)) (error_types child) @ [Stopped_Sig]"

definition zip_errors_variant ::
  "(string \<Rightarrow> string) \<Rightarrow> signatures list \<Rightarrow> signatures list \<Rightarrow> string list" where
  "zip_errors_variant decay children item_sigs =
     map decay (exception_ptr # concat (map error_types item_sigs) @ concat (map error_types children))"

definition zip_signatures :: "(string \<Rightarrow> string) \<Rightarrow> signatures list \<Rightarrow> signatures" where
  "zip_signatures decay children =
     [Value_Sig [], Stopped_Sig, Error_Sig exception_ptr] @
     concat (map (\<lambda>child. concat (map (\<lambda>s. case s of
         Value_Sig _ \<Rightarrow> [] | Error_Sig e \<Rightarrow> [Error_Sig (decay e)] | Stopped_Sig \<Rightarrow> [Stopped_Sig]) child)) children)"

definition zip_item_signatures :: signatures where
  "zip_item_signatures = [Value_Sig [], Stopped_Sig]"

definition buffered_sequence_signatures :: signatures where
  "buffered_sequence_signatures = [Value_Sig [], Error_Sig exception_ptr, Stopped_Sig]"

definition resource_signatures :: "signatures \<Rightarrow> signatures" where
  "resource_signatures opens = transform_signatures opens [Error_Sig exception_ptr] (\<lambda>_. [])"

definition use_signatures :: "string \<Rightarrow> signatures" where
  "use_signatures token = [Value_Sig [token]]"

definition with_env_signatures :: "signatures \<Rightarrow> signatures" where
  "with_env_signatures child = child"

subsection \<open>What the senders declare\<close>

definition allocate_signatures :: signatures where
  "allocate_signatures = [Value_Sig [''void*''], Error_Sig exception_ptr, Stopped_Sig]"

definition deallocate_signatures :: signatures where
  "deallocate_signatures = [Value_Sig []]"

definition lock_signatures :: signatures where
  "lock_signatures = [Value_Sig []]"

definition notify_signatures :: signatures where
  "notify_signatures = [Value_Sig []]"

definition close_sender_signatures :: signatures where
  "close_sender_signatures = [Value_Sig [], Error_Sig error_code, Stopped_Sig]"

definition open_sender_signatures :: signatures where
  "open_sender_signatures = [Value_Sig [''native_fd_handle''], Error_Sig error_code, Stopped_Sig]"

definition read_sender_signatures :: signatures where
  "read_sender_signatures = [Value_Sig [''std::size_t''], Error_Sig error_code, Stopped_Sig]"

definition read_sender_single_signatures :: signatures where
  "read_sender_single_signatures = [Value_Sig [''std::size_t''], Error_Sig error_code, Stopped_Sig]"

definition write_sender_signatures :: signatures where
  "write_sender_signatures = [Value_Sig [''std::size_t''], Error_Sig error_code, Stopped_Sig]"

definition write_sender_single_signatures :: signatures where
  "write_sender_single_signatures = [Value_Sig [''std::size_t''], Error_Sig error_code, Stopped_Sig]"

definition socket_sender_signatures :: signatures where
  "socket_sender_signatures = [Value_Sig [''socket_handle''], Error_Sig error_code]"

definition connect_sender_signatures :: signatures where
  "connect_sender_signatures = [Value_Sig [], Error_Sig error_code, Stopped_Sig]"

definition sendmsg_sender_signatures :: signatures where
  "sendmsg_sender_signatures = [Value_Sig [''std::size_t''], Error_Sig error_code, Stopped_Sig]"

definition accept_sender_signatures :: signatures where
  "accept_sender_signatures = [Value_Sig [''socket_handle''], Error_Sig error_code, Stopped_Sig]"

definition resolve_signatures :: signatures where
  "resolve_signatures = [Value_Sig [], Error_Sig error_code, Error_Sig exception_ptr, Stopped_Sig]"

subsection \<open>Senders and sequences that keep to their signatures\<close>

lemma scan_item_declared:
  assumes "declares item vt et sig"
  shows "declares (scan_item_signatures tp item) (\<lambda>_. [tp]) (or_exception et) (snd (scan_item fn sig value))"
  using assms
  by (cases sig) (auto simp: declares_def scan_item_def scan_item_signatures_def split: option.splits)

lemma scan_items_declared:
  assumes "\<forall>sig \<in> set sigs. declares item vt et sig" "out \<in> set (scan_items fn sigs acc)"
  shows "declares (scan_item_signatures tp item) (\<lambda>_. [tp]) (or_exception et) out"
  using assms
proof (induction sigs arbitrary: acc)
  case (Cons sig sigs)
  obtain acc' r where r: "scan_item fn sig acc = (acc', r)" by fastforce
  with Cons.prems(2) consider "out = r" | "out \<in> set (scan_items fn sigs acc')" by auto
  then show ?case
  proof cases
    case 1
    with r Cons.prems(1) scan_item_declared [of item vt et sig tp fn acc] show ?thesis by simp
  next
    case 2
    with Cons show ?thesis by simp
  qed
qed simp

lemma last_items_Cons:
  "c_result (last_items (sig # sigs) c) = Some out \<Longrightarrow>
     out = sig \<or> c_result (last_items sigs (fst (last_item sig c))) = Some out"
  by (cases sig) (simp_all add: last_item_def last_emplace_def)

lemma last_item_result: "c_result (fst (last_item sig c)) = Some sig"
  by (cases sig) (simp_all add: last_item_def last_emplace_def)

lemma last_items_result:
  "c_result (last_items sigs c) = Some out \<Longrightarrow> out \<in> set sigs \<or> c_result c = Some out"
proof (induction sigs arbitrary: c)
  case (Cons sig sigs)
  from last_items_Cons [OF Cons.prems] show ?case
    using Cons.IH [of "fst (last_item sig c)"] last_item_result [of sig c] by auto
qed simp

text \<open>Remark (reduce_declared). Whatever a sequence and its items do, as far as they declare it, the reduction of the sequence, which is
  \<open>last\<close> of \<open>scan\<close>, completes as it declares: with a value of its own type, an error of the sequence or of an item, an
  exception, or stopped.\<close>

theorem reduce_keeps_signatures:
  assumes "\<forall>i \<in> set sigs. declares item vt et i" "declares child void et sig"
    "reduce fn init sigs sig = Some out"
  shows "declares (last_signatures (scan_signatures child) (scan_item_signatures tp item))
    (\<lambda>_. [tp]) (or_exception et) out"
proof (cases sig)
  case (Set_Value u)
  with assms(3) have "reduce fn init sigs (Set_Value ()) = Some out" by simp
  then have "c_result (last_items (scan_items fn sigs init) last_init) = Some out"
    by (auto simp: reduce_unfold last_visit_def bind_Some_iff)
  then have "out \<in> set (scan_items fn sigs init)"
    using last_items_result by (fastforce simp: last_init_def)
  from scan_items_declared [OF assms(1) this]
  have "declares (scan_item_signatures tp item) (\<lambda>_. [tp]) (or_exception et) out" .
  then show ?thesis by (cases out) (auto simp: declares_def last_signatures_def)
next
  case (Set_Error e)
  with assms(2,3) show ?thesis
    by (auto simp: reduce_def scan_complete_def last_complete_def declares_def last_signatures_def
        scan_signatures_def)
next
  case Set_Stopped
  with assms(2,3) show ?thesis
    by (auto simp: reduce_def scan_complete_def last_complete_def declares_def last_signatures_def
        scan_signatures_def)
qed

theorem reduce_keeps_signatures_witness:
  "\<exists>out. reduce (\<lambda>t a. Some (t + a)) (0 :: nat) [Set_Value 3, Set_Value 4] (Set_Value () :: (unit, int) signal) = Some out \<and>
     declares (last_signatures (scan_signatures buffered_sequence_signatures)
       (scan_item_signatures ''std::size_t'' read_sender_signatures))
       (\<lambda>_. [''std::size_t'']) (or_exception (\<lambda>_. error_code)) out"
proof -
  let ?sigs = "[Set_Value 3, Set_Value 4] :: (nat, int) signal list"
  have r: "reduce (\<lambda>t a. Some (t + a)) (0 :: nat) ?sigs (Set_Value ()) = Some (Set_Value 7)"
    by (simp add: reduce_unfold scan_item_def scan_emplace_def last_item_def last_emplace_def last_visit_def last_init_def)
  have "\<forall>i \<in> set ?sigs. declares read_sender_signatures (\<lambda>_. [''std::size_t'']) (\<lambda>_. error_code) i"
    "declares buffered_sequence_signatures void (\<lambda>_ :: int. error_code) (Set_Value ())"
    by (simp_all add: declares_def read_sender_signatures_def buffered_sequence_signatures_def)
  from reduce_keeps_signatures [OF this r, of "''std::size_t''"] r show ?thesis by blast
qed

lemma first_declared:
  assumes "\<forall>i \<in> set sigs. declares item vt et i" "sigs \<noteq> []"
    "first_complete (Set_Value ()) (first_items sigs first_init) = (sent, Some out)"
  shows "sent = [] \<and> declares (first_signatures child item) vt et out"
proof -
  obtain i is' where i: "sigs = i # is'" using assms(2) by (cases sigs) auto
  have "first_complete (Set_Value ()) (first_items sigs first_init) = ([], Some i)"
    unfolding i by (rule first_delivers [THEN conjunct1])
  with assms(3) have "sent = []" "out = i" by simp_all
  with assms(1) i show ?thesis by (cases i) (auto simp: declares_def first_signatures_def)
qed



subsection \<open>Completions that are not declared\<close>

text \<open>Remark (signatures_broken). \<open>repeat\<close> completes with a value when stop is requested between two rounds and declares no value;
  \<open>tap\<close> may stop although its final sender cannot; a merge may stop although no sequence can; a resource
  completes with a value and declares none; the items of \<open>last\<close> complete with values and declare to stop; \<open>zip\<close> stores
  errors of items, and \<open>fork\<close> exceptions of the allocator, that they do not declare; \<^verbatim>\<open>sendmsg\<close> completes with
  an \<^verbatim>\<open>int\<close> and declares \<^verbatim>\<open>std::size_t\<close>.\<close>

theorem signatures_broken:
  fixes et :: "'e \<Rightarrow> string"
  shows "repeat_child_complete (Stoppable True) throws (Set_Value () :: (unit, 'e) signal) = Completed (Set_Value ()) \<and>
    \<not> declares (repeat_signatures child) void (or_exception et) (Set_Value ()) \<and>
    fst (tap_run (Stoppable True) (Set_Stopped :: (unit, 'e) signal) nxt fin) = (Set_Stopped :: (unit, 'e) signal) \<and>
    \<not> declares (tap_signatures [Value_Sig []]) void et Set_Stopped \<and>
    m_completed (merge_children (Stoppable True) [Set_Value ()] (merge_init 1)) = [Set_Stopped :: (unit, 'e) signal] \<and>
    \<not> declares (merge_signatures [[Value_Sig []]]) void et Set_Stopped \<and>
    final_receiver_complete token (Set_Value ()) = (Set_Value () :: (unit, 'e) signal) \<and>
    \<not> declares (resource_signatures opens) void et (Set_Value ()) \<and>
    snd (last_item (Set_Value v) c) = Set_Value () \<and> \<not> declares last_item_signatures void et (Set_Value ()) \<and>
    ''E'' \<in> set (zip_errors_variant id [[Value_Sig []]] [[Error_Sig ''E'']]) \<and>
    Error_Sig ''E'' \<notin> set (zip_signatures id [[Value_Sig []]]) \<and>
    exception_ptr \<in> set (fork_errors_variant [Value_Sig []]) \<and>
    Error_Sig exception_ptr \<notin> set (fork_signatures id [Value_Sig []]) \<and>
    sendmsg_complete 5 = Set_Value 5 \<and>
    \<not> declares sendmsg_sender_signatures (\<lambda>_ :: int. [''int'']) (\<lambda>_ :: int. error_code) (sendmsg_complete 5)"
  by (simp add: repeat_child_complete_def repeat_again_def stop_requested_def declares_def repeat_signatures_def
      tap_run_def tap_next_sender_def tap_initial_complete_def tap_signatures_def
      set_value_unless_stopped_def merge_init_def merge_child_complete_def merge_complete_def
      merge_signatures_def final_receiver_complete_def resource_signatures_def last_item_def last_item_signatures_def
      zip_errors_variant_def error_types_def zip_signatures_def exception_ptr_def fork_errors_variant_def
      fork_signatures_def sendmsg_complete_def sendmsg_sender_signatures_def error_code_def)

end
