(* ===== verification/Environments.thy ===== *)
theory Environments
  imports Sequence_Core
begin

text \<open>
  Environments: what the receivers that the library connects to other senders answer to the queries for
  a stop token, an allocator and the handling of items that stop. \<^verbatim>\<open>with_env.hpp\<close> adds answers of its own.

  A token belongs to the receiver outside, never stops, or belongs to a stop source of an operation, which
  hears of requests when a callback was registered at another token.
\<close>

datatype token = Outside | Never | Source "token option"

fun hears :: "token \<Rightarrow> bool" where
  "hears Outside = True"
| "hears Never = False"
| "hears (Source None) = False"
| "hears (Source (Some t)) = hears t"

record 'a renv =
  r_stop :: token
  r_allocator :: "'a option"
  r_stops_item :: bool

datatype 'a any_allocator = Env_Allocator 'a | New_Delete

definition env_allocator :: "'a renv \<Rightarrow> 'a any_allocator" where
  "env_allocator e = (case r_allocator e of Some a \<Rightarrow> Env_Allocator a | None \<Rightarrow> New_Delete)"

text \<open>\<^verbatim>\<open>exec::make_env(env, exec::with(get_stop_token, token))\<close>.\<close>

definition with_stop_token :: "'a renv \<Rightarrow> token \<Rightarrow> 'a renv" where
  "with_stop_token e t = e\<lparr>r_stop := t\<rparr>"

subsection \<open>The receivers of the adaptors\<close>

text \<open>
  The operations of zip and fork register a callback at the token of their receiver, the operation of
  merge does not. \<^verbatim>\<open>zip\<close> gives the same environment to its sequences and to the sender of a row; the item of a
  sequence sees that of its own item receiver.
\<close>

definition zipped_receiver_env :: "'a renv \<Rightarrow> 'a renv" where
  "zipped_receiver_env e = with_stop_token e (Source (Some (r_stop e)))"

definition zip_receiver_env :: "'a renv \<Rightarrow> 'a renv" where
  "zip_receiver_env e = with_stop_token e (Source (Some (r_stop e)))"

definition zip_item_receiver_env :: "'a renv \<Rightarrow> 'a renv" where
  "zip_item_receiver_env item_env = item_env"

definition fork_receiver_env :: "'a renv \<Rightarrow> 'a renv" where
  "fork_receiver_env e = with_stop_token e (Source (Some (r_stop e)))"

definition fork_item_receiver_env :: "'a renv \<Rightarrow> 'a renv" where
  "fork_item_receiver_env e = with_stop_token e (Source (Some (r_stop e)))"

definition fork_final_receiver_env :: "'a renv \<Rightarrow> 'a renv" where
  "fork_final_receiver_env e = with_stop_token e (Source (Some (r_stop e)))"

text \<open>The allocator of the operations of the items.\<close>

definition fork_allocator :: "'a renv \<Rightarrow> 'a any_allocator" where
  "fork_allocator e = env_allocator e"

definition merge_receiver_env :: "'a renv \<Rightarrow> 'a renv" where
  "merge_receiver_env e = with_stop_token e (Source None)"

definition last_item_receiver_env :: "'a renv \<Rightarrow> 'a renv" where
  "last_item_receiver_env e = (if r_stops_item e then with_stop_token e Never else e)"

definition last_receiver_env :: "'a renv \<Rightarrow> 'a renv" where "last_receiver_env e = e"
definition first_item_receiver_env :: "'a renv \<Rightarrow> 'a renv" where "first_item_receiver_env e = e"
definition first_receiver_env :: "'a renv \<Rightarrow> 'a renv" where "first_receiver_env e = e"
definition scan_item_receiver_env :: "'a renv \<Rightarrow> 'a renv" where "scan_item_receiver_env e = e"
definition scan_receiver_env :: "'a renv \<Rightarrow> 'a renv" where "scan_receiver_env e = e"
definition finally_receiver_env :: "'a renv \<Rightarrow> 'a renv" where "finally_receiver_env e = e"
definition tap_receiver_env :: "'a renv \<Rightarrow> 'a renv" where "tap_receiver_env e = e"
definition repeat_receiver_env :: "'a renv \<Rightarrow> 'a renv" where "repeat_receiver_env e = e"
definition buffered_item_receiver_env :: "'a renv \<Rightarrow> 'a renv" where "buffered_item_receiver_env e = e"
definition buffered_receiver_env :: "'a renv \<Rightarrow> 'a renv" where "buffered_receiver_env e = e"
definition resource_receiver_env :: "'a renv \<Rightarrow> 'a renv" where "resource_receiver_env e = e"

subsection \<open>with\_env\<close>

text \<open>An environment that answers only some of the queries: \<^verbatim>\<open>__join\<close> asks it first, then the receiver's.\<close>

record 'a partial_env =
  p_stop :: "token option"
  p_allocator :: "'a option"
  p_stops_item :: "bool option"

definition join_env :: "'a partial_env \<Rightarrow> 'a renv \<Rightarrow> 'a renv" where
  "join_env p e = \<lparr>r_stop = (case p_stop p of Some t \<Rightarrow> t | None \<Rightarrow> r_stop e),
     r_allocator = (case p_allocator p of Some a \<Rightarrow> Some a | None \<Rightarrow> r_allocator e),
     r_stops_item = (case p_stops_item p of Some b \<Rightarrow> b | None \<Rightarrow> r_stops_item e)\<rparr>"

definition with_env_receiver_env :: "'a partial_env \<Rightarrow> 'a renv \<Rightarrow> 'a renv" where
  "with_env_receiver_env p e = join_env p e"

definition with_env_complete :: "('v, 'e) signal \<Rightarrow> ('v, 'e) signal" where
  "with_env_complete sig = (case sig of Set_Value v \<Rightarrow> Set_Value v | Set_Error e \<Rightarrow> Set_Error e | Set_Stopped \<Rightarrow> Set_Stopped)"

text \<open>
  \<^verbatim>\<open>connect\<close> is a member that is not restricted to rvalues, and moves the sender out of \<^verbatim>\<open>*this\<close>: what is left of the
  sender is \<open>None\<close>, and connecting a sender that was moved from is not what was asked for.
\<close>

record ('p, 's) with_env_sender =
  we_env :: 'p
  we_sender :: "'s option"

definition with_env_connect :: "('p, 's) with_env_sender \<Rightarrow> ('p \<times> 's option) \<times> ('p, 's) with_env_sender" where
  "with_env_connect s = ((we_env s, we_sender s), s\<lparr>we_sender := None\<rparr>)"

subsection \<open>Chains of adaptors\<close>

text \<open>An adaptor between a receiver and the sender below it.\<close>

datatype 'a adaptor = A_Zip | A_Fork | A_Fork_Item | A_Merge | A_Last_Item | A_Last | A_First | A_Scan | A_Finally | A_Tap
  | A_Repeat | A_Buffered | A_Resource | A_With "'a partial_env"

fun adaptor_env :: "'a adaptor \<Rightarrow> 'a renv \<Rightarrow> 'a renv" where
  "adaptor_env A_Zip = zip_receiver_env"
| "adaptor_env A_Fork = fork_receiver_env"
| "adaptor_env A_Fork_Item = fork_item_receiver_env"
| "adaptor_env A_Merge = merge_receiver_env"
| "adaptor_env A_Last_Item = last_item_receiver_env"
| "adaptor_env A_Last = last_receiver_env"
| "adaptor_env A_First = first_receiver_env"
| "adaptor_env A_Scan = scan_receiver_env"
| "adaptor_env A_Finally = finally_receiver_env"
| "adaptor_env A_Tap = tap_receiver_env"
| "adaptor_env A_Repeat = repeat_receiver_env"
| "adaptor_env A_Buffered = buffered_receiver_env"
| "adaptor_env A_Resource = resource_receiver_env"
| "adaptor_env (A_With p) = with_env_receiver_env p"

text \<open>From the outside to the inside.\<close>

fun env_below :: "'a adaptor list \<Rightarrow> 'a renv \<Rightarrow> 'a renv" where
  "env_below [] e = e"
| "env_below (a # as) e = env_below as (adaptor_env a e)"

text \<open>The allocator that the innermost \<^verbatim>\<open>with_env\<close> gives.\<close>

fun given_allocator :: "'a adaptor list \<Rightarrow> 'a option" where
  "given_allocator [] = None"
| "given_allocator (a # as) =
     (case given_allocator as of Some x \<Rightarrow> Some x | None \<Rightarrow> (case a of A_With p \<Rightarrow> p_allocator p | _ \<Rightarrow> None))"

definition cuts_stop :: "bool \<Rightarrow> 'a adaptor \<Rightarrow> bool" where
  "cuts_stop stops_item a \<longleftrightarrow> a = A_Merge \<or> a = A_Last_Item \<and> stops_item"

lemmas env_defs = zip_receiver_env_def fork_receiver_env_def fork_item_receiver_env_def merge_receiver_env_def
  last_item_receiver_env_def last_receiver_env_def first_receiver_env_def scan_receiver_env_def
  finally_receiver_env_def tap_receiver_env_def repeat_receiver_env_def buffered_receiver_env_def
  resource_receiver_env_def with_env_receiver_env_def with_stop_token_def join_env_def

lemma adaptor_allocator:
  "r_allocator (adaptor_env a e) = (case given_allocator [a] of Some x \<Rightarrow> Some x | None \<Rightarrow> r_allocator e)"
  by (cases a) (auto simp: env_defs split: option.splits)

lemma adaptor_stop:
  assumes "\<And>p. a = A_With p \<Longrightarrow> p_stop p = None \<and> p_stops_item p = None"
  shows "hears (r_stop (adaptor_env a e)) \<longleftrightarrow> hears (r_stop e) \<and> \<not> cuts_stop (r_stops_item e) a"
    "r_stops_item (adaptor_env a e) = r_stops_item e"
  using assms by (cases a; auto simp: env_defs cuts_stop_def)+

text \<open>Remark (environment). Below any chain of adaptors the allocator is that of the innermost \<^verbatim>\<open>with_env\<close> that gives one, and
  otherwise the receiver's. A request at the receiver's token is heard below a chain that gives no token of
  its own exactly when the chain has no \<^verbatim>\<open>merge_each\<close>, whose stop source nothing is connected to, and no item of \<^verbatim>\<open>last\<close> where items are
  stopped by the receiver.\<close>

theorem environments_below:
  shows "env_allocator (env_below as e) =
      (case given_allocator as of Some x \<Rightarrow> Env_Allocator x | None \<Rightarrow> env_allocator e)"
    and "\<forall>p. A_With p \<in> set as \<longrightarrow> p_stop p = None \<and> p_stops_item p = None \<Longrightarrow>
      hears (r_stop (env_below as e)) \<longleftrightarrow> hears (r_stop e) \<and> (\<forall>a \<in> set as. \<not> cuts_stop (r_stops_item e) a)"
proof -
  have "r_allocator (env_below as e) = (case given_allocator as of Some x \<Rightarrow> Some x | None \<Rightarrow> r_allocator e)"
  proof (induction as arbitrary: e)
    case (Cons a as)
    show ?case using adaptor_allocator [of a e] Cons.IH [of "adaptor_env a e"]
      by (cases "given_allocator as") simp_all
  qed simp
  then show "env_allocator (env_below as e) =
      (case given_allocator as of Some x \<Rightarrow> Env_Allocator x | None \<Rightarrow> env_allocator e)"
    by (simp add: env_allocator_def split: option.splits)
next
  assume "\<forall>p. A_With p \<in> set as \<longrightarrow> p_stop p = None \<and> p_stops_item p = None"
  then show "hears (r_stop (env_below as e)) \<longleftrightarrow> hears (r_stop e) \<and> (\<forall>a \<in> set as. \<not> cuts_stop (r_stops_item e) a)"
  proof (induction as arbitrary: e)
    case (Cons a as)
    then have p: "\<And>p. a = A_With p \<Longrightarrow> p_stop p = None \<and> p_stops_item p = None" by auto
    note step = adaptor_stop [OF p]
    from Cons.IH [of "adaptor_env a e"] Cons.prems step show ?case by auto
  qed simp
qed

theorem environments_below_witness:
  "\<not> hears (r_stop (env_below [A_With \<lparr>p_stop = None, p_allocator = Some (1 :: nat), p_stops_item = None\<rparr>, A_Fork, A_Merge]
     \<lparr>r_stop = Outside, r_allocator = None, r_stops_item = False\<rparr>))"
  by (subst environments_below(2)) (simp_all add: cuts_stop_def)

text \<open>Remark (with_env_twice). Connecting a sender made by \<^verbatim>\<open>with_env\<close> a second time connects the sender that the first
  connection moved from, and completions are forwarded unchanged.\<close>

theorem with_env_moves:
  "with_env_complete sig = sig \<and> fst (with_env_connect (snd (with_env_connect s))) = (we_env s, None)"
  by (cases sig) (simp_all add: with_env_complete_def with_env_connect_def)

end
