(* ===== verification/Batched_Options.thy ===== *)
theory Batched_Options
  imports Std_Numbers
begin

text \<open>
  The command line of \<^verbatim>\<open>examples/batched_reads.cpp\<close>.

  \<^verbatim>\<open>getopt_long\<close> is the C library's: its results, a character and the argument of the option, are the input
  of the loop, and what it may return follows from the two tables of options that it gets. A program ends
  by throwing, or by printing the help.
\<close>

subsection \<open>Options\<close>

record file_options =
  fo_path :: string
  use_memfd :: bool

record program_options =
  nthreads :: int
  n_total_bytes :: u64
  seed :: u32
  block_size :: int
  submission_queue_length :: u32
  po_files :: "file_options list"
  buffered :: bool
  memsize :: u64

definition default_options :: program_options where
  "default_options = \<lparr>nthreads = 1, n_total_bytes = 4096, seed = 1000000007, block_size = 4096,
     submission_queue_length = 1024, po_files = [], buffered = False, memsize = 1048576\<rparr>"

text \<open>The name of a long option, whether it has an argument, and what \<^verbatim>\<open>getopt_long\<close> returns for it.\<close>

definition long_options :: "(string \<times> bool \<times> char) list" where
  "long_options =
     [(''iodepth'', True, CHR 0x00), (''buffered'', False, CHR ''b''), (''size'', True, CHR ''s''),
      (''verbose'', False, CHR 0x00), (''memfile'', True, CHR ''m''), (''memsize'', True, CHR ''z''),
      (''help'', False, CHR ''h''), (''seed'', True, CHR ''r''), (''threads'', True, CHR ''t'')]"

definition short_options :: string where
  "short_options = ''bs:m:hr:t:''"

datatype program_end = Exit_Help | Throws std_error

text \<open>
  The loop of the code writes \<^verbatim>\<open>n += block - n % block\<close> three times, to bring a number of bytes to the end of a
  block. The remainder by zero is undefined.
\<close>

definition add_to_block :: "u64 \<Rightarrow> u64 \<Rightarrow> u64 option" where
  "add_to_block n block = (if block = 0 then None else Some (n + (block - n mod block)))"

definition size_option :: "int \<Rightarrow> string \<Rightarrow> (std_error + u64) option" where
  "size_option block arg =
     (case stoull arg of
        Inl e \<Rightarrow> Some (Inl e)
      | Inr (n, pos) \<Rightarrow>
          let scaled =
            (if pos < length arg \<and> to_lower (arg ! pos) = CHR ''k'' then push_bit 10 n
             else if pos < length arg \<and> to_lower (arg ! pos) = CHR ''m'' then push_bit 20 n
             else if pos < length arg \<and> to_lower (arg ! pos) = CHR ''g'' then push_bit 30 n
             else n)
          in map_option Inr (add_to_block scaled (word_of_int block)))"

text \<open>One result of \<^verbatim>\<open>getopt_long\<close>. A null pointer as \<^verbatim>\<open>optarg\<close> is undefined where a string is made of it.\<close>

definition option_step :: "char \<Rightarrow> string option \<Rightarrow> program_options \<Rightarrow> (program_end + program_options) option" where
  "option_step c optarg o1 =
     (if c = CHR ''b'' then Some (Inr (o1\<lparr>buffered := True\<rparr>))
      else if c = CHR ''m'' then do {
        a \<leftarrow> optarg;
        Some (Inr (o1\<lparr>po_files := po_files o1 @ [\<lparr>fo_path = a, use_memfd = True\<rparr>]\<rparr>)) }
      else if c = CHR ''z'' then do {
        a \<leftarrow> optarg;
        Some (case stoull a of Inl e \<Rightarrow> Inl (Throws e) | Inr (n, _) \<Rightarrow> Inr (o1\<lparr>memsize := n\<rparr>)) }
      else if c = CHR ''r'' then do {
        a \<leftarrow> optarg;
        Some (case stoi a of Inl e \<Rightarrow> Inl (Throws e) | Inr (n, _) \<Rightarrow> Inr (o1\<lparr>seed := word_of_int n\<rparr>)) }
      else if c = CHR ''s'' then do {
        a \<leftarrow> optarg;
        r \<leftarrow> size_option (block_size o1) a;
        Some (case r of Inl e \<Rightarrow> Inl (Throws e) | Inr n \<Rightarrow> Inr (o1\<lparr>n_total_bytes := n\<rparr>)) }
      else if c = CHR ''t'' then do {
        a \<leftarrow> optarg;
        Some (case stoi a of Inl e \<Rightarrow> Inl (Throws e) | Inr (n, _) \<Rightarrow> Inr (o1\<lparr>nthreads := n\<rparr>)) }
      else if c = CHR ''i'' then do {
        a \<leftarrow> optarg;
        Some (case stoi a of Inl e \<Rightarrow> Inl (Throws e)
          | Inr (n, _) \<Rightarrow> Inr (o1\<lparr>submission_queue_length := word_of_int n\<rparr>)) }
      else if c = CHR ''h'' \<or> c = CHR ''?'' then Some (Inl Exit_Help)
      else Some (Inr o1))"

fun options_loop ::
  "(char \<times> string option) list \<Rightarrow> program_options \<Rightarrow> (program_end + program_options) option" where
  "options_loop [] o1 = Some (Inr o1)"
| "options_loop ((c, arg) # rs) o1 = do {
     r \<leftarrow> option_step c arg o1;
     case r of Inl e \<Rightarrow> Some (Inl e) | Inr o2 \<Rightarrow> options_loop rs o2
   }"

definition parse_options ::
  "(char \<times> string option) list \<Rightarrow> string list \<Rightarrow> (program_end + program_options) option" where
  "parse_options rs operands = do {
     r \<leftarrow> options_loop rs default_options;
     Some (case r of Inl e \<Rightarrow> Inl e
       | Inr o1 \<Rightarrow> Inr (o1\<lparr>po_files := po_files o1 @ map (\<lambda>p. \<lparr>fo_path = p, use_memfd = False\<rparr>) operands\<rparr>))
   }"

subsection \<open>What getopt\_long returns\<close>

fun short_table :: "string \<Rightarrow> (char \<times> bool) list" where
  "short_table [] = []"
| "short_table [c] = [(c, False)]"
| "short_table (c # d # cs) = (if d = CHR '':'' then (c, True) # short_table cs else (c, False) # short_table (d # cs))"

text \<open>
  The values of the long options and the characters of the short ones, with an argument exactly for the
  options that require one, and \<^verbatim>\<open>'?'\<close> for anything else.
\<close>

definition getopt_may_return :: "char \<times> string option \<Rightarrow> bool" where
  "getopt_may_return r \<longleftrightarrow> fst r = CHR ''?'' \<or>
     list_ex (\<lambda>(_, req, c). c = fst r \<and> (snd r \<noteq> None) = req) long_options \<or>
     list_ex (\<lambda>(c, req). c = fst r \<and> (snd r \<noteq> None) = req) (short_table short_options)"

lemma short_table_eq:
  "short_table short_options = [(CHR ''b'', False), (CHR ''s'', True), (CHR ''m'', True), (CHR ''h'', False),
     (CHR ''r'', True), (CHR ''t'', True)]"
  by code_simp

lemma getopt_cases:
  assumes "getopt_may_return (c, arg)"
  shows "c \<in> {CHR ''?'', CHR ''h'', CHR ''b'', CHR 0x00} \<or>
     (\<exists>a. arg = Some a) \<and> c \<in> {CHR ''s'', CHR ''m'', CHR ''z'', CHR ''r'', CHR ''t''}"
  using assms unfolding getopt_may_return_def short_table_eq long_options_def fst_conv snd_conv list_ex_Nil_iff
    list_ex_Cons_iff prod.case
  by (elim disjE conjE; simp)

subsection \<open>The size\<close>

lemma add_to_block_nat:
  "add_to_block (of_nat n) 4096 = Some (of_nat (4096 * (n div 4096 + 1)))"
proof -
  have "(of_nat n :: u64) mod 4096 = of_nat (n mod 4096)"
    by (simp add: word_unat_eq_iff unat_mod unat_of_nat mod_mod_cancel)
  moreover have "(of_nat n :: u64) = of_nat (4096 * (n div 4096)) + of_nat (n mod 4096)"
    by (metis mult_div_mod_eq of_nat_add)
  ultimately show ?thesis by (simp add: add_to_block_def)
qed

lemma add_to_block_aligned: "add_to_block n 4096 = Some m \<Longrightarrow> unat m mod 4096 = 0"
proof -
  assume "add_to_block n 4096 = Some m"
  then have "m = of_nat (4096 * (unat n div 4096 + 1))" using add_to_block_nat [of "unat n"] by simp
  then have "unat m = (4096 * (unat n div 4096 + 1)) mod 2 ^ LENGTH(64)" by (simp only: unat_of_nat)
  also have "\<dots> mod 4096 = 0" by (subst mod_mod_cancel) simp_all
  finally show ?thesis .
qed

text \<open>The number of bytes of a unit, by its letter.\<close>

fun unit_bytes :: "char option \<Rightarrow> nat" where
  "unit_bytes None = 1"
| "unit_bytes (Some c) = (if to_lower c = CHR ''k'' then 2 ^ 10 else if to_lower c = CHR ''m'' then 2 ^ 20
     else if to_lower c = CHR ''g'' then 2 ^ 30 else 1)"

fun unit_text :: "char option \<Rightarrow> string" where
  "unit_text None = ''''"
| "unit_text (Some c) = [c]"

lemma size_option_eq:
  assumes "stoull (pre @ unit_text u) = Inr (n, length pre)"
  shows "size_option 4096 (pre @ unit_text u) = map_option Inr (add_to_block (n * of_nat (unit_bytes u)) 4096)"
  using assms by (cases u) (simp_all add: size_option_def Let_def push_bit_eq_mult)

text \<open>Remark (batched_size). The size that is given as a number, in bytes or with a unit, is always increased to the
  next multiple of 4096, also when it is one already, and wraps at \<open>2 ^ 64\<close>. A negative number is read as
  its negation modulo \<open>2 ^ 64\<close>: a size of -1 is a total of zero bytes.\<close>

theorem batched_size:
  assumes "n < 2 ^ 64" "u = None \<or> (\<exists>c. u = Some c \<and> \<not> is_digit c)"
  shows "size_option (block_size default_options) (decimal n @ unit_text u) =
      Some (Inr (of_nat (4096 * (n * unit_bytes u div 4096 + 1))))"
    and "size_option (block_size default_options) ''-1'' = Some (Inr 0)"
proof -
  have rest: "unit_text u = [] \<or> \<not> is_digit (hd (unit_text u))" using assms(2) by auto
  have bs: "block_size default_options = 4096" by (simp add: default_options_def)
  have prod: "(of_nat n :: u64) * of_nat (unit_bytes u) = of_nat (n * unit_bytes u)" by simp
  show "size_option (block_size default_options) (decimal n @ unit_text u) =
      Some (Inr (of_nat (4096 * (n * unit_bytes u div 4096 + 1))))"
    unfolding bs size_option_eq [OF stoull_decimal [OF rest assms(1)]] prod add_to_block_nat by simp
  have "''-1'' = CHR ''-'' # decimal 1" by code_simp
  then have "stoull ''-1'' = Inr (- 1, length ''-1'')"
    using stoull_negative [of "[]" 1] by simp
  with size_option_eq [of "''-1''" None "- 1"] show "size_option (block_size default_options) ''-1'' = Some (Inr 0)"
    unfolding bs by (simp add: add_to_block_def)
qed

theorem batched_size_witness:
  "size_option (block_size default_options) ''4k'' = Some (Inr 8192)"
proof -
  have "decimal 4 @ unit_text (Some (CHR ''k'')) = ''4k''" by code_simp
  moreover have "unit_bytes (Some (CHR ''k'')) = 1024" by code_simp
  ultimately show ?thesis
    using batched_size(1) [of 4 "Some (CHR ''k'')"] by (simp add: is_digit_def)
qed

subsection \<open>The options of a run\<close>

text \<open>What no option changes, and what every size is.\<close>

definition options_ok :: "program_options \<Rightarrow> bool" where
  "options_ok o1 \<longleftrightarrow> block_size o1 = 4096 \<and> submission_queue_length o1 = 1024 \<and>
     unat (n_total_bytes o1) mod 4096 = 0"

lemma default_ok: "options_ok default_options"
  by (simp add: options_ok_def default_options_def)

text \<open>The memory files among the results.\<close>

definition mem_files :: "(char \<times> string option) list \<Rightarrow> file_options list" where
  "mem_files rs = map (\<lambda>(_, a). \<lparr>fo_path = the a, use_memfd = True\<rparr>) (filter (\<lambda>(c, _). c = CHR ''m'') rs)"

lemma size_option_ok:
  "\<exists>r. size_option 4096 a = Some r \<and> (\<forall>n. r = Inr n \<longrightarrow> unat n mod 4096 = 0)"
proof (cases "stoull a")
  case (Inr p)
  obtain n pos where p: "p = (n, pos)" by (cases p)
  have "\<exists>k. add_to_block m 4096 = Some k \<and> unat k mod 4096 = 0" for m
    using add_to_block_nat [of "unat m"] add_to_block_aligned [of m] by auto
  moreover have "\<exists>m. size_option 4096 a = map_option Inr (add_to_block m 4096)"
    unfolding size_option_def Inr p sum.case prod.case Let_def word_of_int_numeral by (rule exI) (rule refl)
  ultimately show ?thesis by fastforce
qed (simp add: size_option_def)

lemma option_step_simps:
  "option_step (CHR ''b'') arg o1 = Some (Inr (o1\<lparr>buffered := True\<rparr>))"
  "option_step (CHR ''h'') arg o1 = Some (Inl Exit_Help)"
  "option_step (CHR ''?'') arg o1 = Some (Inl Exit_Help)"
  "option_step (CHR 0x00) arg o1 = Some (Inr o1)"
  "option_step (CHR ''m'') (Some a) o1 =
     Some (Inr (o1\<lparr>po_files := po_files o1 @ [\<lparr>fo_path = a, use_memfd = True\<rparr>]\<rparr>))"
  "option_step (CHR ''z'') (Some a) o1 =
     Some (case stoull a of Inl e \<Rightarrow> Inl (Throws e) | Inr (n, _) \<Rightarrow> Inr (o1\<lparr>memsize := n\<rparr>))"
  "option_step (CHR ''r'') (Some a) o1 =
     Some (case stoi a of Inl e \<Rightarrow> Inl (Throws e) | Inr (n, _) \<Rightarrow> Inr (o1\<lparr>seed := word_of_int n\<rparr>))"
  "option_step (CHR ''t'') (Some a) o1 =
     Some (case stoi a of Inl e \<Rightarrow> Inl (Throws e) | Inr (n, _) \<Rightarrow> Inr (o1\<lparr>nthreads := n\<rparr>))"
  "option_step (CHR ''s'') (Some a) o1 = do {
     r \<leftarrow> size_option (block_size o1) a;
     Some (case r of Inl e \<Rightarrow> Inl (Throws e) | Inr n \<Rightarrow> Inr (o1\<lparr>n_total_bytes := n\<rparr>)) }"
  by (simp_all add: option_step_def)

lemma mem_files_simps:
  "mem_files [] = []"
  "mem_files ((CHR ''m'', Some a) # rs) = \<lparr>fo_path = a, use_memfd = True\<rparr> # mem_files rs"
  "c \<noteq> CHR ''m'' \<Longrightarrow> mem_files ((c, arg) # rs) = mem_files rs"
  by (simp_all add: mem_files_def)

definition step_ok :: "char \<Rightarrow> string option \<Rightarrow> program_options \<Rightarrow> bool" where
  "step_ok c arg o1 \<longleftrightarrow> (\<exists>r. option_step c arg o1 = Some r \<and>
    (\<forall>o2. r = Inr o2 \<longrightarrow> options_ok o2 \<and> po_files o2 = po_files o1 @ mem_files [(c, arg)]))"

lemma option_step_ok:
  assumes "getopt_may_return (c, arg)" "options_ok o1"
  shows "step_ok c arg o1"
proof -
  have plain: "step_ok c arg o1" if "c \<in> {CHR ''?'', CHR ''h'', CHR ''b'', CHR 0x00}"
    using that assms(2) unfolding insert_iff empty_iff
    by (elim disjE FalseE; simp add: step_ok_def option_step_simps mem_files_simps options_ok_def)
  have numbers: "step_ok c (Some a) o1" if "c \<in> {CHR ''z'', CHR ''r'', CHR ''t'', CHR ''m''}" for a
    using that assms(2) unfolding insert_iff empty_iff
    by (elim disjE FalseE; simp add: step_ok_def option_step_simps mem_files_simps options_ok_def split: sum.splits prod.splits)
  have "step_ok (CHR ''s'') (Some a) o1" for a
  proof -
    obtain r where "size_option 4096 a = Some r" "\<forall>n. r = Inr n \<longrightarrow> unat n mod 4096 = 0"
      using size_option_ok by blast
    with assms(2) show ?thesis
      by (simp add: step_ok_def option_step_simps mem_files_simps options_ok_def split: sum.splits)
  qed
  with plain numbers getopt_cases [OF assms(1)] show ?thesis by blast
qed

lemma options_loop_ok:
  assumes "\<forall>r \<in> set rs. getopt_may_return r" "options_ok o1"
  shows "\<exists>r. options_loop rs o1 = Some r \<and>
    (\<forall>o2. r = Inr o2 \<longrightarrow> options_ok o2 \<and> po_files o2 = po_files o1 @ mem_files rs)"
  using assms
proof (induction rs o1 rule: options_loop.induct)
  case (2 c arg rs o1)
  then obtain r where r: "option_step c arg o1 = Some r"
    "\<forall>o2. r = Inr o2 \<longrightarrow> options_ok o2 \<and> po_files o2 = po_files o1 @ mem_files [(c, arg)]"
    using option_step_ok [of c arg o1] unfolding step_ok_def by auto
  show ?case
  proof (cases r)
    case (Inr o2)
    with r have "options_ok o2" "po_files o2 = po_files o1 @ mem_files [(c, arg)]" by auto
    moreover have "mem_files ((c, arg) # rs) = mem_files [(c, arg)] @ mem_files rs" by (simp add: mem_files_def)
    ultimately show ?thesis using 2 r Inr by auto
  qed (use r in simp)
qed (simp add: mem_files_def)

text \<open>Remark (batched_options). For all results that \<^verbatim>\<open>getopt_long\<close> may return for the tables of options, the command line is
  parsed without undefined behaviour. When parsing does not end the program, the files are the memory
  files in order and then the operands, the total size is a multiple of the size of a block, and the
  length of the submission queue is 1024: the option \<^verbatim>\<open>--iodepth\<close> returns zero, which no case handles.\<close>

theorem batched_options:
  assumes "\<forall>r \<in> set rs. getopt_may_return r"
  shows "\<exists>r. parse_options rs operands = Some r \<and>
    (\<forall>o1. r = Inr o1 \<longrightarrow> po_files o1 = mem_files rs @ map (\<lambda>p. \<lparr>fo_path = p, use_memfd = False\<rparr>) operands \<and>
       unat (n_total_bytes o1) mod 4096 = 0 \<and> block_size o1 = 4096 \<and> submission_queue_length o1 = 1024)"
proof -
  obtain r where r: "options_loop rs default_options = Some r"
    "\<forall>o2. r = Inr o2 \<longrightarrow> options_ok o2 \<and> po_files o2 = po_files default_options @ mem_files rs"
    using options_loop_ok [OF assms default_ok] by blast
  then show ?thesis
    by (cases r) (auto simp: parse_options_def options_ok_def default_options_def)
qed

theorem batched_options_witness:
  "\<exists>r. parse_options [(CHR ''s'', Some ''1m''), (CHR 0x00, Some ''64''), (CHR ''m'', Some ''x'')] [''y''] = Some r \<and>
     (\<forall>o1. r = Inr o1 \<longrightarrow> map fo_path (po_files o1) = [''x'', ''y''] \<and> submission_queue_length o1 = 1024)"
proof -
  let ?rs = "[(CHR ''s'', Some ''1m''), (CHR 0x00, Some ''64''), (CHR ''m'', Some ''x'')]"
  have "list_all getopt_may_return ?rs" by code_simp
  then have "\<forall>r \<in> set ?rs. getopt_may_return r" by (simp only: list_all_iff)
  from batched_options [OF this, of "[''y'']"] show ?thesis by (auto simp: mem_files_def)
qed

text \<open>Remark (batched_help). The help names the option \<^verbatim>\<open>-z\<close>, but it is not among the short options.\<close>

theorem no_short_memsize:
  "list_ex (\<lambda>(name, req, c). name = ''memsize'' \<and> c = CHR ''z'') long_options \<and>
   \<not> list_ex (\<lambda>(c, _). c = CHR ''z'') (short_table short_options)"
  unfolding short_table_eq by (simp add: long_options_def)

end
