(* ===== verification/Batched_State.thy ===== *)
theory Batched_State
  imports Batched_Options Upstream_Resource Io_Uring
begin

text \<open>
  The state of \<^verbatim>\<open>examples/batched_reads.cpp\<close>: the counters that the threads share, the files with their
  buffers and offsets, a thread's files and memory, and how \<^verbatim>\<open>main\<close> divides files and bytes among
  threads. \<open>None\<close> is undefined behaviour, an error is an exception that is thrown.
\<close>

type_synonym 'a result = "(std_error + 'a) option"

definition throw_if :: "bool \<Rightarrow> std_error \<Rightarrow> 'a result \<Rightarrow> 'a result" where
  "throw_if c e r = (if c then Some (Inl e) else r)"

definition then_result :: "'a result \<Rightarrow> ('a \<Rightarrow> 'b result) \<Rightarrow> 'b result" where
  "then_result r f = (case r of None \<Rightarrow> None | Some (Inl e) \<Rightarrow> Some (Inl e) | Some (Inr x) \<Rightarrow> f x)"

lemma then_result_simps [simp]:
  "then_result (Some (Inr x)) f = f x"
  "then_result (Some (Inl e)) f = Some (Inl e)"
  "then_result None f = None"
  by (simp_all add: then_result_def)

lemma then_result_Inr: "then_result r f = Some (Inr y) \<longleftrightarrow> (\<exists>x. r = Some (Inr x) \<and> f x = Some (Inr y))"
  by (auto simp: then_result_def split: option.splits sum.splits)

lemma throw_if_Inr: "throw_if c e r = Some (Inr y) \<longleftrightarrow> \<not> c \<and> r = Some (Inr y)"
  by (simp add: throw_if_def)

subsection \<open>Counters\<close>

text \<open>Both fallbacks for the interference size are 64 bytes on the platforms that \<^verbatim>\<open>io_uring\<close> runs on.\<close>

definition hardware_destructive_interference_size :: nat where
  "hardware_destructive_interference_size = 64"

record counters =
  n_completions :: int
  n_bytes_read :: "u64 list"
  n_io_ops :: "u64 list"

definition factor :: nat where
  "factor = hardware_destructive_interference_size div 8"

definition int_range :: "int \<Rightarrow> bool" where
  "int_range i \<longleftrightarrow> - (2 ^ 31) \<le> i \<and> i < 2 ^ 31"

text \<open>The product is an \<^verbatim>\<open>int\<close>; a negative one is a size that no vector can have.\<close>

definition make_counters :: "int \<Rightarrow> counters result" where
  "make_counters n =
     (if \<not> int_range (n * int factor) then None
      else if n < 0 then Some (Inl Length_Error)
      else Some (Inr \<lparr>n_completions = 0, n_bytes_read = replicate (nat n * factor) 0,
        n_io_ops = replicate (nat n * factor) 0\<rparr>))"

definition fetch_add_at :: "nat \<Rightarrow> u64 \<Rightarrow> u64 list \<Rightarrow> u64 list option" where
  "fetch_add_at i n xs = (if i < length xs then Some (xs[i := xs ! i + n]) else None)"

definition notify_read :: "u64 \<Rightarrow> nat \<Rightarrow> counters \<Rightarrow> counters option" where
  "notify_read n_bytes thread_id c = do {
     bs \<leftarrow> fetch_add_at (thread_id * factor) n_bytes (n_bytes_read c);
     ios \<leftarrow> fetch_add_at (thread_id * factor) 1 (n_io_ops c);
     Some (c\<lparr>n_bytes_read := bs, n_io_ops := ios\<rparr>)
   }"

function load_loop :: "u64 list \<Rightarrow> u64 list \<Rightarrow> nat \<Rightarrow> u64 \<times> u64 \<Rightarrow> (u64 \<times> u64) option" where
  "load_loop bs ios i (b, n) =
     (if i < length bs then
        if i < length ios then load_loop bs ios (i + factor) (b + bs ! i, n + ios ! i) else None
      else Some (b, n))"
  by pat_completeness auto
termination by (relation "measure (\<lambda>(bs, _, i, _). length bs - i)")
  (auto simp: factor_def hardware_destructive_interference_size_def)

declare load_loop.simps [simp del]

definition load_stats :: "counters \<Rightarrow> (u64 \<times> u64) option" where
  "load_stats c = load_loop (n_bytes_read c) (n_io_ops c) 0 (0, 0)"

fun notify_all :: "(nat \<times> u64) list \<Rightarrow> counters \<Rightarrow> counters option" where
  "notify_all [] c = Some c"
| "notify_all ((t, n) # es) c = do { c1 \<leftarrow> notify_read n t c; notify_all es c1 }"

text \<open>Counters for \<open>k\<close> threads that have counted \<open>b\<close> bytes and \<open>n\<close> operations.\<close>

definition counted :: "nat \<Rightarrow> u64 \<Rightarrow> u64 \<Rightarrow> counters \<Rightarrow> bool" where
  "counted k b n c \<longleftrightarrow> length (n_bytes_read c) = k * factor \<and> length (n_io_ops c) = k * factor \<and>
     (\<Sum>t < k. n_bytes_read c ! (t * factor)) = b \<and> (\<Sum>t < k. n_io_ops c ! (t * factor)) = n"

lemma factor_pos: "factor > 0"
  by (simp add: factor_def hardware_destructive_interference_size_def)

lemma counter_index: "t < k \<Longrightarrow> t * factor < k * factor"
  using factor_pos by simp

lemma sum_update:
  fixes xs :: "u64 list"
  assumes "t < k" "length xs = k * factor"
  shows "(\<Sum>s < k. xs[t * factor := x + n] ! (s * factor)) = (\<Sum>s < k. xs ! (s * factor)) - xs ! (t * factor) + (x + n)"
proof -
  note split = sum.remove [OF finite_lessThan lessThan_iff [THEN iffD2, OF assms(1)]]
  have other: "(\<Sum>s \<in> {..<k} - {t}. xs[t * factor := x + n] ! (s * factor)) = (\<Sum>s \<in> {..<k} - {t}. xs ! (s * factor))"
    using factor_pos by (intro sum.cong refl) simp
  have "(\<Sum>s < k. xs[t * factor := x + n] ! (s * factor)) = (x + n) + (\<Sum>s \<in> {..<k} - {t}. xs ! (s * factor))"
    using assms counter_index [OF assms(1)] by (simp add: split other)
  moreover have "(\<Sum>s < k. xs ! (s * factor)) = xs ! (t * factor) + (\<Sum>s \<in> {..<k} - {t}. xs ! (s * factor))"
    by (simp add: split)
  ultimately show ?thesis by simp
qed

lemma counted_notify:
  assumes "counted k b n c" "t < k"
  shows "\<exists>c'. notify_read m t c = Some c' \<and> counted k (b + m) (n + 1) c' \<and> n_completions c' = n_completions c"
  using assms counter_index [OF assms(2)] sum_update [OF assms(2), of "n_bytes_read c" "n_bytes_read c ! (t * factor)" m]
    sum_update [OF assms(2), of "n_io_ops c" "n_io_ops c ! (t * factor)" 1]
  by (auto simp: notify_read_def fetch_add_at_def counted_def)

lemma counted_notify_all:
  assumes "counted k b n c" "\<forall>(t, _) \<in> set es. t < k"
  shows "\<exists>c'. notify_all es c = Some c' \<and>
    counted k (b + sum_list (map snd es)) (n + of_nat (length es)) c' \<and> n_completions c' = n_completions c"
  using assms
proof (induction es arbitrary: b n c)
  case (Cons e es)
  obtain t m where e: "e = (t, m)" by (cases e)
  with Cons.prems obtain c1 where c1: "notify_read m t c = Some c1" "counted k (b + m) (n + 1) c1"
    "n_completions c1 = n_completions c"
    using counted_notify [of k b n c t m] by auto
  with Cons.IH [OF c1(2)] Cons.prems(2) e show ?case by (auto simp: algebra_simps)
qed simp

lemma load_loop_sum:
  assumes "length bs = k * factor" "length ios = k * factor" "j \<le> k"
  shows "load_loop bs ios (j * factor) (b, n) =
    Some (b + (\<Sum>t \<in> {j..<k}. bs ! (t * factor)), n + (\<Sum>t \<in> {j..<k}. ios ! (t * factor)))"
  using assms(3)
proof (induction "k - j" arbitrary: j b n)
  case 0
  then show ?case using assms by (subst load_loop.simps) simp
next
  case (Suc d)
  then have j: "j < k" "Suc j \<le> k" "d = k - Suc j" by auto
  have up: "{j..<k} = insert j {Suc j..<k}" using j(1) by auto
  have next_index: "j * factor + factor = Suc j * factor" by simp
  show ?case
    using j counter_index [OF j(1)] assms Suc.hyps(1) [OF j(3,2)]
    by (subst load_loop.simps) (simp add: next_index up add.assoc del: mult_Suc)
qed

lemma load_stats_counted: "counted k b n c \<Longrightarrow> load_stats c = Some (b, n)"
  using load_loop_sum [of "n_bytes_read c" k "n_io_ops c" 0 0 0]
  by (simp add: counted_def load_stats_def atLeast0LessThan)

lemma counted_init:
  "0 \<le> k \<Longrightarrow> int_range (k * int factor) \<Longrightarrow> \<exists>c. make_counters k = Some (Inr c) \<and> counted (nat k) 0 0 c \<and> n_completions c = 0"
  using factor_pos by (simp add: make_counters_def counted_def)

text \<open>Remark (batched_counters). However the threads interleave their notifications, what is loaded is the number of bytes and
  of operations of all threads together, and every access to the arrays is inside them.\<close>

theorem batched_counters:
  assumes "0 \<le> k" "int_range (k * int factor)" "\<forall>(t, _) \<in> set es. t < nat k"
  shows "\<exists>c c'. make_counters k = Some (Inr c) \<and> notify_all es c = Some c' \<and>
    load_stats c' = Some (sum_list (map snd es), of_nat (length es))"
proof -
  obtain c where c: "make_counters k = Some (Inr c)" "counted (nat k) 0 0 c"
    using counted_init [OF assms(1,2)] by blast
  with counted_notify_all [OF c(2) assms(3)] show ?thesis using load_stats_counted by fastforce
qed

theorem batched_counters_witness:
  "\<exists>c c'. make_counters 2 = Some (Inr c) \<and> notify_all [(1, 4096), (0, 100), (1, 4)] c = Some c' \<and>
     load_stats c' = Some (4200, 3)"
  using batched_counters [of 2 "[(1, 4096), (0, 100), (1, 4)]"]
  by (simp add: int_range_def factor_def hardware_destructive_interference_size_def)

subsection \<open>Files\<close>

text \<open>
  What the program asks the system: a descriptor of -1, a status of \<^verbatim>\<open>None\<close> and no memory are failures.
\<close>

datatype file_kind = Block_Device | Regular_File | Other_Kind

record file_stat =
  st_kind :: file_kind
  st_size :: u64
  st_blksize :: u64

record system =
  sys_memfd_create :: "string \<Rightarrow> int"
  sys_ftruncate :: "int \<Rightarrow> u64 \<Rightarrow> int"
  sys_open :: "string \<Rightarrow> u32 \<Rightarrow> int"
  sys_fstat :: "int \<Rightarrow> file_stat option"
  sys_blkgetsize64 :: "int \<Rightarrow> u64 option"
  sys_memalign :: "u64 \<Rightarrow> u64 \<Rightarrow> u64 option"

definition O_RDONLY :: u32 where "O_RDONLY = 0"
definition O_DIRECT :: u32 where "O_DIRECT = 0x4000"

text \<open>The status of a descriptor that fails is not read, its fields are then indeterminate.\<close>

definition get_block_size :: "system \<Rightarrow> int \<Rightarrow> u64 option" where
  "get_block_size sys fd = map_option st_blksize (sys_fstat sys fd)"

definition make_unique_aligned :: "system \<Rightarrow> u64 \<Rightarrow> u64 \<Rightarrow> u64 result" where
  "make_unique_aligned sys sz alignment =
     (case sys_memalign sys alignment sz of None \<Rightarrow> Some (Inl Bad_Alloc) | Some p \<Rightarrow> Some (Inr p))"

record 'c file_state =
  fs_fd :: int
  fs_stream :: "'c native_fd_handle"
  file_size :: u64
  num_blocks :: u64
  buffer_storage :: u64
  fs_buffers :: "mutable_buffer list"
  fs_offsets :: "u64 list"

text \<open>The descriptor and the size of the file. A failed assertion of the system is an exception.\<close>

definition open_file_size ::
  "system \<Rightarrow> file_options \<Rightarrow> u64 \<Rightarrow> bool \<Rightarrow> (int \<times> u64) result" where
  "open_file_size sys fopts memsz buf =
     (if use_memfd fopts then
        let fd = sys_memfd_create sys (fo_path fopts)
        in throw_if (fd = - 1) (System_Error ''Creating memfd failed'')
             (throw_if (sys_ftruncate sys fd memsz = - 1) (System_Error ''Calling ftruncate failed'')
               (Some (Inr (fd, memsz))))
      else
        let flags = (if buf then O_RDONLY else O_RDONLY OR O_DIRECT);
            fd = sys_open sys (fo_path fopts) flags
        in throw_if (fd = - 1) (System_Error (''Opening '' @ CHR 0x27 # fo_path fopts @ CHR 0x27 # '' failed''))
             (case sys_fstat sys fd of
                None \<Rightarrow> Some (Inl (System_Error (''Calling fstat on '' @ CHR 0x27 # fo_path fopts @ CHR 0x27 # '' failed'')))
              | Some st \<Rightarrow>
                  (case st_kind st of
                     Block_Device \<Rightarrow>
                       (case sys_blkgetsize64 sys fd of
                          None \<Rightarrow> Some (Inl (System_Error ''Calling ioctl with BLKGETSIZE64 failed''))
                        | Some n \<Rightarrow> Some (Inr (fd, n)))
                   | Regular_File \<Rightarrow> Some (Inr (fd, st_size st))
                   | Other_Kind \<Rightarrow> Some (Inl (Runtime_Error ''Unsupported file type'')))))"

text \<open>
  One buffer and one random offset for each block. \<^verbatim>\<open>off_dist lo hi\<close> is a number that
  \<^verbatim>\<open>std::uniform_int_distribution\<close> makes of the state of the generator.
\<close>

fun fill_blocks ::
  "('r \<Rightarrow> u64 \<times> 'r) \<Rightarrow> u64 \<Rightarrow> u64 \<Rightarrow> nat \<Rightarrow> nat \<Rightarrow> 'r \<Rightarrow> (mutable_buffer list \<times> u64 list) \<times> 'r" where
  "fill_blocks dist data block i 0 rng = (([], []), rng)"
| "fill_blocks dist data block i (Suc n) rng =
     (let (x, rng1) = dist rng;
          ((bufs, offs), rng2) = fill_blocks dist data block (Suc i) n rng1
      in ((mb_make (data + of_nat i * block) block # bufs, x * block # offs), rng2))"

text \<open>The number of blocks is an \<^verbatim>\<open>int\<close>, which is extended by its sign where it is a size again.\<close>

definition make_file_state ::
  "system \<Rightarrow> (u64 \<Rightarrow> u64 \<Rightarrow> 'r \<Rightarrow> u64 \<times> 'r) \<Rightarrow> 'c \<Rightarrow> file_options \<Rightarrow> u64 \<Rightarrow> u64 \<Rightarrow> u64 \<Rightarrow> bool \<Rightarrow> 'r \<Rightarrow>
     ('c file_state \<times> 'r) result" where
  "make_file_state sys off_dist ctx fopts memsz readn_n_bytes block buf rng =
     then_result (open_file_size sys fopts memsz buf) (\<lambda>(fd, sz).
       if block = 0 then None else
       let blocks = sz div block;
           read_num_blocks = (ucast (readn_n_bytes div block) :: u32);
           n = (scast read_num_blocks :: u64)
       in then_result (make_unique_aligned sys (n * block) block) (\<lambda>data.
            throw_if (unat n \<ge> 2 ^ 59) Length_Error
              (let ((bufs, offs), rng1) = fill_blocks (off_dist 0 (blocks - 1)) data block 0 (unat n) rng
               in Some (Inr (\<lparr>fs_fd = fd, fs_stream = \<lparr>h_context = Some ctx, h_fd = fd\<rparr>,
                    file_size = sz, num_blocks = blocks, buffer_storage = data,
                    fs_buffers = bufs, fs_offsets = offs\<rparr>, rng1)))))"

text \<open>What the program relies on: numbers inside the bounds, and storage that is aligned and is not at the end of memory.\<close>

definition dist_law :: "(u64 \<Rightarrow> u64 \<Rightarrow> 'r \<Rightarrow> u64 \<times> 'r) \<Rightarrow> bool" where
  "dist_law d \<longleftrightarrow> (\<forall>lo hi r. lo \<le> hi \<longrightarrow> lo \<le> fst (d lo hi r) \<and> fst (d lo hi r) \<le> hi)"

definition memalign_law :: "system \<Rightarrow> bool" where
  "memalign_law sys \<longleftrightarrow> (\<forall>al sz p. sys_memalign sys al sz = Some p \<longrightarrow>
     unat al dvd unat p \<and> unat p + unat sz < 2 ^ 64)"

lemma fill_blocks_eq:
  assumes "fill_blocks d data block i n rng = ((bufs, offs), rng')"
  shows "bufs = map (\<lambda>j. mb_make (data + of_nat j * block) block) [i..<i + n] \<and>
    length offs = n \<and> (\<forall>off \<in> set offs. \<exists>r. off = fst (d r) * block)"
  using assms
proof (induction n arbitrary: i rng bufs offs rng')
  case (Suc n)
  obtain x rng1 where x: "d rng = (x, rng1)" by (cases "d rng")
  obtain bs os rng2 where r: "fill_blocks d data block (Suc i) n rng1 = ((bs, os), rng2)"
    by (metis surj_pair)
  have eq: "bufs = mb_make (data + of_nat i * block) block # bs" "offs = x * block # os"
    using Suc.prems by (auto simp: x r)
  note IH = Suc.IH [OF r]
  have "[i..<i + Suc n] = i # [Suc i..<Suc i + n]" by (simp add: upt_conv_Cons del: upt_Suc)
  moreover have "x * block = fst (d rng) * block" by (simp add: x)
  ultimately show ?case using eq IH by auto
qed simp_all

text \<open>A size that is narrowed to an \<^verbatim>\<open>int\<close>.\<close>

lemma int_of_size: "unat (w :: u64) < 2 ^ 31 \<Longrightarrow> sint (ucast w :: u32) = int (unat w)"
proof -
  assume w: "unat w < 2 ^ 31"
  then have "unat (ucast w :: u32) = unat w" by (simp add: unsigned_ucast_eq take_bit_eq_mod)
  then have "(ucast w :: u32) = of_nat (unat w)" by (metis of_nat_unat)
  moreover have "sint (of_nat (unat w) :: u32) = int (unat w)"
  proof -
    have "int (unat w) < 2 ^ 31" using w by (metis of_nat_less_iff of_nat_numeral of_nat_power)
    moreover have "- (2 ^ 31) \<le> int (unat w)" by (rule order_trans [of _ 0]) simp_all
    ultimately have "signed_take_bit (LENGTH(32) - Suc 0) (int (unat w)) = int (unat w)"
      by (intro signed_take_bit_int_eq_self) simp_all
    then show ?thesis by (simp only: signed_of_nat of_int_eq_id id_apply)
  qed
  ultimately show ?thesis by (simp only:)
qed

lemma make_file_state_eq:
  assumes "make_file_state sys d ctx fopts memsz readn block buf rng = Some (Inr (fs, rng'))"
    "unat readn div unat block < 2 ^ 31"
  defines "n \<equiv> unat readn div unat block"
  shows "block \<noteq> 0" "sys_memalign sys block (of_nat n * block) = Some (buffer_storage fs)"
    "fill_blocks (d 0 (file_size fs div block - 1)) (buffer_storage fs) block 0 n rng = ((fs_buffers fs, fs_offsets fs), rng')"
    "open_file_size sys fopts memsz buf = Some (Inr (fs_fd fs, file_size fs))"
    "fs_stream fs = \<lparr>h_context = Some ctx, h_fd = fs_fd fs\<rparr>"
proof -
  obtain fd sz where o1: "open_file_size sys fopts memsz buf = Some (Inr (fd, sz))"
    using assms(1) by (auto simp: make_file_state_def then_result_Inr)
  from assms(1) o1 have b0: "block \<noteq> 0" by (auto simp: make_file_state_def split: if_splits)
  have "unat (readn div block) < 2 ^ 31" using assms(2) by (simp add: unat_div)
  from int_of_size [OF this] have i: "sint (ucast (readn div block) :: u32) = int n"
    by (simp add: unat_div n_def)
  have n: "(scast (ucast (readn div block) :: u32) :: u64) = of_nat n"
    by (simp only: scast_eq i of_int_of_nat_eq)
  obtain p where p: "make_unique_aligned sys (of_nat n * block) block = Some (Inr p)"
    using assms(1) o1 b0 n by (auto simp: make_file_state_def then_result_Inr Let_def)
  obtain bufs offs r where f: "fill_blocks (d 0 (sz div block - 1)) p block 0 n rng = ((bufs, offs), r)"
    by (metis surj_pair)
  have small: "n < 2 ^ 59" "n < 2 ^ 64" using assms(2) by (simp_all add: n_def)
  then have un: "unat (of_nat n :: u64) = n" by (simp add: unat_of_nat)
  have "fs = \<lparr>fs_fd = fd, fs_stream = \<lparr>h_context = Some ctx, h_fd = fd\<rparr>, file_size = sz,
      num_blocks = sz div block, buffer_storage = p, fs_buffers = bufs, fs_offsets = offs\<rparr>" "rng' = r"
    using assms(1) o1 b0 n p f small by (auto simp: make_file_state_def throw_if_def Let_def un)
  with o1 b0 p f show "block \<noteq> 0" "sys_memalign sys block (of_nat n * block) = Some (buffer_storage fs)"
    "fill_blocks (d 0 (file_size fs div block - 1)) (buffer_storage fs) block 0 n rng = ((fs_buffers fs, fs_offsets fs), rng')"
    "open_file_size sys fopts memsz buf = Some (Inr (fs_fd fs, file_size fs))"
    "fs_stream fs = \<lparr>h_context = Some ctx, h_fd = fs_fd fs\<rparr>"
    by (auto simp: make_unique_aligned_def split: option.splits)
qed

text \<open>The block with the number \<open>x\<close>.\<close>

lemma block_offset:
  fixes x block sz :: u64
  assumes "block \<noteq> 0" "x \<le> sz div block - 1" "block \<le> sz"
  shows "unat (x * block) = unat x * unat block" "unat x * unat block + unat block \<le> unat sz"
proof -
  have b: "0 < unat block" using assms(1) by (simp add: unat_gt_0)
  have q: "0 < unat sz div unat block" using assms(3) b by (simp add: word_le_nat_alt div_greater_zero_iff)
  then have "unat (sz div block - 1) = unat sz div unat block - 1"
    by (subst unat_sub) (simp_all add: word_le_nat_alt unat_div Suc_leI)
  with assms(2) q have x: "Suc (unat x) \<le> unat sz div unat block" by (simp add: word_le_nat_alt)
  then have "Suc (unat x) * unat block \<le> unat sz div unat block * unat block" by (rule mult_le_mono1)
  also have "\<dots> \<le> unat sz" by simp
  finally show le: "unat x * unat block + unat block \<le> unat sz" by simp
  then have "unat x * unat block < 2 ^ 64" using b unat_less64 [of sz] by simp
  then show "unat (x * block) = unat x * unat block" by (simp add: unat_word_ariths)
qed

lemma block_address:
  fixes block data :: u64
  assumes "j < n" "unat data + n * unat block < 2 ^ 64"
  shows "unat (data + of_nat j * block) = unat data + j * unat block" "j * unat block + unat block \<le> n * unat block"
proof -
  have "Suc j * unat block \<le> n * unat block" using assms(1) by (intro mult_le_mono1) simp
  then show le: "j * unat block + unat block \<le> n * unat block" by simp
  then have lt: "j * unat block < 2 ^ 64" "unat data + j * unat block < 2 ^ 64" using assms(2) by linarith+
  have "unat (of_nat j * block) = j * unat block"
  proof -
    have "(of_nat j * block :: u64) = of_nat (j * unat block)" by simp
    then show ?thesis using lt(1) by (simp only: unat_of_nat) simp
  qed
  then show "unat (data + of_nat j * block) = unat data + j * unat block"
    using lt by (subst unat_add_no_wrap) simp_all
qed

lemma file_blocks:
  assumes "make_file_state sys d ctx fopts memsz readn block buf rng = Some (Inr (fs, rng'))"
    "unat readn div unat block < 2 ^ 31" "block \<le> file_size fs" "dist_law d" "memalign_law sys"
  defines "n \<equiv> unat readn div unat block"
  shows "length (fs_buffers fs) = n" "length (fs_offsets fs) = n"
    "\<forall>i < n. mb_size (fs_buffers fs ! i) = block \<and>
       unat (mb_data (fs_buffers fs ! i)) = unat (buffer_storage fs) + i * unat block \<and>
       unat block dvd unat (mb_data (fs_buffers fs ! i)) \<and>
       unat block dvd unat (fs_offsets fs ! i) \<and>
       unat (fs_offsets fs ! i) + unat block \<le> unat (file_size fs)"
    "unat (buffer_storage fs) + n * unat block < 2 ^ 64"
proof -
  note eq = make_file_state_eq [OF assms(1,2), folded n_def]
  note fill = fill_blocks_eq [OF eq(3)]
  have "n * unat block \<le> unat readn" by (simp add: n_def)
  then have wrap: "n * unat block < 2 ^ 64" using unat_less64 [of readn] by simp
  have sz: "unat (of_nat n * block) = n * unat block"
  proof -
    have "(of_nat n * block :: u64) = of_nat (n * unat block)" by simp
    then show ?thesis using wrap by (simp only: unat_of_nat) simp
  qed
  from assms(5) eq(2) sz have mem: "unat block dvd unat (buffer_storage fs)"
    "unat (buffer_storage fs) + n * unat block < 2 ^ 64"
    unfolding memalign_law_def by metis+
  have bufs: "mb_size (fs_buffers fs ! i) = block \<and>
      unat (mb_data (fs_buffers fs ! i)) = unat (buffer_storage fs) + i * unat block \<and>
      unat block dvd unat (mb_data (fs_buffers fs ! i))" if "i < n" for i
    using fill that block_address(1) [OF that mem(2)] mem(1) by (simp add: mb_make_def)
  have offs: "unat block dvd unat (fs_offsets fs ! i) \<and> unat (fs_offsets fs ! i) + unat block \<le> unat (file_size fs)"
    if "i < n" for i
  proof -
    from fill that have "fs_offsets fs ! i \<in> set (fs_offsets fs)" by simp
    with fill obtain r where r: "fs_offsets fs ! i = fst (d 0 (file_size fs div block - 1) r) * block" by blast
    have "fst (d 0 (file_size fs div block - 1) r) \<le> file_size fs div block - 1"
      using assms(4) unfolding dist_law_def by (metis word_zero_le)
    from block_offset [OF eq(1) this assms(3)] r show ?thesis by simp
  qed
  have "length (fs_buffers fs) = n" "length (fs_offsets fs) = n" using fill by simp_all
  with bufs offs mem(2) show "length (fs_buffers fs) = n" "length (fs_offsets fs) = n"
    "\<forall>i < n. mb_size (fs_buffers fs ! i) = block \<and>
       unat (mb_data (fs_buffers fs ! i)) = unat (buffer_storage fs) + i * unat block \<and>
       unat block dvd unat (mb_data (fs_buffers fs ! i)) \<and>
       unat block dvd unat (fs_offsets fs ! i) \<and>
       unat (fs_offsets fs ! i) + unat block \<le> unat (file_size fs)"
    "unat (buffer_storage fs) + n * unat block < 2 ^ 64" by blast+
qed

text \<open>Remark (batched_file). When the state of a file of at least one block is made, the buffers are as many as whole blocks
  fit into the bytes to read, they tile the aligned storage without overlap, and each offset is the start
  of a block that lies inside the file.\<close>

theorem batched_file:
  assumes "make_file_state sys d ctx fopts memsz readn block buf rng = Some (Inr (fs, rng'))"
    "unat readn div unat block < 2 ^ 31" "block \<le> file_size fs" "dist_law d" "memalign_law sys"
  defines "n \<equiv> unat readn div unat block"
  shows "length (fs_buffers fs) = n \<and> length (fs_offsets fs) = n \<and>
    (\<forall>i < n. mb_size (fs_buffers fs ! i) = block \<and>
       unat (mb_data (fs_buffers fs ! i)) = unat (buffer_storage fs) + i * unat block \<and>
       unat block dvd unat (mb_data (fs_buffers fs ! i)) \<and>
       unat block dvd unat (fs_offsets fs ! i) \<and>
       unat (fs_offsets fs ! i) + unat block \<le> unat (file_size fs))"
  using file_blocks [OF assms(1-5)] unfolding n_def by blast

text \<open>A system with one regular file of three blocks.\<close>

definition some_system :: system where
  "some_system = \<lparr>sys_memfd_create = \<lambda>_. 3, sys_ftruncate = \<lambda>_ _. 0, sys_open = \<lambda>_ _. 3,
     sys_fstat = \<lambda>_. Some \<lparr>st_kind = Regular_File, st_size = 12288, st_blksize = 4096\<rparr>,
     sys_blkgetsize64 = \<lambda>_. None,
     sys_memalign = \<lambda>al sz. if al = 4096 \<and> sz \<le> 65536 then Some 8192 else None\<rparr>"

text \<open>The greatest number in the bounds.\<close>

definition greatest :: "u64 \<Rightarrow> u64 \<Rightarrow> unit \<Rightarrow> u64 \<times> unit" where
  "greatest lo hi r = (hi, r)"

lemma some_system_laws: "dist_law greatest" "memalign_law some_system"
  by (auto simp: dist_law_def greatest_def memalign_law_def some_system_def word_le_nat_alt split: if_splits)

definition some_file :: "(unit file_state \<times> unit) result" where
  "some_file = make_file_state some_system greatest () \<lparr>fo_path = ''x'', use_memfd = False\<rparr> 0 8192 4096 False ()"

lemma some_file_eq:
  "some_file = Some (Inr (\<lparr>fs_fd = 3, fs_stream = \<lparr>h_context = Some (), h_fd = 3\<rparr>, file_size = 12288,
     num_blocks = 3, buffer_storage = 8192, fs_buffers = [mb_make 8192 4096, mb_make 12288 4096],
     fs_offsets = [8192, 8192]\<rparr>, ()))"
proof -
  have "fill_blocks (greatest 0 2) 8192 4096 0 2 () =
      (([mb_make 8192 4096, mb_make 12288 4096], [8192, 8192]), ())"
    by (simp add: numeral_2_eq_2 greatest_def Let_def)
  moreover have "open_file_size some_system \<lparr>fo_path = ''x'', use_memfd = False\<rparr> 0 False = Some (Inr (3, 12288))"
    by (simp add: open_file_size_def some_system_def throw_if_def Let_def)
  moreover have "make_unique_aligned some_system 8192 4096 = Some (Inr 8192)"
    by (simp add: make_unique_aligned_def some_system_def)
  ultimately show ?thesis
    by (simp add: some_file_def make_file_state_def throw_if_def)
qed

theorem batched_file_witness:
  "case some_file of Some (Inr (fs, _)) \<Rightarrow>
     length (fs_buffers fs) = 2 \<and> unat (fs_offsets fs ! 1) + 4096 \<le> unat (file_size fs) | _ \<Rightarrow> False"
proof -
  note ok = batched_file [OF some_file_eq [unfolded some_file_def] _ _ some_system_laws]
  show ?thesis unfolding some_file_eq using ok by auto
qed

subsection \<open>Threads\<close>

record 'c thread_state =
  ts_iodepth :: u32
  ts_buffer :: "u64 \<times> u64"
  ts_upstream :: monotonic_resource
  ts_files :: "'c file_state list"
  ts_pool :: "(nat, nat, monotonic_resource) pool"

text \<open>
  \<open>vector_data n\<close> is the address of the storage of a vector of \<open>n\<close> buffers, of 16 bytes each. The number
  of buffers is an \<^verbatim>\<open>unsigned\<close> that may wrap, and it is the size of the upstream resource. The pool
  is made last.
\<close>

fun make_files ::
  "(file_options \<Rightarrow> 'r \<Rightarrow> ('c file_state \<times> 'r) result) \<Rightarrow> file_options list \<Rightarrow> 'r \<Rightarrow>
     ('c file_state list \<times> 'r) result" where
  "make_files mk [] rng = Some (Inr ([], rng))"
| "make_files mk (f # fs) rng = then_result (mk f rng) (\<lambda>(s, rng1).
     then_result (make_files mk fs rng1) (\<lambda>(ss, rng2). Some (Inr (s # ss, rng2))))"

definition buffer_count :: "u32 \<Rightarrow> u64" where
  "buffer_count iodepth = ucast (2 * iodepth * push_bit 10 1)"

definition file_bytes :: "nat \<Rightarrow> u64 \<Rightarrow> u64 \<Rightarrow> u64 option" where
  "file_bytes n_files read_n_bytes block =
     (if n_files = 0 then None else add_to_block (read_n_bytes div of_nat n_files) block)"

definition make_thread_state ::
  "system \<Rightarrow> (u64 \<Rightarrow> u64) \<Rightarrow> (u64 \<Rightarrow> u64 \<Rightarrow> 'r \<Rightarrow> u64 \<times> 'r) \<Rightarrow> 'c \<Rightarrow> file_options list \<Rightarrow> u64 \<Rightarrow> u32 \<Rightarrow> u64 \<Rightarrow>
     u64 \<Rightarrow> bool \<Rightarrow> 'r \<Rightarrow> ('c thread_state \<times> 'r) result" where
  "make_thread_state sys vector_data off_dist ctx fs memsz iodepth read_n_bytes block buf rng =
     (let count = buffer_count iodepth; data = vector_data count
      in case file_bytes (length fs) read_n_bytes block of
           None \<Rightarrow> None
         | Some n \<Rightarrow>
             then_result (make_files (\<lambda>f. make_file_state sys off_dist ctx f memsz n block buf) fs rng)
               (\<lambda>(ss, rng1). Some (Inr (\<lparr>ts_iodepth = iodepth, ts_buffer = (data, count),
                  ts_upstream = \<lparr>mr_buffer = data, mr_size = count\<rparr>, ts_files = ss, ts_pool = pool_init \<lparr>mr_buffer = data, mr_size = count\<rparr>\<rparr>, rng1))))"

end
