(* ===== verification/Batched_Plan.thy ===== *)
theory Batched_Plan
  imports Batched_State
begin

text \<open>
  How \<^verbatim>\<open>main\<close> of \<^verbatim>\<open>examples/batched_reads.cpp\<close> divides files and bytes among threads, and how the
  program reports.
\<close>

subsection \<open>Dividing files and bytes among threads\<close>

text \<open>
  The files of thread \<open>i\<close>: \<open>per\<close> files, the last thread has the rest. The index is a product of \<^verbatim>\<open>int\<close>s, and
  \<^verbatim>\<open>subspan\<close> is undefined outside the files.
\<close>

definition thread_files :: "'f list \<Rightarrow> int \<Rightarrow> int \<Rightarrow> int \<Rightarrow> 'f list option" where
  "thread_files fs n per i =
     (let off = i * per
      in if \<not> int_range off \<or> off < 0 \<or> nat off > length fs then None
         else if i = n - 1 then Some (drop (nat off) fs)
         else if nat per > length fs - nat off then None
         else Some (take (nat per) (drop (nat off) fs)))"

text \<open>\<^verbatim>\<open>main\<close> up to the start of the threads: for each its number, its files and its bytes.\<close>

definition main_plan :: "program_options \<Rightarrow> (nat \<times> file_options list \<times> u64) list result" where
  "main_plan o1 =
     then_result (make_counters (nthreads o1)) (\<lambda>_.
       if nthreads o1 = 0 then None else
       let per = sint (ucast ((of_nat (length (po_files o1)) :: u64) div word_of_int (nthreads o1)) :: u32)
       in throw_if (per < 1) (Runtime_Error ''Not enough files for the number of threads'')
            (do {
               bytes \<leftarrow> add_to_block (n_total_bytes o1 div word_of_int (nthreads o1)) (word_of_int (block_size o1));
               fs \<leftarrow> those (map (\<lambda>i. thread_files (po_files o1) (nthreads o1) per (int i)) [0..<nat (nthreads o1)]);
               Some (Inr (map (\<lambda>(i, f). (i, f, bytes)) (zip [0..<nat (nthreads o1)] fs))) }))"

lemma concat_chunks: "concat (map (\<lambda>i. take per (drop (i * per) xs)) [0..<k]) = take (k * per) xs"
  by (induction k) (simp_all add: add.commute flip: take_add)

lemma those_Some: "(\<forall>x \<in> set xs. f x = Some (g x)) \<Longrightarrow> those (map f xs) = Some (map g xs)"
  by (induction xs) auto

lemma int_quotient:
  assumes "0 < k" "k < 2 ^ 31" "n < 2 ^ 31"
  shows "sint (ucast ((of_nat n :: u64) div word_of_int (int k)) :: u32) = int (n div k)"
proof -
  have "unat (of_nat n :: u64) = n" "unat (of_nat k :: u64) = k" using assms by (simp_all add: unat_of_nat)
  then have q: "(of_nat n :: u64) div of_nat k = of_nat (n div k)"
    by (simp add: word_arith_nat_div)
  have "n div k < 2 ^ 31" using assms by (meson div_le_dividend le_less_trans)
  moreover from this have "unat (of_nat (n div k) :: u64) = n div k" by (simp add: unat_of_nat)
  ultimately show ?thesis using q int_of_size [of "of_nat (n div k)"] by simp
qed

text \<open>The number of the last thread is \<open>k\<close>: the chunks before it and the rest are all files.\<close>

lemma chunk_index:
  assumes "Suc k * per \<le> n" "i \<le> k"
  shows "i * per + per \<le> n"
proof -
  have "Suc i * per \<le> Suc k * per" by (rule mult_le_mono1) (simp add: assms(2))
  from order_trans [OF this assms(1)] show ?thesis by simp
qed

lemma thread_files_eq:
  assumes "Suc k * per \<le> length fs" "length fs < 2 ^ 31" "i \<le> k"
  shows "thread_files fs (int (Suc k)) (int per) (int i) =
    Some (if i = k then drop (i * per) fs else take per (drop (i * per) fs))"
proof -
  note le = chunk_index [OF assms(1,3)]
  then have lt: "i * per < 2 ^ 31" using assms(2) by linarith
  have "int_range (int (i * per))" using lt by (simp only: int_range_def) (metis (mono_tags, opaque_lifting)
      less_le_trans neg_le_0_iff_le of_nat_0_le_iff of_nat_less_iff of_nat_numeral of_nat_power order_trans zero_le_numeral zero_le_power)
  moreover have "int i * int per = int (i * per)" by simp
  moreover have "\<not> length fs < i * per" "\<not> length fs - i * per < per" using le by linarith+
  ultimately show ?thesis using assms(3)
    by (simp only: thread_files_def Let_def nat_int) (auto simp: nat_int simp del: of_nat_mult)
qed

lemma chunks_nonempty:
  assumes "Suc k * per \<le> length fs" "0 < per" "i \<le> k"
  shows "(if i = k then drop (i * per) fs else take per (drop (i * per) fs)) \<noteq> []"
proof -
  have "i * per < length fs" using chunk_index [OF assms(1,3)] assms(2) by linarith
  then have "drop (i * per) fs \<noteq> []" by simp
  with assms(2) show ?thesis by (metis less_irrefl take_eq_Nil2)
qed

lemma main_plan_spec:
  assumes "0 < n" "nthreads o1 = int n" "int_range (nthreads o1 * int factor)"
    "n \<le> length (po_files o1)" "length (po_files o1) < 2 ^ 31" "block_size o1 = 4096"
  obtains bytes fs where "add_to_block (n_total_bytes o1 div of_nat n) 4096 = Some bytes"
    "main_plan o1 = Some (Inr (map (\<lambda>(i, f). (i, f, bytes)) (zip [0..<n] fs)))"
    "length fs = n" "concat fs = po_files o1" "[] \<notin> set fs"
proof -
  let ?fs = "po_files o1"
  obtain c where c: "make_counters (int n) = Some (Inr c)" using counted_init [of "int n"] assms(2,3) by auto
  have lt: "n < 2 ^ 31"
    using assms(2,3) by (simp add: int_range_def factor_def hardware_destructive_interference_size_def)
  obtain k where k: "n = Suc k" using assms(1) gr0_conv_Suc by blast
  define per where "per = length ?fs div n"
  have per: "sint (ucast ((of_nat (length ?fs) :: u64) div word_of_int (int n)) :: u32) = int per"
    using int_quotient [OF assms(1) lt assms(5)] by (simp only: per_def)
  obtain bytes where bytes: "add_to_block (n_total_bytes o1 div of_nat n) 4096 = Some bytes"
    by (simp add: add_to_block_def)
  have ge: "0 < per" using assms(1,4) by (simp add: per_def div_greater_zero_iff)
  have le: "Suc k * per \<le> length ?fs" unfolding per_def k by (rule times_div_less_eq_dividend)
  define chunk where "chunk i = (if i = k then drop (i * per) ?fs else take per (drop (i * per) ?fs))" for i
  let ?spans = "map chunk [0..<n]"
  have spans: "those (map (\<lambda>i. thread_files ?fs (int n) (int per) (int i)) [0..<n]) = Some ?spans"
    using thread_files_eq [OF le assms(5)] k by (intro those_Some) (simp add: chunk_def less_Suc_eq_le)
  have ne: "chunk i \<noteq> []" if "i \<le> k" for i
    unfolding chunk_def by (rule chunks_nonempty [OF le ge that])
  have "[] \<notin> set ?spans"
    using ne k unfolding set_map by (metis atLeastLessThan_iff imageE less_Suc_eq_le set_upt)
  moreover have "?spans = map (\<lambda>i. take per (drop (i * per) ?fs)) [0..<k] @ [drop (k * per) ?fs]"
    using k by (simp add: chunk_def)
  then have "concat ?spans = ?fs" by (simp add: concat_chunks)
  moreover have "main_plan o1 = Some (Inr (map (\<lambda>(i, f). (i, f, bytes)) (zip [0..<n] ?spans)))"
    using c per assms(1,2,6) ge bytes spans by (simp add: main_plan_def throw_if_def)
  ultimately show ?thesis using bytes that by simp
qed

text \<open>Remark (batched_plan). Without threads the division is undefined, and more threads than files are an error. Otherwise every thread gets
  the same number of bytes and at least one file, and the files of the threads in order are all the files.\<close>

theorem batched_plan:
  assumes "0 \<le> nthreads o1" "int_range (nthreads o1 * int factor)" "length (po_files o1) < 2 ^ 31" "block_size o1 = 4096"
  shows "if nthreads o1 = 0 then main_plan o1 = None
    else if int (length (po_files o1)) < nthreads o1
    then main_plan o1 = Some (Inl (Runtime_Error ''Not enough files for the number of threads''))
    else \<exists>bytes fs. add_to_block (n_total_bytes o1 div word_of_int (nthreads o1)) 4096 = Some bytes \<and>
      main_plan o1 = Some (Inr (map (\<lambda>(i, f). (i, f, bytes)) (zip [0..<nat (nthreads o1)] fs))) \<and>
      int (length fs) = nthreads o1 \<and> concat fs = po_files o1 \<and> [] \<notin> set fs"
proof -
  obtain n where n: "nthreads o1 = int n" using assms(1) nonneg_eq_int by blast
  obtain c where c: "make_counters (nthreads o1) = Some (Inr c)" using counted_init [OF assms(1,2)] by blast
  have lt: "n < 2 ^ 31"
    using assms(2) by (simp add: n int_range_def factor_def hardware_destructive_interference_size_def)
  consider "n = 0" | "0 < n" "length (po_files o1) < n" | "0 < n" "n \<le> length (po_files o1)" by linarith
  then show ?thesis
  proof cases
    case 1
    with c show ?thesis by (simp add: main_plan_def n)
  next
    case 2
    with c int_quotient [OF 2(1) lt assms(3)] show ?thesis by (simp add: main_plan_def n throw_if_def)
  next
    case 3
    obtain bytes fs where "add_to_block (n_total_bytes o1 div of_nat n) 4096 = Some bytes"
      "main_plan o1 = Some (Inr (map (\<lambda>(i, f). (i, f, bytes)) (zip [0..<n] fs)))"
      "length fs = n" "concat fs = po_files o1" "[] \<notin> set fs"
      by (rule main_plan_spec [OF 3(1) n assms(2) 3(2) assms(3,4)])
    with 3 show ?thesis by (auto simp: n)
  qed
qed

theorem batched_plan_witness:
  "\<exists>bytes fs. main_plan (default_options\<lparr>nthreads := 2, po_files := replicate 3 \<lparr>fo_path = ''x'', use_memfd = False\<rparr>\<rparr>) =
     Some (Inr (map (\<lambda>(i, f). (i, f, bytes)) (zip [0..<2] fs))) \<and> length fs = 2 \<and> [] \<notin> set fs"
  using batched_plan [of "default_options\<lparr>nthreads := 2, po_files := replicate 3 \<lparr>fo_path = ''x'', use_memfd = False\<rparr>\<rparr>"]
  by (auto simp: default_options_def int_range_def factor_def hardware_destructive_interference_size_def)

subsection \<open>How many bytes are read\<close>

text \<open>The bytes that the threads of a plan read: each file is read in whole blocks of its share.\<close>

definition planned_bytes :: "(nat \<times> file_options list \<times> u64) list \<Rightarrow> nat" where
  "planned_bytes plan =
     sum_list (map (\<lambda>(_, fs, b). length fs * (case file_bytes (length fs) b 4096 of None \<Rightarrow> 0 | Some n \<Rightarrow> unat n)) plan)"

text \<open>The percentage that is printed.\<close>

definition read_progress :: "u64 \<Rightarrow> program_options \<Rightarrow> u64 option" where
  "read_progress n o1 = (if n_total_bytes o1 = 0 then None else Some (n * 100 div n_total_bytes o1))"

lemma add_to_block_bounds:
  assumes "add_to_block x 4096 = Some m" "unat x + 4096 < 2 ^ 64"
  shows "unat x < unat m" "unat m \<le> unat x + 4096"
proof -
  let ?n = "4096 * (unat x div 4096 + 1)"
  have "m = of_nat ?n" using add_to_block_nat [of "unat x"] assms(1) by simp
  moreover have "unat x < ?n" "?n \<le> unat x + 4096"
    using dividend_less_times_div [of 4096 "unat x"] times_div_less_eq_dividend [of 4096 "unat x"] by simp_all
  moreover from this have "unat (of_nat ?n :: u64) = ?n" using assms(2) by (simp only: unat_of_nat) simp
  ultimately show "unat x < unat m" "unat m \<le> unat x + 4096" by simp_all
qed

text \<open>A share of \<open>k\<close> parts that is increased to blocks: together more than the whole.\<close>

lemma shares_bounds:
  fixes x m :: u64
  assumes "add_to_block (x div of_nat k) 4096 = Some m" "0 < k" "k < 2 ^ 31" "unat x + 4096 * k < 2 ^ 64"
  shows "unat x < k * unat m" "k * unat m \<le> unat x + 4096 * k"
proof -
  have "unat (of_nat k :: u64) = k" using assms(3) by (simp add: unat_of_nat)
  then have q: "unat (x div of_nat k) = unat x div k" by (simp add: unat_div)
  have "4096 * 1 \<le> 4096 * k" using assms(2) by simp
  then have "unat (x div of_nat k) + 4096 < 2 ^ 64" using assms(4) q div_le_dividend [of "unat x" k] by linarith
  from add_to_block_bounds [OF assms(1) this] have m: "unat x div k + 1 \<le> unat m" "unat m \<le> unat x div k + 4096"
    unfolding q by simp_all
  have "unat x < k * (unat x div k + 1)"
    using dividend_less_times_div [OF assms(2), of "unat x"] by simp
  also have "\<dots> \<le> k * unat m" using m(1) by (rule mult_le_mono2)
  finally show "unat x < k * unat m" .
  have "k * unat m \<le> k * (unat x div k + 4096)" using m(2) by (rule mult_le_mono2)
  also have "\<dots> \<le> unat x + 4096 * k" using times_div_less_eq_dividend [of k "unat x"] by (simp add: algebra_simps)
  finally show "k * unat m \<le> unat x + 4096 * k" .
qed

lemma sum_list_bounds:
  fixes g h :: "'f \<Rightarrow> nat"
  assumes "\<And>x. x \<in> set xs \<Longrightarrow> b < g x \<and> g x \<le> b + h x"
  shows "length xs * b \<le> sum_list (map g xs)" "sum_list (map g xs) \<le> length xs * b + sum_list (map h xs)"
proof -
  have "length xs * b \<le> sum_list (map g xs) \<and> sum_list (map g xs) \<le> length xs * b + sum_list (map h xs)"
    using assms
  proof (induction xs)
    case (Cons x xs)
    then have "b < g x \<and> g x \<le> b + h x"
      "length xs * b \<le> sum_list (map g xs) \<and> sum_list (map g xs) \<le> length xs * b + sum_list (map h xs)"
      by auto
    then show ?case by simp
  qed simp
  then show "length xs * b \<le> sum_list (map g xs)" "sum_list (map g xs) \<le> length xs * b + sum_list (map h xs)"
    by blast+
qed



subsection \<open>The report\<close>

text \<open>A duration in nanoseconds; the count is not negative between two readings of a steady clock.\<close>

definition print_time :: "nat \<Rightarrow> string" where
  "print_time ns =
     (let us = ns div 10 ^ 3; ms = ns div 10 ^ 6; s = ns div 10 ^ 9
      in if s > 0 then decimal s @ ''.'' @ zero_padded 3 (ms mod 1000) @ ''s''
         else if ms > 0 then decimal ms @ ''.'' @ decimal (us mod 1000) @ ''ms''
         else if us > 0 then decimal us @ ''.'' @ decimal (ns mod 1000) @ ''us''
         else decimal ns @ ''ns'')"

text \<open>The condition of the variable that the report waits for.\<close>

definition all_completed :: "program_options \<Rightarrow> counters \<Rightarrow> bool" where
  "all_completed o1 c \<longleftrightarrow> n_completions c = nthreads o1"

definition count_completion :: "counters \<Rightarrow> counters" where
  "count_completion c = c\<lparr>n_completions := n_completions c + 1\<rparr>"

text \<open>
  What a decimal number of a unit denotes, in nanoseconds: the digits behind the point are tenths,
  hundredths and so on.
\<close>

definition unit_exponent :: "string \<Rightarrow> nat option" where
  "unit_exponent u = (if u = ''s'' then Some 9 else if u = ''ms'' then Some 6 else if u = ''us'' then Some 3
     else if u = ''ns'' then Some 0 else None)"

definition time_value :: "string \<Rightarrow> nat option" where
  "time_value txt =
     (let whole = takeWhile is_digit txt; rest = dropWhile is_digit txt;
          point = (take 1 rest = ''.'');
          frac = (if point then takeWhile is_digit (tl rest) else []);
          u = (if point then dropWhile is_digit (tl rest) else rest)
      in map_option (\<lambda>e. digits_value whole * 10 ^ e + digits_value frac * 10 ^ (e - length frac))
           (unit_exponent u))"

lemma dropWhile_digits:
  "rest = [] \<or> \<not> is_digit (hd rest) \<Longrightarrow> \<forall>c \<in> set ds. is_digit c \<Longrightarrow>
     takeWhile is_digit (ds @ rest) = ds \<and> dropWhile is_digit (ds @ rest) = rest"
  by (cases rest) (simp_all add: takeWhile_append dropWhile_append)

lemma time_value_point:
  assumes "\<forall>c \<in> set frac. is_digit c" "unit_exponent u = Some e"
  shows "time_value (decimal n @ ''.'' @ frac @ u) = Some (n * 10 ^ e + digits_value frac * 10 ^ (e - length frac))"
proof -
  have u: "u = [] \<or> \<not> is_digit (hd u)"
    using assms(2) by (auto simp: unit_exponent_def is_digit_def split: if_splits)
  have "''.'' @ frac @ u = [] \<or> \<not> is_digit (hd (''.'' @ frac @ u))" by (simp add: is_digit_def)
  note whole = dropWhile_digits [OF this decimal_digits [of n]]
  note part = dropWhile_digits [OF u assms(1)]
  show ?thesis unfolding time_value_def Let_def whole [THEN conjunct1] whole [THEN conjunct2]
    using part assms(2) by (simp add: digits_value_decimal)
qed

lemma zero_padded_digits: "\<forall>c \<in> set (zero_padded w n). is_digit c"
  using decimal_digits [of n] by (auto simp: zero_padded_def is_digit_def)

lemma decimal_length_three:
  assumes "0 < n" "n < 1000"
  shows "n * 10 ^ (6 - length (decimal n)) = n * 1000 \<longleftrightarrow> 100 \<le> n"
proof -
  consider "n < 10" | "10 \<le> n" "n < 100" | "100 \<le> n" by linarith
  then show ?thesis
  proof cases
    case 1
    then have "length (decimal n) = 1" by (subst decimal.simps) simp
    with 1 assms show ?thesis by simp
  next
    case 2
    then have "n div 10 < 10" by simp
    then have "length (decimal (n div 10)) = 1" by (subst decimal.simps) simp
    with 2 have "length (decimal n) = 2" by (subst decimal.simps) simp
    with 2 assms show ?thesis by simp
  next
    case 3
    then have "n div 10 div 10 < 10" "\<not> n div 10 < 10" using assms by simp_all
    then have "length (decimal (n div 10 div 10)) = 1" by (subst decimal.simps) simp
    with \<open>\<not> n div 10 < 10\<close> have "length (decimal (n div 10)) = 2" by (subst decimal.simps) simp
    with 3 have "length (decimal n) = 3" by (subst decimal.simps) simp
    with 3 show ?thesis by simp
  qed
qed

lemma unit_exponents: "unit_exponent ''s'' = Some 9" "unit_exponent ''ms'' = Some 6"
  by (simp_all add: unit_exponent_def)

lemma div_units: "(ns :: nat) div 10 ^ 9 = ns div 10 ^ 6 div 1000" "ns div 10 ^ 6 = ns div 10 ^ 3 div 1000"
  by (simp_all add: div_mult2_eq [symmetric])

text \<open>Remark (batched_print_time). A duration of a second or more is printed rounded down to milliseconds. A duration of less than
  a second is printed as another one when its last three digits are less than 100 and not zero, because
  they are not padded: 1.005 milliseconds are printed as \<^verbatim>\<open>1.5ms\<close>.\<close>

theorem batched_print_time:
  shows "10 ^ 9 \<le> ns \<Longrightarrow> time_value (print_time ns) = Some (10 ^ 6 * (ns div 10 ^ 6))"
    and "10 ^ 6 \<le> ns \<Longrightarrow> ns < 10 ^ 9 \<Longrightarrow>
      time_value (print_time ns) = Some (10 ^ 3 * (ns div 10 ^ 3)) \<longleftrightarrow>
        ns div 10 ^ 3 mod 1000 = 0 \<or> 100 \<le> ns div 10 ^ 3 mod 1000"
proof -
  assume s: "10 ^ 9 \<le> ns"
  define q where "q = ns div 10 ^ 6"
  have "0 < ns div 10 ^ 9" using s by (simp add: div_greater_zero_iff)
  then have "print_time ns = decimal (q div 1000) @ ''.'' @ zero_padded 3 (q mod 1000) @ ''s''"
    unfolding print_time_def Let_def q_def div_units(1) by simp
  then have "time_value (print_time ns) = Some (q div 1000 * 10 ^ 9 + q mod 1000 * 10 ^ 6)"
    using time_value_point [OF zero_padded_digits unit_exponents(1)] zero_padded_length [of "q mod 1000" 3]
    by (simp add: digits_value_padded)
  moreover have "q div 1000 * 10 ^ 9 + q mod 1000 * 10 ^ 6 = 10 ^ 6 * q"
    by (simp, use mult_div_mod_eq [of 1000 q] in linarith)
  ultimately show "time_value (print_time ns) = Some (10 ^ 6 * (ns div 10 ^ 6))" by (simp add: q_def)
next
  assume ms: "10 ^ 6 \<le> ns" "ns < 10 ^ 9"
  define q where "q = ns div 10 ^ 3"
  define r where "r = q mod 1000"
  have "0 < ns div 10 ^ 6" "ns div 10 ^ 9 = 0" using ms by (simp_all add: div_greater_zero_iff)
  then have "print_time ns = decimal (q div 1000) @ ''.'' @ decimal r @ ''ms''"
    unfolding print_time_def Let_def q_def r_def div_units(2) by simp
  then have val: "time_value (print_time ns) = Some (q div 1000 * 10 ^ 6 + r * 10 ^ (6 - length (decimal r)))"
    using time_value_point [OF decimal_digits unit_exponents(2)] by (simp add: digits_value_decimal)
  have "10 ^ 3 * q = q div 1000 * 10 ^ 6 + r * 1000"
    by (simp add: r_def, use mult_div_mod_eq [of 1000 q] in linarith)
  then have "time_value (print_time ns) = Some (10 ^ 3 * q) \<longleftrightarrow> r * 10 ^ (6 - length (decimal r)) = r * 1000"
    unfolding val by simp
  moreover have "r < 1000" by (simp add: r_def)
  ultimately have "time_value (print_time ns) = Some (10 ^ 3 * q) \<longleftrightarrow> r = 0 \<or> 100 \<le> r"
    using decimal_length_three [of r] by (cases "r = 0") simp_all
  then show "time_value (print_time ns) = Some (10 ^ 3 * (ns div 10 ^ 3)) \<longleftrightarrow>
      ns div 10 ^ 3 mod 1000 = 0 \<or> 100 \<le> ns div 10 ^ 3 mod 1000" by (simp only: q_def r_def)
qed

theorem batched_print_time_witness:
  "time_value (print_time 2005999999) = Some 2005000000 \<and> time_value (print_time 1005000) \<noteq> Some 1005000"
  using batched_print_time(1) [of 2005999999] batched_print_time(2) [of 1005000] by simp

end
