(* ===== verification/Batched_Reads.thy ===== *)
theory Batched_Reads
  imports Batched_State Io_Uring_Correct Zip
begin

text \<open>
  The reads of \<^verbatim>\<open>examples/batched_reads.cpp\<close>: the buffers and offsets of a file are zipped, and each row is read
  whole, counting what every operation transfers. \<^verbatim>\<open>sio::async::read_batched\<close> of \<^verbatim>\<open>read_batched.hpp\<close> is the same
  without counters.
\<close>

subsection \<open>Reading\<close>

text \<open>The function of \<^verbatim>\<open>then_each\<close> sees the values of the items, and passes them on.\<close>

definition item_values :: "int list \<Rightarrow> u64 list" where
  "item_values results = concat (map (\<lambda>r. case io_complete r of Set_Value n \<Rightarrow> [n] | _ \<Rightarrow> []) results)"

type_synonym transfer = "sqe list \<times> (u64, (int + unit) + unit) signal option"

definition read_with_counter ::
  "'c native_fd_handle \<Rightarrow> mutable_buffer \<Rightarrow> off_t \<Rightarrow> bool \<Rightarrow> nat \<Rightarrow> int list \<Rightarrow> counters \<Rightarrow>
     (transfer \<times> counters) option" where
  "read_with_counter h buf off0 stop thread_id results c =
     (let (subs, sig) = stream_read h buf off0 stop results
      in do {
        c1 \<leftarrow> notify_all (map (\<lambda>n. (thread_id, n)) (item_values (take (length subs) results))) c;
        Some ((subs, sig), c1)
      })"

text \<open>The values of the two sequences that are zipped, and a row of them.\<close>

datatype batch_value = Buffer_Value mutable_buffer | Offset_Value off_t

definition batch_row :: "batch_value list \<Rightarrow> (mutable_buffer \<times> off_t) option" where
  "batch_row vs = (case (vs ! 0, vs ! 1) of (Buffer_Value b, Offset_Value x) \<Rightarrow> Some (b, x) | _ \<Rightarrow> None)"

definition batch_rows :: "('i, batch_value, 'e) zip_op \<Rightarrow> (mutable_buffer \<times> off_t) list option" where
  "batch_rows s = those (map (\<lambda>r. batch_row (snd r)) (zipped s))"

text \<open>The rows are forked; their counting commutes, so they are read in order here. Each has its own results.\<close>

fun read_rows ::
  "'c native_fd_handle \<Rightarrow> bool \<Rightarrow> nat \<Rightarrow> ((mutable_buffer \<times> off_t) \<times> int list) list \<Rightarrow> counters \<Rightarrow>
     (transfer list \<times> counters) option" where
  "read_rows h stop thread_id [] c = Some ([], c)"
| "read_rows h stop thread_id (((b, x), results) # rows) c = do {
     (t, c1) \<leftarrow> read_with_counter h b x stop thread_id results c;
     (ts, c2) \<leftarrow> read_rows h stop thread_id rows c1;
     Some (t # ts, c2)
   }"

text \<open>\<open>as\<close> are the items of \<^verbatim>\<open>iterate(buffers)\<close> and \<^verbatim>\<open>iterate(offsets)\<close> in the order in which they arrive.\<close>

definition read_batched ::
  "'c native_fd_handle \<Rightarrow> bool \<Rightarrow> nat \<Rightarrow> (nat \<times> 'i \<times> batch_value) list \<Rightarrow> int list list \<Rightarrow> counters \<Rightarrow>
     (transfer list \<times> counters) option" where
  "read_batched h stop thread_id as results c = do {
     s \<leftarrow> arrivals as (zip_init 2 (\<lambda>_. Unstoppable) :: ('i, batch_value, unit) zip_op);
     rows \<leftarrow> batch_rows s;
     read_rows h stop thread_id (zip rows results) c
   }"

definition async_read_batched ::
  "'c native_fd_handle \<Rightarrow> bool \<Rightarrow> (nat \<times> 'i \<times> batch_value) list \<Rightarrow> int list list \<Rightarrow> transfer list option" where
  "async_read_batched h stop as results = do {
     s \<leftarrow> arrivals as (zip_init 2 (\<lambda>_. Unstoppable) :: ('i, batch_value, unit) zip_op);
     rows \<leftarrow> batch_rows s;
     Some (map (\<lambda>((b, x), rs). stream_read h b x stop rs) (zip rows results))
   }"

subsection \<open>The rows\<close>

lemma those_rows:
  assumes "length bufs = length offs" "length rows = length bufs"
    "\<forall>i < length rows. rows ! i ! 0 = Buffer_Value (bufs ! i) \<and> rows ! i ! 1 = Offset_Value (offs ! i)"
  shows "those (map batch_row rows) = Some (zip bufs offs)"
  using assms
proof (induction rows arbitrary: bufs offs)
  case (Cons r rows)
  then obtain b bufs' x offs' where eq: "bufs = b # bufs'" "offs = x # offs'" "length bufs' = length offs'"
    "length rows = length bufs'"
    by (cases bufs; cases offs) auto
  have "r ! 0 = Buffer_Value b" "r ! 1 = Offset_Value x" using Cons.prems(3) eq by auto
  moreover have "\<forall>i < length rows. rows ! i ! 0 = Buffer_Value (bufs' ! i) \<and> rows ! i ! 1 = Offset_Value (offs' ! i)"
    using Cons.prems(3) eq by auto
  ultimately show ?case using Cons.IH [OF eq(3,4)] eq by (simp add: batch_row_def)
qed simp

lemma whole_prefix: "xs = ys @ zs \<Longrightarrow> length xs = length ys \<Longrightarrow> xs = ys"
  by simp

lemma batch_arrivals:
  fixes as :: "(nat \<times> 'i \<times> batch_value) list"
  assumes "\<forall>(i, p, v) \<in> set as. i < 2" "distinct (map (\<lambda>(i, p, v). p) as)"
    "history as 0 = map Buffer_Value bufs" "history as 1 = map Offset_Value offs" "length bufs = length offs"
  shows "\<exists>s. arrivals as (zip_init 2 (\<lambda>_. Unstoppable) :: ('i, batch_value, unit) zip_op) = Some s \<and>
    batch_rows s = Some (zip bufs offs)"
proof -
  obtain s :: "('i, batch_value, unit) zip_op" where s: "arrivals as (zip_init 2 (\<lambda>_. Unstoppable)) = Some s"
    "\<forall>i < 2. history as i = map (\<lambda>r. snd r ! i) (zipped s) @ map snd (z_queues s ! i)"
    "\<exists>i < 2. length (zipped s) = length (history as i)"
    using arrivals_zipped [of 2 as "\<lambda>_. Unstoppable"] assms(1,2) by auto
  have len: "length (zipped s) = length bufs"
    using s(3) assms(3-5) by (auto simp: less_2_cases_iff)
  have columns: "map Buffer_Value bufs = map (\<lambda>r. snd r ! 0) (zipped s) @ map snd (z_queues s ! 0)"
    "map Offset_Value offs = map (\<lambda>r. snd r ! 1) (zipped s) @ map snd (z_queues s ! 1)"
    using s(2) [rule_format, of 0] s(2) [rule_format, of 1] assms(3,4) by simp_all
  have rows: "map Buffer_Value bufs = map (\<lambda>r. snd r ! 0) (zipped s)"
    "map Offset_Value offs = map (\<lambda>r. snd r ! 1) (zipped s)"
    using len assms(5) by (simp_all add: whole_prefix [OF columns(1)] whole_prefix [OF columns(2)])
  have "those (map batch_row (map snd (zipped s))) = Some (zip bufs offs)"
  proof (rule those_rows [OF assms(5)])
    show "\<forall>i < length (map snd (zipped s)). map snd (zipped s) ! i ! 0 = Buffer_Value (bufs ! i) \<and>
        map snd (zipped s) ! i ! 1 = Offset_Value (offs ! i)"
    proof (intro allI impI)
      fix i assume "i < length (map snd (zipped s))"
      then have i: "i < length (zipped s)" "i < length bufs" "i < length offs" using len assms(5) by simp_all
      from arg_cong [OF rows(1), of "\<lambda>xs. xs ! i"] arg_cong [OF rows(2), of "\<lambda>xs. xs ! i"] i
      show "map snd (zipped s) ! i ! 0 = Buffer_Value (bufs ! i) \<and> map snd (zipped s) ! i ! 1 = Offset_Value (offs ! i)"
        by simp
    qed
  qed (simp add: len)
  then have "batch_rows s = Some (zip bufs offs)" by (simp add: batch_rows_def comp_def)
  with s(1) show ?thesis by blast
qed

subsection \<open>Whole reads\<close>

lemma item_values_nat: "item_values (map int rs) = map of_nat rs"
  by (induction rs) (simp_all add: item_values_def io_complete_nat)

lemma sum_of_nats: "sum_list (map of_nat rs) = (of_nat (sum_list rs) :: u64)"
  by (induction rs) simp_all

text \<open>A submission that reads into a part of the storage, from a part of the file.\<close>

definition reads_inside :: "int \<Rightarrow> nat \<Rightarrow> nat \<Rightarrow> nat \<Rightarrow> nat \<Rightarrow> sqe \<Rightarrow> bool" where
  "reads_inside fd data data_end off off_end q \<longleftrightarrow> opcode q = Op_Read \<and> sqe_fd q = fd \<and>
     data \<le> unat (sqe_addr q) \<and> unat (sqe_addr q) + unat (sqe_len q) \<le> data_end \<and>
     off \<le> unat (sqe_off q) \<and> unat (sqe_off q) + unat (sqe_len q) \<le> off_end"

lemma whole_read:
  assumes "rs \<noteq> []" "\<forall>r \<in> set rs. r > 0" "sum_list rs = unat n"
    "unat data + unat n < 2 ^ 64" "unat off0 + unat n < 2 ^ 64 - 1"
    "counted k b m c" "t < k"
  shows "\<exists>subs c'. read_with_counter h (mb_make data n) off0 stop t (map int rs) c = Some ((subs, Some (Set_Value n)), c') \<and>
    (\<forall>q \<in> set subs. reads_inside (h_fd h) (unat data) (unat data + unat n) (unat off0) (unat off0 + unat n) q) \<and>
    counted k (b + n) (m + of_nat (length rs)) c'"
proof -
  let ?data = "cb_make data n"
  have range: "in_range ?data off0" using assms(5) by (simp add: in_range_def cb_make_def)
  have sum: "sum_list rs = unat (cb_size ?data)" using assms(3) by (simp add: cb_make_def)
  define subs where "subs = map (\<lambda>j. let s = span_after ?data off0 (sum_list (take j rs)) in
      read_submit_single (mb_make (cb_data (s_buffer s)) (cb_size (s_buffer s))) (h_fd h) (s_offset s)) [0..<length rs]"
  have read: "stream_read h (mb_make data n) off0 stop (map int rs) = (subs, Some (Set_Value n))"
    using transfer_all [OF range assms(1,2) sum]
    by (simp add: stream_read_def mb_make_def cb_make_def subs_def Let_def)
  have "reads_inside (h_fd h) (unat data) (unat data + unat n) (unat off0) (unat off0 + unat n) q" if "q \<in> set subs" for q
  proof -
    obtain j where q: "q = (let s = span_after ?data off0 (sum_list (take j rs)) in
        read_submit_single (mb_make (cb_data (s_buffer s)) (cb_size (s_buffer s))) (h_fd h) (s_offset s))"
      using \<open>q \<in> set subs\<close> by (auto simp: subs_def)
    define i where "i = sum_list (take j rs)"
    have "sum_list (take j rs) + sum_list (drop j rs) = sum_list rs"
      by (metis append_take_drop_id sum_list_append)
    then have i: "i \<le> unat n" using assms(3) by (simp add: i_def)
    then have iw: "unat (of_nat i :: u64) = i" using unat_less64 [of n] by (simp add: unat_of_nat)
    have "unat off0 \<noteq> 2 ^ 64 - 1" using assms(5) by linarith
    then have off: "off0 \<noteq> - 1" by (auto simp: unsigned_minus_1_eq_mask mask_eq_exp_minus_1)
    have "unat (n - of_nat i) = unat n - i" using i iw by (subst unat_sub) (simp_all add: word_le_nat_alt)
    moreover have "unat (ucast (n - of_nat i) :: u32) \<le> unat (n - of_nat i)"
      by (simp add: unsigned_ucast_eq take_bit_eq_mod)
    moreover have "unat (data + of_nat i) = unat data + i" "unat (off0 + of_nat i) = unat off0 + i"
      using assms(4,5) i iw by (simp_all add: unat_add_no_wrap)
    ultimately show ?thesis
      using i off unfolding q i_def [symmetric]
      by (simp add: reads_inside_def span_after_def cb_make_def read_submit_single_def mb_make_def sqe_zero_def)
  qed
  moreover have "take (length subs) (map int rs) = map int rs" by (simp add: subs_def)
  moreover have "\<exists>c'. notify_all (map (\<lambda>n. (t, n)) (map of_nat rs)) c = Some c' \<and>
      counted k (b + n) (m + of_nat (length rs)) c'"
  proof -
    have "sum_list (map snd (map (\<lambda>n. (t, n)) (map of_nat rs))) = (of_nat (sum_list rs) :: u64)"
      by (simp add: comp_def sum_of_nats)
    then show ?thesis
      using counted_notify_all [OF assms(6), of "map (\<lambda>n. (t, n)) (map of_nat rs)"] assms(3,7) by auto
  qed
  ultimately show ?thesis
    by (auto simp: read_with_counter_def read item_values_nat)
qed

lemma read_rows_whole:
  assumes "length bufs = length offs" "length rss = length bufs"
    "\<forall>i < length bufs. mb_size (bufs ! i) = n \<and> unat (mb_data (bufs ! i)) + unat n < 2 ^ 64 \<and>
       unat (offs ! i) + unat n < 2 ^ 64 - 1"
    "\<forall>rs \<in> set rss. rs \<noteq> [] \<and> (\<forall>r \<in> set rs. r > 0) \<and> sum_list rs = unat n"
    "counted k b m c" "t < k"
  shows "\<exists>ts c'. read_rows h stop t (zip (zip bufs offs) (map (map int) rss)) c = Some (ts, c') \<and>
    length ts = length rss \<and>
    (\<forall>i < length rss. snd (ts ! i) = Some (Set_Value n) \<and>
       (\<forall>q \<in> set (fst (ts ! i)). reads_inside (h_fd h) (unat (mb_data (bufs ! i))) (unat (mb_data (bufs ! i)) + unat n)
          (unat (offs ! i)) (unat (offs ! i) + unat n) q)) \<and>
    counted k (b + of_nat (length rss) * n) (m + of_nat (sum_list (map length rss))) c'"
  using assms(1-5)
proof (induction rss arbitrary: bufs offs b m c)
  case (Cons rs rss)
  then obtain buf bufs' x offs' where eq: "bufs = buf # bufs'" "offs = x # offs'" "length bufs' = length offs'"
    "length rss = length bufs'"
    by (cases bufs; cases offs) auto
  have buf: "buf = mb_make (mb_data buf) n" "unat (mb_data buf) + unat n < 2 ^ 64" "unat x + unat n < 2 ^ 64 - 1"
    using Cons.prems(3) eq by (auto simp: mb_make_def)
  have rs: "rs \<noteq> []" "\<forall>r \<in> set rs. r > 0" "sum_list rs = unat n" using Cons.prems(4) by auto
  obtain subs c1 where r: "read_with_counter h buf x stop t (map int rs) c = Some ((subs, Some (Set_Value n)), c1)"
    "\<forall>q \<in> set subs. reads_inside (h_fd h) (unat (mb_data buf)) (unat (mb_data buf) + unat n) (unat x) (unat x + unat n) q"
    "counted k (b + n) (m + of_nat (length rs)) c1"
    using whole_read [OF rs buf(2,3) Cons.prems(5) assms(6), of h stop] buf(1) by auto
  have "\<forall>i < length bufs'. mb_size (bufs' ! i) = n \<and> unat (mb_data (bufs' ! i)) + unat n < 2 ^ 64 \<and>
      unat (offs' ! i) + unat n < 2 ^ 64 - 1"
    using Cons.prems(3) eq by auto
  moreover have "\<forall>rs \<in> set rss. rs \<noteq> [] \<and> (\<forall>r \<in> set rs. r > 0) \<and> sum_list rs = unat n"
    using Cons.prems(4) by simp
  ultimately obtain ts c' where ts:
    "read_rows h stop t (zip (zip bufs' offs') (map (map int) rss)) c1 = Some (ts, c')" "length ts = length rss"
    "\<forall>i < length rss. snd (ts ! i) = Some (Set_Value n) \<and>
       (\<forall>q \<in> set (fst (ts ! i)). reads_inside (h_fd h) (unat (mb_data (bufs' ! i))) (unat (mb_data (bufs' ! i)) + unat n)
          (unat (offs' ! i)) (unat (offs' ! i) + unat n) q)"
    "counted k (b + n + of_nat (length rss) * n) (m + of_nat (length rs) + of_nat (sum_list (map length rss))) c'"
    using Cons.IH [OF eq(3,4) _ _ r(3)] by blast
  have "read_rows h stop t (zip (zip bufs offs) (map (map int) (rs # rss))) c = Some ((subs, Some (Set_Value n)) # ts, c')"
    using r(1) ts(1) eq by simp
  moreover have "counted k (b + of_nat (length (rs # rss)) * n) (m + of_nat (sum_list (map length (rs # rss)))) c'"
    using ts(4) by (simp add: algebra_simps)
  moreover have "\<forall>i < length (rs # rss). snd (((subs, Some (Set_Value n)) # ts) ! i) = Some (Set_Value n) \<and>
       (\<forall>q \<in> set (fst (((subs, Some (Set_Value n)) # ts) ! i)). reads_inside (h_fd h) (unat (mb_data (bufs ! i)))
          (unat (mb_data (bufs ! i)) + unat n) (unat (offs ! i)) (unat (offs ! i) + unat n) q)"
    using ts(3) r(2) eq by (auto simp: nth_Cons split: nat.splits)
  ultimately show ?case using ts(2) by (metis length_Cons)
qed simp

lemma batched_file_reads:
  fixes as :: "(nat \<times> 'i \<times> batch_value) list"
  assumes "make_file_state sys d ctx fopts memsz readn block buf rng = Some (Inr (fs, rng'))"
    "unat readn div unat block < 2 ^ 31" "block \<le> file_size fs" "unat (file_size fs) < 2 ^ 63"
    "dist_law d" "memalign_law sys"
    "\<forall>(i, p, v) \<in> set as. i < 2" "distinct (map (\<lambda>(i, p, v). p) as)"
    "history as 0 = map Buffer_Value (fs_buffers fs)" "history as 1 = map Offset_Value (fs_offsets fs)"
    "length rss = unat readn div unat block"
    "\<forall>rs \<in> set rss. rs \<noteq> [] \<and> (\<forall>r \<in> set rs. r > 0) \<and> sum_list rs = unat block"
    "counted k b m c" "t < k"
  shows "\<exists>ts c'. read_batched (fs_stream fs) stop t as (map (map int) rss) c = Some (ts, c') \<and>
    length ts = length rss \<and>
    (\<forall>i < length ts. snd (ts ! i) = Some (Set_Value block) \<and>
       (\<forall>q \<in> set (fst (ts ! i)). reads_inside (fs_fd fs)
          (unat (buffer_storage fs) + i * unat block) (unat (buffer_storage fs) + (i + 1) * unat block) 0 (unat (file_size fs)) q)) \<and>
    counted k (b + of_nat (length rss) * block) (m + of_nat (sum_list (map length rss))) c'"
proof -
  let ?n = "unat readn div unat block"
  note made = make_file_state_eq [OF assms(1,2)]
  note blocks = file_blocks [OF assms(1,2,3,5,6)]
  have h: "h_fd (fs_stream fs) = fs_fd fs" by (simp add: made(5))
  obtain s :: "('i, batch_value, unit) zip_op" where s: "arrivals as (zip_init 2 (\<lambda>_. Unstoppable)) = Some s"
    "batch_rows s = Some (zip (fs_buffers fs) (fs_offsets fs))"
    using batch_arrivals [OF assms(7-10)] blocks(1,2) by auto
  have rows: "\<forall>i < length (fs_buffers fs). mb_size (fs_buffers fs ! i) = block \<and>
      unat (mb_data (fs_buffers fs ! i)) + unat block < 2 ^ 64 \<and> unat (fs_offsets fs ! i) + unat block < 2 ^ 64 - 1"
  proof (intro allI impI)
    fix i assume "i < length (fs_buffers fs)"
    then have i: "i < ?n" using blocks(1) by simp
    have "(i + 1) * unat block \<le> ?n * unat block" using i by (intro mult_le_mono1) simp
    then have "i * unat block + unat block \<le> ?n * unat block" by simp
    with i blocks(3,4) assms(4) show "mb_size (fs_buffers fs ! i) = block \<and>
      unat (mb_data (fs_buffers fs ! i)) + unat block < 2 ^ 64 \<and> unat (fs_offsets fs ! i) + unat block < 2 ^ 64 - 1"
      by fastforce
  qed
  obtain ts c' where r: "read_rows (fs_stream fs) stop t (zip (zip (fs_buffers fs) (fs_offsets fs)) (map (map int) rss)) c = Some (ts, c')"
    "length ts = length rss"
    "\<forall>i < length rss. snd (ts ! i) = Some (Set_Value block) \<and>
       (\<forall>q \<in> set (fst (ts ! i)). reads_inside (fs_fd fs) (unat (mb_data (fs_buffers fs ! i)))
          (unat (mb_data (fs_buffers fs ! i)) + unat block) (unat (fs_offsets fs ! i)) (unat (fs_offsets fs ! i) + unat block) q)"
    "counted k (b + of_nat (length rss) * block) (m + of_nat (sum_list (map length rss))) c'"
    using read_rows_whole [OF _ _ rows assms(12,13,14), of "fs_stream fs" stop] blocks(1,2) assms(11)
    unfolding h by auto
  have "reads_inside (fs_fd fs) (unat (buffer_storage fs) + i * unat block)
      (unat (buffer_storage fs) + (i + 1) * unat block) 0 (unat (file_size fs)) q"
    if i: "i < length rss" and q: "q \<in> set (fst (ts ! i))" for i q
  proof -
    from i q r(3) have "reads_inside (fs_fd fs) (unat (mb_data (fs_buffers fs ! i)))
      (unat (mb_data (fs_buffers fs ! i)) + unat block) (unat (fs_offsets fs ! i)) (unat (fs_offsets fs ! i) + unat block) q"
      by blast
    moreover have "unat (mb_data (fs_buffers fs ! i)) = unat (buffer_storage fs) + i * unat block"
      "unat (fs_offsets fs ! i) + unat block \<le> unat (file_size fs)"
      using blocks(3) i assms(11) by auto
    ultimately show ?thesis by (auto simp: reads_inside_def)
  qed
  with r s(1,2) show ?thesis by (auto simp: read_batched_def)
qed

text \<open>Remark (batched_reads). When the operations of each row transfer a block in parts that are not empty, then in whatever order
  buffers and offsets arrive, every block is read with its own buffer: each submission
  reads into the storage of its block and from inside the file, each read completes with the size of a
  block, and the counters grow by all bytes and all operations.\<close>

theorem batched_reads:
  fixes as :: "(nat \<times> 'i \<times> batch_value) list"
  assumes "make_file_state sys d ctx fopts memsz readn block buf rng = Some (Inr (fs, rng'))"
    "unat readn div unat block < 2 ^ 31" "block \<le> file_size fs" "unat (file_size fs) < 2 ^ 63"
    "dist_law d" "memalign_law sys"
    "\<forall>(i, p, v) \<in> set as. i < 2" "distinct (map (\<lambda>(i, p, v). p) as)"
    "history as 0 = map Buffer_Value (fs_buffers fs)" "history as 1 = map Offset_Value (fs_offsets fs)"
    "length rss = unat readn div unat block"
    "\<forall>rs \<in> set rss. rs \<noteq> [] \<and> (\<forall>r \<in> set rs. r > 0) \<and> sum_list rs = unat block"
    "counted k b m c" "t < k"
  shows "\<exists>ts c'. read_batched (fs_stream fs) stop t as (map (map int) rss) c = Some (ts, c') \<and>
    length ts = length rss \<and>
    (\<forall>i < length ts. snd (ts ! i) = Some (Set_Value block) \<and>
       (\<forall>q \<in> set (fst (ts ! i)). reads_inside (fs_fd fs)
          (unat (buffer_storage fs) + i * unat block) (unat (buffer_storage fs) + (i + 1) * unat block) 0 (unat (file_size fs)) q)) \<and>
    counted k (b + of_nat (length rss) * block) (m + of_nat (sum_list (map length rss))) c'"
  by (rule batched_file_reads [OF assms])

theorem batched_reads_witness:
  "\<exists>fs ts c c'. some_file = Some (Inr (fs, ())) \<and> make_counters 1 = Some (Inr c) \<and>
     read_batched (fs_stream fs) False 0
       [(0, 1 :: nat, Buffer_Value (mb_make 8192 4096)), (1, 2, Offset_Value 8192), (1, 3, Offset_Value 8192),
        (0, 4, Buffer_Value (mb_make 12288 4096))] (map (map int) [[4096], [4000, 96]]) c = Some (ts, c') \<and>
     length ts = 2 \<and> load_stats c' = Some (8192, 3)"
proof -
  let ?as = "[(0, 1 :: nat, Buffer_Value (mb_make 8192 4096)), (1, 2, Offset_Value 8192), (1, 3, Offset_Value 8192),
        (0, 4, Buffer_Value (mb_make 12288 4096))]"
  obtain c where c: "make_counters 1 = Some (Inr c)" "counted 1 0 0 c"
    using counted_init [of 1] by (auto simp: int_range_def factor_def hardware_destructive_interference_size_def)
  have h: "history ?as 0 = map Buffer_Value [mb_make 8192 4096, mb_make 12288 4096]"
    "history ?as 1 = map Offset_Value [8192, 8192]" by (simp_all add: history_def)
  from batched_reads [OF some_file_eq [unfolded some_file_def] _ _ _ some_system_laws _ _ _ _ _ _ c(2), of ?as "[[4096], [4000, 96]]" 0 False]
  obtain ts c' where "read_batched \<lparr>h_context = Some (), h_fd = 3\<rparr> False 0 ?as (map (map int) [[4096], [4000, 96]]) c = Some (ts, c')"
    "length ts = 2" "counted 1 8192 3 c'" using h by auto
  with c(1) load_stats_counted [of 1 8192 3 c'] show ?thesis unfolding some_file_eq by auto
qed

subsection \<open>Files that are too small\<close>

lemma small_file:
  assumes "make_file_state sys d ctx fopts memsz readn 4096 buf rng = Some (Inr (fs, rng'))"
    "unat readn div 4096 < 2 ^ 31" "file_size fs < 4096" "i < length (fs_offsets fs)"
    "unat (fs_offsets fs ! i) + 4096 < 2 ^ 64 - 1" "sum_list rs \<le> unat (file_size fs)"
  shows "fill_blocks (d 0 (- 1)) (buffer_storage fs) 4096 0 (unat readn div 4096) rng =
      ((fs_buffers fs, fs_offsets fs), rng')"
    "fs_offsets fs ! i = 0 \<or> file_size fs < fs_offsets fs ! i"
    "snd (stream_read (fs_stream fs) (fs_buffers fs ! i) (fs_offsets fs ! i) stop (map int rs)) = None"
proof -
  have n: "unat readn div unat (4096 :: u64) < 2 ^ 31" using assms(2) by simp
  note made = make_file_state_eq [OF assms(1) n]
  have "file_size fs div 4096 = 0"
    using assms(3) by (simp add: word_unat_eq_iff unat_div word_less_nat_alt)
  then show f: "fill_blocks (d 0 (- 1)) (buffer_storage fs) 4096 0 (unat readn div 4096) rng =
      ((fs_buffers fs, fs_offsets fs), rng')" using made(3) by simp
  note fill = fill_blocks_eq [OF f]
  have len: "length (fs_buffers fs) = length (fs_offsets fs)" using fill by simp
  from assms(4) have "fs_offsets fs ! i \<in> set (fs_offsets fs)" by simp
  with fill obtain r where "fs_offsets fs ! i = fst (d 0 (- 1) r) * 4096" by blast
  then have "unat (fs_offsets fs ! i) = unat (fst (d 0 (- 1) r)) * 4096 mod 2 ^ 64"
    by (simp add: unat_word_ariths)
  then have "unat (fs_offsets fs ! i) mod 4096 = unat (fst (d 0 (- 1) r)) * 4096 mod 4096"
    by (simp add: mod_mod_cancel)
  then have "unat (fs_offsets fs ! i) mod 4096 = 0" by simp
  then have "unat (fs_offsets fs ! i) = 0 \<or> 4096 \<le> unat (fs_offsets fs ! i)" by (metis mod_less not_le)
  then show "fs_offsets fs ! i = 0 \<or> file_size fs < fs_offsets fs ! i"
    using assms(3) by (auto simp: word_less_nat_alt unat_eq_zero)
  have "i < unat readn div 4096" using assms(4) fill by simp
  then have size: "mb_size (fs_buffers fs ! i) = 4096" using fill by (simp add: mb_make_def)
  then have "in_range (cb_make (mb_data (fs_buffers fs ! i)) 4096) (fs_offsets fs ! i)"
    using assms(5) by (simp add: in_range_def cb_make_def)
  moreover have "sum_list rs < unat (cb_size (cb_make (mb_data (fs_buffers fs ! i)) 4096))"
    using assms(3,6) by (simp add: cb_make_def word_less_nat_alt)
  ultimately show "snd (stream_read (fs_stream fs) (fs_buffers fs ! i) (fs_offsets fs ! i) stop (map int rs)) = None"
    unfolding stream_read_def size by (rule transfer_short)
qed

text \<open>Remark (batched_small_file). The number of blocks of a file of fewer bytes than a block is zero, so that the offsets are drawn from all
  numbers: each is zero or behind the end of the file. As the file never gives all bytes of a block, and
  an operation that transfers nothing is repeated, no read of it ever completes.\<close>

theorem batched_small_file:
  assumes "make_file_state sys d ctx fopts memsz readn 4096 buf rng = Some (Inr (fs, rng'))"
    "unat readn div 4096 < 2 ^ 31" "file_size fs < 4096" "i < length (fs_offsets fs)"
    "unat (fs_offsets fs ! i) + 4096 < 2 ^ 64 - 1" "sum_list rs \<le> unat (file_size fs)"
  shows "fill_blocks (d 0 (- 1)) (buffer_storage fs) 4096 0 (unat readn div 4096) rng =
      ((fs_buffers fs, fs_offsets fs), rng') \<and>
    (fs_offsets fs ! i = 0 \<or> file_size fs < fs_offsets fs ! i) \<and>
    snd (stream_read (fs_stream fs) (fs_buffers fs ! i) (fs_offsets fs ! i) stop (map int rs)) = None"
  using small_file [OF assms] by (intro conjI)

text \<open>A system with a file of 100 bytes.\<close>

definition small_system :: system where
  "small_system = some_system\<lparr>sys_fstat := \<lambda>_. Some \<lparr>st_kind = Regular_File, st_size = 100, st_blksize = 4096\<rparr>\<rparr>"

lemma small_file_eq:
  "make_file_state small_system (\<lambda>lo hi r. (lo, r)) () \<lparr>fo_path = ''x'', use_memfd = False\<rparr> 0 4096 4096 False () =
     Some (Inr (\<lparr>fs_fd = 3, fs_stream = \<lparr>h_context = Some (), h_fd = 3\<rparr>, file_size = 100,
       num_blocks = 0, buffer_storage = 8192, fs_buffers = [mb_make 8192 4096], fs_offsets = [0]\<rparr>, ()))"
proof -
  have "open_file_size small_system \<lparr>fo_path = ''x'', use_memfd = False\<rparr> 0 False = Some (Inr (3, 100))"
    by (simp add: open_file_size_def small_system_def some_system_def throw_if_def Let_def)
  moreover have "make_unique_aligned small_system 4096 4096 = Some (Inr 8192)"
    by (simp add: make_unique_aligned_def small_system_def some_system_def)
  ultimately show ?thesis
    by (simp add: make_file_state_def throw_if_def)
qed

theorem batched_small_file_witness:
  "snd (stream_read \<lparr>h_context = Some (), h_fd = 3\<rparr> (mb_make 8192 4096) 0 False (map int [100, 0, 0])) = None"
  using batched_small_file [OF small_file_eq, of 0 "[100, 0, 0]" False] by simp

end
