(* ===== verification/Batched_Run.thy ===== *)
theory Batched_Run
  imports Batched_Plan
begin

text \<open>
  \<^verbatim>\<open>examples/batched_reads.cpp\<close> while it runs: the threads of \<^verbatim>\<open>run_io_uring\<close>, and the thread of \<^verbatim>\<open>main\<close>, which reports until all others
  have completed, reports once more, and joins them. What a thread reads is in \<open>Batched_Reads\<close>; here it counts one
  operation at a time. Every atomic operation, and every section under the mutex of the counters, is one step.
\<close>

subsection \<open>States\<close>

text \<open>\<open>Read_Done\<close>: \<^verbatim>\<open>sync_wait\<close> has returned, and the thread has not counted its completion.\<close>

datatype thread_phase = Reading | Read_Done | Thread_Ended

text \<open>
  The main thread waits; loads the counters of a thread, its bytes and then its operations, from an index on; prints; joins. The flag says that the wait
  had found that all threads completed.
\<close>

datatype main_phase =
    Main_Waiting
  | Main_Bytes bool nat u64 u64
  | Main_Ops bool nat u64 u64
  | Main_Joining nat
  | Main_Returned
  | Main_Terminated

text \<open>\<open>read_log\<close> has the bytes of every operation that was counted, with its thread.\<close>

record run_state =
  thread_phases :: "thread_phase list"
  run_counters :: counters
  main_phase :: main_phase
  reports :: "(u64 \<times> u64 \<times> u64) list"
  read_log :: "(nat \<times> u64) list"

text \<open>The sender of a thread ends with a value, or stopped, which \<^verbatim>\<open>sync_wait\<close> returns, or an error, which it throws.\<close>

definition sync_wait_reads :: "(unit, 'e) signal \<Rightarrow> thread_phase option" where
  "sync_wait_reads sig =
     (case sig of
        Set_Value _ \<Rightarrow> Some Read_Done
      | Set_Stopped \<Rightarrow> Some Read_Done
      | Set_Error _ \<Rightarrow> None)"

definition print_report :: "program_options \<Rightarrow> u64 \<Rightarrow> u64 \<Rightarrow> run_state \<Rightarrow> run_state option" where
  "print_report o1 b n r = do {
     progress \<leftarrow> read_progress b o1;
     Some (r\<lparr>reports := reports r @ [(b, n, progress)]\<rparr>)
   }"

text \<open>One step of the loop of \<^verbatim>\<open>load_stats\<close>, or the report behind it.\<close>

definition load_bytes :: "program_options \<Rightarrow> bool \<Rightarrow> nat \<Rightarrow> u64 \<Rightarrow> u64 \<Rightarrow> run_state \<Rightarrow> run_state option" where
  "load_bytes o1 fin i b n r =
     (let bs = n_bytes_read (run_counters r)
      in if i < length bs then Some (r\<lparr>main_phase := Main_Ops fin i (b + bs ! i) n\<rparr>)
         else do {
           r1 \<leftarrow> print_report o1 b n r;
           Some (r1\<lparr>main_phase := (if fin then Main_Joining 0 else Main_Waiting)\<rparr>)
         })"

definition load_ops :: "bool \<Rightarrow> nat \<Rightarrow> u64 \<Rightarrow> u64 \<Rightarrow> run_state \<Rightarrow> run_state option" where
  "load_ops fin i b n r =
     (let ios = n_io_ops (run_counters r)
      in if i < length ios then Some (r\<lparr>main_phase := Main_Bytes fin (i + factor) b (n + ios ! i)\<rparr>) else None)"

definition main_join :: "nat \<Rightarrow> run_state \<Rightarrow> run_state" where
  "main_join i r =
     (if i < length (thread_phases r) then r\<lparr>main_phase := Main_Joining (i + 1)\<rparr> else r\<lparr>main_phase := Main_Returned\<rparr>)"

definition run_init :: "program_options \<Rightarrow> counters \<Rightarrow> run_state" where
  "run_init o1 c = \<lparr>thread_phases = replicate (nat (nthreads o1)) Reading, run_counters = c, main_phase = Main_Waiting,
     reports = [], read_log = []\<rparr>"

text \<open>
  An exception that leaves the function of a thread terminates the program. The wait of the main thread ends after a second, or when it is notified: then
  it looks at the number of completions.
\<close>

inductive run_step :: "program_options \<Rightarrow> run_state \<Rightarrow> run_state \<Rightarrow> bool" for o1 where
  reads: "main_phase r \<noteq> Main_Terminated \<Longrightarrow> i < length (thread_phases r) \<Longrightarrow> thread_phases r ! i = Reading \<Longrightarrow>
    notify_read n i (run_counters r) = Some c \<Longrightarrow>
    run_step o1 r (r\<lparr>run_counters := c, read_log := read_log r @ [(i, n)]\<rparr>)"
| ends: "main_phase r \<noteq> Main_Terminated \<Longrightarrow> i < length (thread_phases r) \<Longrightarrow> thread_phases r ! i = Reading \<Longrightarrow>
    sync_wait_reads (sig :: (unit, int) signal) = Some ph \<Longrightarrow>
    run_step o1 r (r\<lparr>thread_phases := (thread_phases r)[i := ph]\<rparr>)"
| throws: "main_phase r \<noteq> Main_Terminated \<Longrightarrow> i < length (thread_phases r) \<Longrightarrow> thread_phases r ! i = Reading \<Longrightarrow>
    sync_wait_reads (sig :: (unit, int) signal) = None \<Longrightarrow>
    run_step o1 r (r\<lparr>main_phase := Main_Terminated\<rparr>)"
| counts: "main_phase r \<noteq> Main_Terminated \<Longrightarrow> i < length (thread_phases r) \<Longrightarrow> thread_phases r ! i = Read_Done \<Longrightarrow>
    run_step o1 r (r\<lparr>run_counters := count_completion (run_counters r), thread_phases := (thread_phases r)[i := Thread_Ended]\<rparr>)"
| waits: "main_phase r = Main_Waiting \<Longrightarrow>
    run_step o1 r (r\<lparr>main_phase := Main_Bytes (all_completed o1 (run_counters r)) 0 0 0\<rparr>)"
| bytes: "main_phase r = Main_Bytes fin i b n \<Longrightarrow> load_bytes o1 fin i b n r = Some r' \<Longrightarrow> run_step o1 r r'"
| ops: "main_phase r = Main_Ops fin i b n \<Longrightarrow> load_ops fin i b n r = Some r' \<Longrightarrow> run_step o1 r r'"
| joins: "main_phase r = Main_Joining i \<Longrightarrow> (i < length (thread_phases r) \<longrightarrow> thread_phases r ! i = Thread_Ended) \<Longrightarrow>
    run_step o1 r (main_join i r)"

inductive run_reach :: "program_options \<Rightarrow> counters \<Rightarrow> run_state \<Rightarrow> bool" for o1 c where
  init: "run_reach o1 c (run_init o1 c)"
| step: "run_reach o1 c r \<Longrightarrow> run_step o1 r r' \<Longrightarrow> run_reach o1 c r'"

subsection \<open>An invariant\<close>

definition n_ended :: "thread_phase list \<Rightarrow> nat" where
  "n_ended ps = length (filter (\<lambda>ph. ph = Thread_Ended) ps)"

text \<open>The sums that the main thread has loaded so far, when nothing changes them any more.\<close>

definition bytes_upto :: "counters \<Rightarrow> nat \<Rightarrow> u64" where
  "bytes_upto c j = (\<Sum>t < j. n_bytes_read c ! (t * factor))"

definition ops_upto :: "counters \<Rightarrow> nat \<Rightarrow> u64" where
  "ops_upto c j = (\<Sum>t < j. n_io_ops c ! (t * factor))"

text \<open>\<open>k\<close> is the number of threads, \<open>B\<close> and \<open>N\<close> all bytes and operations that were counted.\<close>

fun main_ok :: "program_options \<Rightarrow> nat \<Rightarrow> u64 \<Rightarrow> u64 \<Rightarrow> run_state \<Rightarrow> main_phase \<Rightarrow> bool" where
  "main_ok o1 k B N r Main_Waiting \<longleftrightarrow> True"
| "main_ok o1 k B N r Main_Terminated \<longleftrightarrow> True"
| "main_ok o1 k B N r (Main_Bytes fin i b n) \<longleftrightarrow>
     (\<exists>j \<le> k. i = j * factor \<and> (fin \<longrightarrow> n_ended (thread_phases r) = k \<and>
        b = bytes_upto (run_counters r) j \<and> n = ops_upto (run_counters r) j))"
| "main_ok o1 k B N r (Main_Ops fin i b n) \<longleftrightarrow>
     (\<exists>j < k. i = j * factor \<and> (fin \<longrightarrow> n_ended (thread_phases r) = k \<and>
        b = bytes_upto (run_counters r) (Suc j) \<and> n = ops_upto (run_counters r) j))"
| "main_ok o1 k B N r (Main_Joining i) \<longleftrightarrow>
     i \<le> k \<and> n_ended (thread_phases r) = k \<and> reports r \<noteq> [] \<and> (\<exists>p. read_progress B o1 = Some p \<and> last (reports r) = (B, N, p))"
| "main_ok o1 k B N r Main_Returned \<longleftrightarrow>
     n_ended (thread_phases r) = k \<and> reports r \<noteq> [] \<and> (\<exists>p. read_progress B o1 = Some p \<and> last (reports r) = (B, N, p))"

definition log_bytes :: "run_state \<Rightarrow> u64" where
  "log_bytes r = sum_list (map snd (read_log r))"

definition run_ok :: "program_options \<Rightarrow> run_state \<Rightarrow> bool" where
  "run_ok o1 r \<longleftrightarrow>
     length (thread_phases r) = nat (nthreads o1) \<and>
     counted (nat (nthreads o1)) (log_bytes r) (of_nat (length (read_log r))) (run_counters r) \<and>
     n_completions (run_counters r) = int (n_ended (thread_phases r)) \<and>
     main_ok o1 (nat (nthreads o1)) (log_bytes r) (of_nat (length (read_log r))) r (main_phase r)"

lemma n_ended_le: "n_ended ps \<le> length ps"
  by (simp add: n_ended_def)

lemma n_ended_all: "n_ended ps = length ps \<Longrightarrow> i < length ps \<Longrightarrow> ps ! i = Thread_Ended"
proof -
  assume "n_ended ps = length ps" and i: "i < length ps"
  then have "\<forall>ph \<in> set ps. ph = Thread_Ended"
    unfolding n_ended_def by (metis (mono_tags, lifting) filter_True length_filter_less less_irrefl)
  with i nth_mem show ?thesis by blast
qed

lemma n_ended_update:
  "i < length ps \<Longrightarrow> ps ! i \<noteq> Thread_Ended \<Longrightarrow>
     n_ended (ps[i := ph]) = n_ended ps + (if ph = Thread_Ended then 1 else 0)"
proof (induction ps arbitrary: i)
  case (Cons p ps)
  then show ?case by (cases i) (auto simp: n_ended_def)
qed simp

text \<open>While a thread is not ended, the main thread cannot be in its last pass.\<close>

lemma main_ok_not_ended:
  assumes "main_ok o1 k B N r ph" "i < length (thread_phases r)" "thread_phases r ! i \<noteq> Thread_Ended"
    "length (thread_phases r) = k" "length (thread_phases r') = k"
  shows "main_ok o1 k B' N' r' ph"
proof -
  have "n_ended (thread_phases r) \<noteq> k" using n_ended_all [OF _ assms(2)] assms(3,4) by auto
  with assms show ?thesis by (cases ph) auto
qed

lemma bytes_upto_Suc: "bytes_upto c (Suc j) = bytes_upto c j + n_bytes_read c ! (j * factor)"
  by (simp add: bytes_upto_def)

lemma ops_upto_Suc: "ops_upto c (Suc j) = ops_upto c j + n_io_ops c ! (j * factor)"
  by (simp add: ops_upto_def)

lemma counted_upto: "counted k b n c \<Longrightarrow> bytes_upto c k = b \<and> ops_upto c k = n"
  by (simp add: counted_def bytes_upto_def ops_upto_def)

lemma n_ended_init: "n_ended (replicate k Reading) = 0"
  by (simp add: n_ended_def)

lemma run_init_ok:
  assumes "0 \<le> nthreads o1" "make_counters (nthreads o1) = Some (Inr c)" "int_range (nthreads o1 * int factor)"
  shows "run_ok o1 (run_init o1 c)"
  using counted_init [OF assms(1,3)] assms(2) by (auto simp: run_ok_def run_init_def log_bytes_def n_ended_init)

lemma run_step_ok:
  assumes "run_step o1 r r'" "run_ok o1 r" "0 \<le> nthreads o1"
  shows "run_ok o1 r'"
  using assms(1)
proof cases
  case (reads i n c)
  let ?k = "nat (nthreads o1)"
  have k: "length (thread_phases r) = ?k" and cnt: "counted ?k (log_bytes r) (of_nat (length (read_log r))) (run_counters r)"
    and main: "main_ok o1 ?k (log_bytes r) (of_nat (length (read_log r))) r (main_phase r)"
    using assms(2) by (simp_all add: run_ok_def)
  from counted_notify [OF cnt, of i n] reads k have c: "counted ?k (log_bytes r + n) (of_nat (length (read_log r)) + 1) c"
    "n_completions c = n_completions (run_counters r)" by auto
  with assms(2) main_ok_not_ended [OF main reads(3) _ k, of r'] reads k show ?thesis
    by (simp add: run_ok_def log_bytes_def add.commute)
next
  case (ends i sig ph)
  let ?k = "nat (nthreads o1)"
  have k: "length (thread_phases r) = ?k" and main: "main_ok o1 ?k (log_bytes r) (of_nat (length (read_log r))) r (main_phase r)"
    using assms(2) by (simp_all add: run_ok_def)
  have "ph = Read_Done" using ends(5) by (auto simp: sync_wait_reads_def split: signal.splits)
  with assms(2) main_ok_not_ended [OF main ends(3) _ k, of r'] ends k show ?thesis
    by (simp add: run_ok_def log_bytes_def n_ended_update)
next
  case (throws i sig)
  with assms(2) show ?thesis by (simp add: run_ok_def log_bytes_def)
next
  case (counts i)
  let ?k = "nat (nthreads o1)"
  have k: "length (thread_phases r) = ?k" and main: "main_ok o1 ?k (log_bytes r) (of_nat (length (read_log r))) r (main_phase r)"
    using assms(2) by (simp_all add: run_ok_def)
  with assms(2) main_ok_not_ended [OF main counts(3) _ k, of r'] counts k show ?thesis
    by (simp add: run_ok_def log_bytes_def n_ended_update count_completion_def counted_def)
next
  case waits
  with assms(2,3) show ?thesis
    by (auto simp: run_ok_def log_bytes_def all_completed_def bytes_upto_def ops_upto_def intro!: exI [of _ 0])
next
  case (bytes fin i b n)
  let ?k = "nat (nthreads o1)"
  have cnt: "counted ?k (log_bytes r) (of_nat (length (read_log r))) (run_counters r)" using assms(2) by (simp add: run_ok_def)
  from assms(2) bytes(1) obtain j where j: "j \<le> ?k" "i = j * factor" "fin \<longrightarrow> n_ended (thread_phases r) = ?k \<and>
      b = bytes_upto (run_counters r) j \<and> n = ops_upto (run_counters r) j" by (auto simp: run_ok_def)
  have len: "length (n_bytes_read (run_counters r)) = ?k * factor" using cnt by (simp add: counted_def)
  show ?thesis
  proof (cases "j < ?k")
    case True
    with len j(2) counter_index [OF True] bytes(2) have r': "r' = r\<lparr>main_phase := Main_Ops fin i (b + n_bytes_read (run_counters r) ! i) n\<rparr>"
      by (simp add: load_bytes_def)
    have "main_ok o1 ?k (log_bytes r) (of_nat (length (read_log r))) r' (main_phase r')"
      using True j by (auto simp: r' bytes_upto_Suc)
    with assms(2) show ?thesis by (simp add: run_ok_def r' log_bytes_def)
  next
    case False
    with j have jk: "j = ?k" by simp
    with len j(2) bytes(2) obtain p where p: "read_progress b o1 = Some p"
      "r' = r\<lparr>reports := reports r @ [(b, n, p)], main_phase := if fin then Main_Joining 0 else Main_Waiting\<rparr>"
      by (auto simp: load_bytes_def print_report_def bind_Some_iff)
    have "main_ok o1 ?k (log_bytes r) (of_nat (length (read_log r))) r' (main_phase r')"
      using j(3) jk counted_upto [OF cnt] p by auto
    with assms(2) show ?thesis by (simp add: run_ok_def p log_bytes_def)
  qed
next
  case (ops fin i b n)
  from assms(2) ops(1) obtain j where j: "j < nat (nthreads o1)" "i = j * factor" "fin \<longrightarrow> n_ended (thread_phases r) = nat (nthreads o1) \<and>
      b = bytes_upto (run_counters r) (Suc j) \<and> n = ops_upto (run_counters r) j" by (auto simp: run_ok_def)
  have r': "r' = r\<lparr>main_phase := Main_Bytes fin (i + factor) b (n + n_io_ops (run_counters r) ! i)\<rparr>"
    using ops(2) by (simp add: load_ops_def Let_def split: if_splits)
  have "main_ok o1 (nat (nthreads o1)) (log_bytes r) (of_nat (length (read_log r))) r' (main_phase r')"
    using j by (auto simp: r' ops_upto_Suc intro!: exI [of _ "Suc j"])
  with assms(2) show ?thesis by (simp add: run_ok_def r' log_bytes_def)
next
  case (joins i)
  with assms(2) show ?thesis by (auto simp: run_ok_def main_join_def log_bytes_def)
qed

lemma run_reach_ok:
  assumes "run_reach o1 c r" "0 \<le> nthreads o1" "make_counters (nthreads o1) = Some (Inr c)" "int_range (nthreads o1 * int factor)"
  shows "run_ok o1 r"
  using assms(1)
proof (induction rule: run_reach.induct)
  case init
  show ?case by (rule run_init_ok [OF assms(2-4)])
next
  case (step r r')
  then show ?case using run_step_ok assms(2) by blast
qed

subsection \<open>The report, and the end\<close>

text \<open>C32 (batched_run). When the program returns, all threads have ended, and the last line that it printed has the number of all bytes and of all
  operations that the threads counted, and the bytes in percent of the number of bytes of the options.\<close>

theorem batched_run_reports:
  assumes "run_reach o1 c r" "0 \<le> nthreads o1" "make_counters (nthreads o1) = Some (Inr c)" "int_range (nthreads o1 * int factor)"
    "main_phase r = Main_Returned"
  shows "(\<forall>ph \<in> set (thread_phases r). ph = Thread_Ended) \<and> reports r \<noteq> [] \<and>
    last (reports r) = (sum_list (map snd (read_log r)), of_nat (length (read_log r)),
      sum_list (map snd (read_log r)) * 100 div n_total_bytes o1)"
proof -
  have ok: "run_ok o1 r" by (rule run_reach_ok [OF assms(1-4)])
  with assms(5) have "n_ended (thread_phases r) = length (thread_phases r)" by (simp add: run_ok_def)
  then have "\<forall>ph \<in> set (thread_phases r). ph = Thread_Ended" by (metis in_set_conv_nth n_ended_all)
  with ok assms(5) show ?thesis by (auto simp: run_ok_def log_bytes_def read_progress_def split: if_splits)
qed

text \<open>What the main thread has left to do, when all other threads have ended.\<close>

fun main_rank :: "nat \<Rightarrow> nat \<Rightarrow> main_phase \<Rightarrow> nat" where
  "main_rank k n Main_Returned = 0"
| "main_rank k n Main_Terminated = 0"
| "main_rank k n (Main_Joining i) = k - i + 1"
| "main_rank k n (Main_Bytes fin i b m) = k + 2 + 2 * (n - i) + (if fin then 0 else 2 * n + 2)"
| "main_rank k n (Main_Ops fin i b m) = k + 1 + 2 * (n - i) + (if fin then 0 else 2 * n + 2)"
| "main_rank k n Main_Waiting = k + 2 * n + 3"

definition run_rank :: "run_state \<Rightarrow> nat" where
  "run_rank r = main_rank (length (thread_phases r)) (length (n_bytes_read (run_counters r))) (main_phase r)"

lemma ended_step_rank:
  assumes ok: "run_ok o1 r" and ended: "\<forall>ph \<in> set (thread_phases r). ph = Thread_Ended" and step: "run_step o1 r r'" and
    k: "0 \<le> nthreads o1"
  shows "thread_phases r' = thread_phases r \<and> run_rank r' < run_rank r"
  using step
proof cases
  case waits
  have "n_ended (thread_phases r) = length (thread_phases r)" using ended by (simp add: n_ended_def filter_True)
  with ok k have "all_completed o1 (run_counters r)" by (auto simp: run_ok_def all_completed_def)
  with waits show ?thesis by (simp add: run_rank_def)
next
  case (bytes fin i b n)
  with ok obtain j where j: "i = j * factor" "j \<le> length (thread_phases r)" by (auto simp: run_ok_def)
  show ?thesis
    using bytes factor_pos
    by (cases fin) (auto simp: load_bytes_def Let_def print_report_def bind_Some_iff run_rank_def split: if_splits)
next
  case (ops fin i b n)
  with ok have "length (n_io_ops (run_counters r)) = length (n_bytes_read (run_counters r))" by (simp add: run_ok_def counted_def)
  with ops factor_pos show ?thesis by (auto simp: load_ops_def Let_def run_rank_def split: if_splits)
next
  case (joins i)
  then show ?thesis by (auto simp: main_join_def run_rank_def)
qed (use ended in \<open>auto simp: all_set_conv_all_nth\<close>)


text \<open>A run with one thread that reads one block.\<close>

lemma one_thread_run:
  assumes "nthreads o1 = 1" "n_total_bytes o1 = 4096"
  shows "\<exists>c r. make_counters 1 = Some (Inr c) \<and> run_reach o1 c r \<and> main_phase r = Main_Returned \<and> read_log r = [(0, 4096)]"
proof -
  have f: "factor = 8" by (simp add: factor_def hardware_destructive_interference_size_def)
  let ?c = "\<lparr>n_completions = 0, n_bytes_read = replicate 8 0, n_io_ops = replicate 8 0\<rparr>"
  have c: "make_counters 1 = Some (Inr ?c)" by (simp add: make_counters_def int_range_def f)
  let ?bs = "(replicate 8 0)[0 := 4096] :: u64 list" and ?ios = "(replicate 8 0)[0 := 1] :: u64 list"
  let ?c1 = "\<lparr>n_completions = 0, n_bytes_read = ?bs, n_io_ops = ?ios\<rparr>" and ?c2 = "\<lparr>n_completions = 1, n_bytes_read = ?bs, n_io_ops = ?ios\<rparr>"
  let ?r = "\<lambda>ph c m rep. \<lparr>thread_phases = [ph], run_counters = c, main_phase = m, reports = rep, read_log = [(0, 4096)]\<rparr>"
  have init: "run_init o1 ?c = \<lparr>thread_phases = [Reading], run_counters = ?c, main_phase = Main_Waiting, reports = [], read_log = []\<rparr>"
    using assms(1) by (simp add: run_init_def)
  have "run_step o1 (run_init o1 ?c) (?r Reading ?c1 Main_Waiting [])"
    using run_step.reads [of "run_init o1 ?c" 0 4096 ?c1 o1] by (simp add: init notify_read_def fetch_add_at_def)
  note r1 = run_reach.step [OF run_reach.init this]
  have "run_step o1 (?r Reading ?c1 Main_Waiting []) (?r Read_Done ?c1 Main_Waiting [])"
    using run_step.ends [of "?r Reading ?c1 Main_Waiting []" 0 "Set_Value ()" Read_Done o1] by (simp add: sync_wait_reads_def)
  note r2 = run_reach.step [OF r1 this]
  have "run_step o1 (?r Read_Done ?c1 Main_Waiting []) (?r Thread_Ended ?c2 Main_Waiting [])"
    using run_step.counts [of "?r Read_Done ?c1 Main_Waiting []" 0 o1] by (simp add: count_completion_def)
  note r3 = run_reach.step [OF r2 this]
  have "run_step o1 (?r Thread_Ended ?c2 Main_Waiting []) (?r Thread_Ended ?c2 (Main_Bytes True 0 0 0) [])"
    using run_step.waits [of "?r Thread_Ended ?c2 Main_Waiting []" o1] assms(1) by (simp add: all_completed_def)
  note r4 = run_reach.step [OF r3 this]
  have "run_step o1 (?r Thread_Ended ?c2 (Main_Bytes True 0 0 0) []) (?r Thread_Ended ?c2 (Main_Ops True 0 4096 0) [])"
    by (rule run_step.bytes [of _ True 0 0 0]) (simp_all add: load_bytes_def)
  note r5 = run_reach.step [OF r4 this]
  have "run_step o1 (?r Thread_Ended ?c2 (Main_Ops True 0 4096 0) []) (?r Thread_Ended ?c2 (Main_Bytes True 8 4096 1) [])"
    by (rule run_step.ops [of _ True 0 4096 0]) (simp_all add: load_ops_def f)
  note r6 = run_reach.step [OF r5 this]
  have "run_step o1 (?r Thread_Ended ?c2 (Main_Bytes True 8 4096 1) []) (?r Thread_Ended ?c2 (Main_Joining 0) [(4096, 1, 100)])"
    by (rule run_step.bytes [of _ True 8 4096 1]) (simp_all add: load_bytes_def print_report_def read_progress_def assms(2))
  note r7 = run_reach.step [OF r6 this]
  have "run_step o1 (?r Thread_Ended ?c2 (Main_Joining 0) [(4096, 1, 100)]) (?r Thread_Ended ?c2 (Main_Joining 1) [(4096, 1, 100)])"
    using run_step.joins [of "?r Thread_Ended ?c2 (Main_Joining 0) [(4096, 1, 100)]" 0 o1] by (simp add: main_join_def)
  note r8 = run_reach.step [OF r7 this]
  have "run_step o1 (?r Thread_Ended ?c2 (Main_Joining 1) [(4096, 1, 100)]) (?r Thread_Ended ?c2 Main_Returned [(4096, 1, 100)])"
    using run_step.joins [of "?r Thread_Ended ?c2 (Main_Joining 1) [(4096, 1, 100)]" 1 o1] by (simp add: main_join_def)
  from run_reach.step [OF r8 this] c show ?thesis by (intro exI conjI) (assumption | simp)+
qed

definition one_thread_options :: program_options where
  "one_thread_options = default_options\<lparr>nthreads := 1, n_total_bytes := 4096\<rparr>"

theorem batched_run_reports_witness:
  "\<exists>c r. run_reach one_thread_options c r \<and> last (reports r) = (4096, 1, 100)"
proof -
  have o1: "nthreads one_thread_options = 1" "n_total_bytes one_thread_options = 4096" by (simp_all add: one_thread_options_def)
  from one_thread_run [OF this] obtain c r where r: "make_counters 1 = Some (Inr c)" "run_reach one_thread_options c r"
    "main_phase r = Main_Returned" "read_log r = [(0, 4096)]" by blast
  have "last (reports r) = (4096, 1, 100)"
    using batched_run_reports [OF r(2) _ _ _ r(3)] r(1,4) by (simp add: o1 int_range_def factor_def hardware_destructive_interference_size_def)
  with r(2) show ?thesis by blast
qed


end
