(* ===== verification/Batched_Threads.thy ===== *)
theory Batched_Threads
  imports Batched_Reads Batched_Run
begin

text \<open>
  The function \<^verbatim>\<open>run_io_uring\<close> of \<^verbatim>\<open>examples/batched_reads.cpp\<close>, which every thread runs: it makes the state of the thread, reads all files of
  the thread, and counts its completion.

  The files are forked, as their rows are. All items run on the one thread of the context, and their counting commutes, so that the files
  are read one after the other here. What another thread counts in between is in \<open>Batched_Run\<close>.
\<close>

subsection \<open>A thread\<close>

text \<open>For every file: the items of its buffers and offsets in the order in which they arrive, and the results of each row.\<close>

type_synonym 'i file_events = "(nat \<times> 'i \<times> batch_value) list \<times> int list list"

fun read_files ::
  "bool \<Rightarrow> nat \<Rightarrow> ('c file_state \<times> 'i file_events) list \<Rightarrow> counters \<Rightarrow> (transfer list list \<times> counters) option" where
  "read_files stop thread_id [] c = Some ([], c)"
| "read_files stop thread_id ((file, as, results) # rest) c = do {
     (ts, c1) \<leftarrow> read_batched (fs_stream file) stop thread_id as results c;
     (tss, c2) \<leftarrow> read_files stop thread_id rest c1;
     Some (ts # tss, c2)
   }"

text \<open>The signal of all reads together: the first error, or else that one was stopped; there is none while a read has not completed.\<close>

fun reads_signal :: "transfer list \<Rightarrow> (unit, (int + unit) + unit) signal option" where
  "reads_signal [] = Some (Set_Value ())"
| "reads_signal (t # ts) = do {
     sig \<leftarrow> snd t;
     rest \<leftarrow> reads_signal ts;
     Some (case sig of
       Set_Value _ \<Rightarrow> rest
     | Set_Error e \<Rightarrow> Set_Error e
     | Set_Stopped \<Rightarrow> (case rest of Set_Error e \<Rightarrow> Set_Error e | _ \<Rightarrow> Set_Stopped))
   }"

text \<open>
  \<open>mt19937\<close> makes a random number generator from a seed, of 64 bits here; \<open>events\<close> has the events of each file of the state. The
  function ends with an exception of making the state or one of the reads, or it counts its completion. \<open>None\<close>: it does not return.
\<close>

type_synonym thread_exception = "std_error + ((int + unit) + unit)"

definition run_io_uring ::
  "system \<Rightarrow> (u64 \<Rightarrow> u64) \<Rightarrow> (u64 \<Rightarrow> u64 \<Rightarrow> 'r \<Rightarrow> u64 \<times> 'r) \<Rightarrow> 'c \<Rightarrow> (u64 \<Rightarrow> 'r) \<Rightarrow> nat \<Rightarrow> program_options \<Rightarrow> file_options list \<Rightarrow> u64 \<Rightarrow>
     bool \<Rightarrow> 'i file_events list \<Rightarrow> counters \<Rightarrow> (thread_exception + transfer list list \<times> counters) option" where
  "run_io_uring sys vector_data off_dist ctx mt19937 thread_id o1 files n_bytes_per_thread stop events c = do {
     let rng = mt19937 (ucast (seed o1 + of_nat thread_id));
     made \<leftarrow> make_thread_state sys vector_data off_dist ctx files (memsize o1) (submission_queue_length o1) n_bytes_per_thread
       (word_of_int (block_size o1)) (buffered o1) rng;
     (case made of
        Inl e \<Rightarrow> Some (Inl (Inl e))
      | Inr (state, _) \<Rightarrow> do {
          (tss, c1) \<leftarrow> read_files stop thread_id (zip (ts_files state) events) c;
          sig \<leftarrow> reads_signal (concat tss);
          Some (case sig of
            Set_Error e \<Rightarrow> Inl (Inr e)
          | _ \<Rightarrow> Inr (tss, count_completion c1))
        })
   }"

subsection \<open>All files\<close>

text \<open>The items of a file arrive in some order, and every operation of a block transfers a part of it that is not empty.\<close>

definition items_of_file :: "'c file_state \<Rightarrow> (nat \<times> 'i \<times> batch_value) list \<Rightarrow> bool" where
  "items_of_file f as \<longleftrightarrow> (\<forall>(i, p, v) \<in> set as. i < 2) \<and> distinct (map (\<lambda>(i, p, v). p) as) \<and>
     history as 0 = map Buffer_Value (fs_buffers f) \<and> history as 1 = map Offset_Value (fs_offsets f)"

definition whole_blocks :: "nat \<Rightarrow> u64 \<Rightarrow> nat list list \<Rightarrow> bool" where
  "whole_blocks n block rss \<longleftrightarrow> length rss = n \<and> (\<forall>rs \<in> set rss. rs \<noteq> [] \<and> (\<forall>r \<in> set rs. r > 0) \<and> sum_list rs = unat block)"

text \<open>A read of a block of the file: into its own part of the storage, from inside the file, and complete.\<close>

definition block_read :: "u64 \<Rightarrow> 'c file_state \<Rightarrow> nat \<Rightarrow> transfer \<Rightarrow> bool" where
  "block_read block f i t \<longleftrightarrow> snd t = Some (Set_Value block) \<and>
     (\<forall>q \<in> set (fst t). reads_inside (fs_fd f) (unat (buffer_storage f) + i * unat block)
        (unat (buffer_storage f) + (i + 1) * unat block) 0 (unat (file_size f)) q)"

lemma reads_signal_values: "\<forall>t \<in> set ts. \<exists>n. snd t = Some (Set_Value n) \<Longrightarrow> reads_signal ts = Some (Set_Value ())"
  by (induction ts) auto

lemma make_files_made:
  "make_files mk fs rng = Some (Inr (ss, rng')) \<Longrightarrow>
     length ss = length fs \<and> (\<forall>s \<in> set ss. \<exists>f r r'. mk f r = Some (Inr (s, r')))"
proof (induction fs arbitrary: rng ss rng')
  case (Cons f fs)
  from Cons.prems obtain s r1 where s: "mk f rng = Some (Inr (s, r1))"
    by (auto simp: then_result_def split: option.splits sum.splits)
  with Cons.prems obtain ss1 r2 where ss: "make_files mk fs r1 = Some (Inr (ss1, r2))" "ss = s # ss1"
    by (auto simp: then_result_def split: option.splits sum.splits)
  with Cons.IH [OF ss(1)] s show ?case by auto
qed simp

lemma read_files_whole:
  fixes ios :: "((nat \<times> 'i \<times> batch_value) list \<times> nat list list) list"
  assumes "\<forall>f \<in> set files. \<exists>o1 r r'. make_file_state sys d ctx o1 memsz n block buf r = Some (Inr (f, r'))"
    "unat n div unat block < 2 ^ 31" "\<forall>f \<in> set files. block \<le> file_size f \<and> unat (file_size f) < 2 ^ 63"
    "dist_law d" "memalign_law sys" "length ios = length files"
    "\<forall>j < length files. items_of_file (files ! j) (fst (ios ! j)) \<and> whole_blocks (unat n div unat block) block (snd (ios ! j))"
    "counted k b m c" "t < k"
  shows "\<exists>tss c'. read_files stop t (zip files (map (apsnd (map (map int))) ios)) c = Some (tss, c') \<and>
    length tss = length files \<and>
    (\<forall>j < length files. length (tss ! j) = unat n div unat block \<and> (\<forall>i < unat n div unat block. block_read block (files ! j) i (tss ! j ! i))) \<and>
    counted k (b + of_nat (length files) * (of_nat (unat n div unat block) * block))
      (m + of_nat (sum_list (map (\<lambda>(as, rss). sum_list (map length rss)) ios))) c'"
  using assms(1,3,6-8)
proof (induction files arbitrary: ios b m c)
  case (Cons f files)
  let ?n = "unat n div unat block"
  obtain as rss ios' where ios: "ios = (as, rss) # ios'" "length ios' = length files"
    using Cons.prems(3) by (cases ios) auto
  obtain o1 r r' where made: "make_file_state sys d ctx o1 memsz n block buf r = Some (Inr (f, r'))" using Cons.prems(1) by auto
  have f: "items_of_file f as" "whole_blocks ?n block rss" using Cons.prems(4) ios by auto
  have sz: "block \<le> file_size f" "unat (file_size f) < 2 ^ 63" using Cons.prems(2) by auto
  have rss: "length rss = ?n" "\<forall>rs \<in> set rss. rs \<noteq> [] \<and> (\<forall>r \<in> set rs. r > 0) \<and> sum_list rs = unat block"
    using f(2) by (simp_all add: whole_blocks_def)
  have as: "\<forall>(i, p, v) \<in> set as. i < 2" "distinct (map (\<lambda>(i, p, v). p) as)"
    "history as 0 = map Buffer_Value (fs_buffers f)" "history as 1 = map Offset_Value (fs_offsets f)"
    using f(1) by (simp_all add: items_of_file_def)
  obtain ts c1 where ts: "read_batched (fs_stream f) stop t as (map (map int) rss) c = Some (ts, c1)" "length ts = ?n"
    "\<forall>i < ?n. block_read block f i (ts ! i)" "counted k (b + of_nat ?n * block) (m + of_nat (sum_list (map length rss))) c1"
    using batched_file_reads [OF made assms(2) sz assms(4,5) as rss Cons.prems(5) assms(9), of stop] rss(1)
    unfolding block_read_def by auto
  have "\<forall>j < length files. items_of_file (files ! j) (fst (ios' ! j)) \<and> whole_blocks ?n block (snd (ios' ! j))"
  proof (intro allI impI)
    fix j assume "j < length files"
    with Cons.prems(4) [rule_format, of "Suc j"] ios
    show "items_of_file (files ! j) (fst (ios' ! j)) \<and> whole_blocks ?n block (snd (ios' ! j))" by simp
  qed
  from Cons.IH [OF _ _ ios(2) this ts(4)] Cons.prems(1,2) obtain tss c' where
    tss: "read_files stop t (zip files (map (apsnd (map (map int))) ios')) c1 = Some (tss, c')" "length tss = length files"
    "\<forall>j < length files. length (tss ! j) = ?n \<and> (\<forall>i < ?n. block_read block (files ! j) i (tss ! j ! i))"
    "counted k (b + of_nat ?n * block + of_nat (length files) * (of_nat ?n * block))
      (m + of_nat (sum_list (map length rss)) + of_nat (sum_list (map (\<lambda>(as, rss). sum_list (map length rss)) ios'))) c'"
    by auto
  have "read_files stop t (zip (f # files) (map (apsnd (map (map int))) ios)) c = Some (ts # tss, c')"
    using ts(1) tss(1) ios(1) by simp
  moreover have "\<forall>j < length (f # files). length ((ts # tss) ! j) = ?n \<and>
      (\<forall>i < ?n. block_read block ((f # files) ! j) i ((ts # tss) ! j ! i))"
    using ts(2,3) tss(3) by (auto simp: nth_Cons split: nat.splits)
  moreover have "counted k (b + of_nat (length (f # files)) * (of_nat ?n * block))
      (m + of_nat (sum_list (map (\<lambda>(as, rss). sum_list (map length rss)) ios))) c'"
    using tss(4) ios(1) by (simp add: algebra_simps)
  ultimately show ?case using tss(2) by (metis length_Cons)
qed simp

lemma thread_state_files:
  assumes "make_thread_state sys vd d ctx fs memsz depth readn block buf rng = Some (Inr (st, rng'))"
    "file_bytes (length fs) readn block = Some n"
  shows "length (ts_files st) = length fs \<and>
    (\<forall>s \<in> set (ts_files st). \<exists>f r r'. make_file_state sys d ctx f memsz n block buf r = Some (Inr (s, r')))"
proof -
  obtain ss r1 where "make_files (\<lambda>f. make_file_state sys d ctx f memsz n block buf) fs rng = Some (Inr (ss, r1))" "ts_files st = ss"
    using assms by (auto simp: make_thread_state_def Let_def then_result_def split: option.splits sum.splits)
  with make_files_made [of _ fs rng ss r1] show ?thesis by auto
qed

text \<open>Reading does not touch the number of completions.\<close>

lemma notify_completions: "notify_all es c = Some c' \<Longrightarrow> n_completions c' = n_completions c"
proof (induction es arbitrary: c)
  case (Cons e es)
  then show ?case by (cases e) (auto simp: bind_Some_iff notify_read_def)
qed simp

lemma rows_completions: "read_rows h stop t rows c = Some (ts, c') \<Longrightarrow> n_completions c' = n_completions c"
proof (induction rows arbitrary: c ts)
  case (Cons r rows)
  obtain b x results where "r = ((b, x), results)" by (cases r) auto
  with Cons show ?case
    by (fastforce simp: bind_Some_iff read_with_counter_def Let_def case_prod_unfold dest: notify_completions)
qed simp

lemma files_completions: "read_files stop t fs c = Some (tss, c') \<Longrightarrow> n_completions c' = n_completions c"
proof (induction fs arbitrary: c tss)
  case (Cons f fs)
  obtain fl as results where "f = (fl, as, results)" by (metis prod_cases3)
  with Cons show ?case by (fastforce simp: bind_Some_iff read_batched_def dest: rows_completions)
qed simp

lemma share_blocks:
  assumes "file_bytes k bytes 4096 = Some n"
  shows "of_nat (unat n div 4096) * 4096 = n"
proof -
  have "unat n mod 4096 = 0" using assms add_to_block_aligned by (auto simp: file_bytes_def split: if_splits)
  then have "unat n div 4096 * 4096 = unat n" by (simp add: mod_eq_0_iff_dvd)
  then have "(of_nat (unat n div 4096 * 4096) :: u64) = n" by simp
  then show ?thesis by simp
qed


text \<open>A thread with one file, of which it reads two blocks.\<close>

definition one_file_options :: program_options where
  "one_file_options = default_options\<lparr>memsize := 0, po_files := [\<lparr>fo_path = ''x'', use_memfd = False\<rparr>]\<rparr>"

definition two_block_events :: "(nat \<times> nat \<times> batch_value) list" where
  "two_block_events = [(0, 1, Buffer_Value (mb_make 8192 4096)), (1, 2, Offset_Value 8192), (1, 3, Offset_Value 8192),
     (0, 4, Buffer_Value (mb_make 12288 4096))]"

lemma one_file_state:
  "\<exists>st. make_thread_state some_system (\<lambda>_. 65536) greatest () (po_files one_file_options) (memsize one_file_options)
      (submission_queue_length one_file_options) 4096 4096 (buffered one_file_options) () = Some (Inr (st, ())) \<and>
    ts_files st = [\<lparr>fs_fd = 3, fs_stream = \<lparr>h_context = Some (), h_fd = 3\<rparr>, file_size = 12288, num_blocks = 3,
      buffer_storage = 8192, fs_buffers = [mb_make 8192 4096, mb_make 12288 4096], fs_offsets = [8192, 8192]\<rparr>]"
  using some_file_eq
  by (simp add: some_file_def make_thread_state_def one_file_options_def default_options_def file_bytes_def add_to_block_def Let_def)


end
