(* ===== verification/Echo.thy ===== *)
theory Echo
  imports Io_Uring_Correct Io_Uring_Socket
begin

text \<open>
  \<^verbatim>\<open>examples/echo_standard_input.cpp\<close> and \<^verbatim>\<open>examples/tcp_echo_server.cpp\<close>: programs that read a chunk and
  write it back, until a read gives no bytes.

  What the system does is an argument: \<open>rd off len d\<close> are the bytes that a read of \<open>len\<close> bytes at offset
  \<open>off\<close> gives in the state \<open>d\<close> of the input, or the number of an error, and \<open>parts n\<close> are the results of
  the writes of \<open>n\<close> bytes. A coroutine that is still waiting has no end (\<open>None\<close>).
\<close>

type_synonym 'd reader = "u64 \<Rightarrow> nat \<Rightarrow> 'd \<Rightarrow> (int + u8 list) \<times> 'd"

datatype echo_end = Echo_Done | Echo_Short_Write | Echo_Stopped | Echo_Error "(int + unit) + unit"

subsection \<open>Chunks\<close>

text \<open>A read of a whole buffer of \<open>n\<close> bytes at \<open>base\<close>.\<close>

definition read_chunk ::
  "'d reader \<Rightarrow> 'c native_fd_handle \<Rightarrow> u64 \<Rightarrow> size_t \<Rightarrow> 'd \<Rightarrow> ((int + u8 list) \<times> 'd) option" where
  "read_chunk rd h base n d = do {
     s \<leftarrow> read_some h (mb_make base n);
     let q = read_sender_submit s in Some (rd (sqe_off q) (unat (sqe_len q)) d)
   }"

text \<open>The bytes that are written when the memory at \<open>base\<close> holds \<open>bytes\<close>.\<close>

definition written_bytes :: "u64 \<Rightarrow> u8 list \<Rightarrow> sqe list \<Rightarrow> int list \<Rightarrow> u8 list" where
  "written_bytes base bytes qs rs =
     concat (map (\<lambda>(q, r). take (nat r) (drop (unat (sqe_addr q - base)) bytes)) (zip qs rs))"

text \<open>A write of the prefix of the buffer that holds the bytes.\<close>

definition write_chunk ::
  "(nat \<Rightarrow> int list) \<Rightarrow> 'c native_fd_handle \<Rightarrow> u64 \<Rightarrow> size_t \<Rightarrow> u8 list \<Rightarrow>
     u8 list \<times> (u64, (int + unit) + unit) signal option" where
  "write_chunk parts h base n bytes =
     (let (qs, sig) = stream_write h (cb_prefix (cb_make base n) (of_nat (length bytes))) (- 1) False (parts (length bytes))
      in (written_bytes base bytes qs (parts (length bytes)), sig))"

subsection \<open>Echoing the standard input\<close>

fun echo_run ::
  "'d reader \<Rightarrow> (nat \<Rightarrow> int list) \<Rightarrow> 'c native_fd_handle \<Rightarrow> 'c native_fd_handle \<Rightarrow> u64 \<Rightarrow> nat \<Rightarrow> 'd \<Rightarrow>
     (u8 list \<times> 'd \<times> echo_end option) option" where
  "echo_run rd parts hin hout base 0 d = Some ([], d, None)"
| "echo_run rd parts hin hout base (Suc fuel) d = do {
     (res, d1) \<leftarrow> read_chunk rd hin base 64 d;
     case res of
       Inl e \<Rightarrow> Some ([], d1, Some (Echo_Error (Inl (Inl e))))
     | Inr bytes \<Rightarrow>
         if bytes = [] then Some ([], d1, Some Echo_Done)
         else let (out, sig) = write_chunk parts hout base 64 bytes
              in case sig of
                   None \<Rightarrow> Some (out, d1, None)
                 | Some (Set_Error e) \<Rightarrow> Some (out, d1, Some (Echo_Error e))
                 | Some Set_Stopped \<Rightarrow> Some (out, d1, Some Echo_Stopped)
                 | Some (Set_Value m) \<Rightarrow>
                     if m \<noteq> of_nat (length bytes) then Some (out, d1, Some Echo_Short_Write)
                     else do {
                       (rest, d2, end) \<leftarrow> echo_run rd parts hin hout base fuel d1;
                       Some (out @ rest, d2, end)
                     }
   }"

text \<open>
  The coroutine \<^verbatim>\<open>write_all\<close>: a loop of \<^verbatim>\<open>write_some\<close>. A result that is larger than what is left is undefined.
\<close>

fun write_all :: "'c native_fd_handle \<Rightarrow> int list \<Rightarrow> const_buffer \<Rightarrow> (sqe list \<times> echo_end option) option" where
  "write_all h results b =
     (if cb_empty b then Some ([], Some Echo_Done)
      else case results of
        [] \<Rightarrow> Some ([], None)
      | r # rs \<Rightarrow> do {
          w \<leftarrow> write_some h b;
          case io_complete r of
            Set_Error e \<Rightarrow> Some ([write_sender_submit w], Some (Echo_Error (Inl (Inl e))))
          | Set_Stopped \<Rightarrow> Some ([write_sender_submit w], Some Echo_Stopped)
          | Set_Value n \<Rightarrow>
              if n > cb_size b then None
              else do {
                (qs, end) \<leftarrow> write_all h rs (cb_make (cb_data b + n) (cb_size b - n));
                Some (write_sender_submit w # qs, end)
              }
        })"

declare write_all.simps [simp del]

subsection \<open>Echoing a connection\<close>

text \<open>
  One effect of \<^verbatim>\<open>echo_input\<close> is a read and a write; the effect is repeated until no byte was read, or written.
\<close>

fun echo_input ::
  "'d reader \<Rightarrow> (nat \<Rightarrow> int list) \<Rightarrow> 'c native_fd_handle \<Rightarrow> u64 \<Rightarrow> nat \<Rightarrow> 'd \<Rightarrow>
     (u8 list \<times> 'd \<times> echo_end option) option" where
  "echo_input rd parts socket base 0 d = Some ([], d, None)"
| "echo_input rd parts socket base (Suc fuel) d = do {
     (res, d1) \<leftarrow> read_chunk rd socket base 1024 d;
     case res of
       Inl e \<Rightarrow> Some ([], d1, Some (Echo_Error (Inl (Inl e))))
     | Inr bytes \<Rightarrow>
         let (out, sig) = (if bytes \<noteq> [] then write_chunk parts socket base 1024 bytes else ([], Some (Set_Value 0)))
         in case sig of
              None \<Rightarrow> Some (out, d1, None)
            | Some (Set_Error e) \<Rightarrow> Some (out, d1, Some (Echo_Error e))
            | Some Set_Stopped \<Rightarrow> Some (out, d1, Some Echo_Stopped)
            | Some (Set_Value m) \<Rightarrow>
                if m = 0 then Some (out, d1, Some Echo_Done)
                else do {
                  (rest, d2, end) \<leftarrow> echo_input rd parts socket base fuel d1;
                  Some (out @ rest, d2, end)
                }
   }"

text \<open>\<^verbatim>\<open>exec::finally\<close> closes the connection when the echo has ended, however it ended.\<close>

definition echo_connection ::
  "'d reader \<Rightarrow> (nat \<Rightarrow> int list) \<Rightarrow> 'c native_fd_handle \<Rightarrow> u64 \<Rightarrow> nat \<Rightarrow> 'd \<Rightarrow>
     (u8 list \<times> sqe list \<times> echo_end option) option" where
  "echo_connection rd parts socket base fuel d = do {
     (out, d1, end) \<leftarrow> echo_input rd parts socket base fuel d;
     Some (out, if end = None then [] else [close_submit (fst (handle_close socket))], end)
   }"

subsection \<open>Sources\<close>

text \<open>A pipe or a connection ignores the offset, and gives the next bytes, some unless it has ended.\<close>

definition stream_source :: "'d reader \<Rightarrow> ('d \<Rightarrow> u8 list) \<Rightarrow> bool" where
  "stream_source rd rest \<longleftrightarrow> (\<forall>off len d. 0 < len \<longrightarrow>
     (\<exists>bytes d'. rd off len d = (Inr bytes, d') \<and> rest d = bytes @ rest d' \<and> length bytes \<le> len \<and>
        (bytes = [] \<longrightarrow> rest d = [])))"

text \<open>A regular file gives the bytes behind the offset, and does not move when it is read at one.\<close>

definition file_source :: "'d reader \<Rightarrow> ('d \<Rightarrow> u8 list) \<Rightarrow> bool" where
  "file_source rd content \<longleftrightarrow> (\<forall>off len d. off \<noteq> - 1 \<longrightarrow>
     rd off len d = (Inr (take len (drop (unat off) (content d))), d))"

text \<open>A system that writes some bytes in each operation, and in the end all.\<close>

definition writes_all :: "(nat \<Rightarrow> int list) \<Rightarrow> bool" where
  "writes_all parts \<longleftrightarrow> (\<forall>n > 0. \<exists>rs. parts n = map int rs \<and> rs \<noteq> [] \<and> (\<forall>r \<in> set rs. r > 0) \<and> sum_list rs = n)"

lemma concat_parts:
  "concat (map (\<lambda>k. take (rs ! k) (drop (sum_list (take k rs)) bytes)) [0..<length rs]) = take (sum_list rs) bytes"
proof (induction rs arbitrary: bytes)
  case (Cons r rs)
  have up: "[0..<length (r # rs)] = 0 # map Suc [0..<length rs]"
    by (simp add: map_Suc_upt upt_conv_Cons del: upt_Suc)
  from Cons.IH [of "drop r bytes"] show ?case
    unfolding up by (simp add: comp_def add.commute [of r]) (metis add.commute take_add)
qed simp

lemma write_chunk_all:
  assumes "writes_all parts" "bytes \<noteq> []" "length bytes \<le> unat n"
  shows "write_chunk parts h base n bytes = (bytes, Some (Set_Value (of_nat (length bytes))))"
proof -
  have len: "unat (of_nat (length bytes) :: u64) = length bytes"
    using assms(3) unat_less64 [of n] by (simp add: unat_of_nat)
  obtain rs where rs: "parts (length bytes) = map int rs" "rs \<noteq> []" "\<forall>r \<in> set rs. r > 0" "sum_list rs = length bytes"
    using assms(1,2) unfolding writes_all_def by (metis length_greater_0_conv)
  let ?data = "cb_prefix (cb_make base n) (of_nat (length bytes))"
  have data: "?data = cb_make base (of_nat (length bytes))"
  proof (cases "n \<le> of_nat (length bytes)")
    case True
    moreover have "of_nat (length bytes) \<le> n" unfolding word_le_nat_alt len by (rule assms(3))
    ultimately have "n = of_nat (length bytes)" by (rule antisym)
    then show ?thesis by (simp add: cb_prefix_def cb_make_def)
  qed (simp add: cb_prefix_def cb_make_def)
  have range: "in_range ?data (- 1)" by (simp add: in_range_def)
  have sum: "sum_list rs = unat (cb_size ?data)" using rs(4) len unfolding data by (simp add: cb_make_def)
  define q where "q k = write_submit_single (s_buffer (span_after ?data (- 1) (sum_list (take k rs)))) (h_fd h)
      (s_offset (span_after ?data (- 1) (sum_list (take k rs))))" for k
  have sent: "stream_write h ?data (- 1) False (map int rs) =
      (map q [0..<length rs], Some (Set_Value (of_nat (length bytes))))"
    using transfer_all [OF range rs(2,3) sum, of "\<lambda>s. write_submit_single (s_buffer s) (h_fd h) (s_offset s)" False]
    unfolding stream_write_def q_def data by (simp add: cb_make_def)
  have addr: "unat (sqe_addr (q k) - base) = sum_list (take k rs)" for k
  proof -
    have "sum_list (take k rs) + sum_list (drop k rs) = sum_list rs"
      by (metis append_take_drop_id sum_list_append)
    then have "sum_list (take k rs) < 2 ^ 64" using rs(4) assms(3) unat_less64 [of n] by linarith
    then show ?thesis
      unfolding q_def data by (simp add: span_after_def cb_make_def write_submit_single_def unat_of_nat)
  qed
  have "zip (map q [0..<length rs]) (map int rs) = map (\<lambda>k. (q k, int (rs ! k))) [0..<length rs]"
    by (rule nth_equalityI) simp_all
  then have "written_bytes base bytes (map q [0..<length rs]) (map int rs) = bytes"
    using concat_parts [of rs bytes] rs(4) by (simp add: written_bytes_def addr comp_def)
  with rs(1) sent show ?thesis by (simp add: write_chunk_def)
qed

lemma read_chunk_submits:
  assumes "h_context h = Some c" "unat n < 2 ^ 32"
  shows "read_chunk rd h base n d = Some (rd 0 (unat n) d)"
  using assms
  by (simp add: read_chunk_def read_some_def io_sender_of_def read_sender_submit_def read_submit_single_def
      mb_make_def sqe_zero_def unsigned_ucast_eq take_bit_eq_mod)

text \<open>C34 (echo_copies). With an input that is a pipe, and a system that writes everything in the end, the program writes exactly
  the bytes of the input and returns: as many rounds as there are bytes, and one more, are enough.\<close>

theorem echo_copies:
  assumes "stream_source rd rest" "writes_all parts" "h_context hin = Some c" "length (rest d) < fuel"
  shows "\<exists>d'. echo_run rd parts hin hout base fuel d = Some (rest d, d', Some Echo_Done)"
  using assms(4)
proof (induction fuel arbitrary: d)
  case (Suc fuel)
  obtain bytes d1 where r: "rd 0 64 d = (Inr bytes, d1)" "rest d = bytes @ rest d1" "length bytes \<le> 64"
    "bytes = [] \<longrightarrow> rest d = []"
    using assms(1) unfolding stream_source_def by (metis zero_less_numeral)
  have read: "read_chunk rd hin base 64 d = Some (Inr bytes, d1)"
    using read_chunk_submits [OF assms(3), of 64 rd base d] r(1) by simp
  show ?case
  proof (cases "bytes = []")
    case False
    then have "length (rest d1) < fuel" using Suc.prems r(2) by (cases bytes) auto
    from Suc.IH [OF this] obtain d2 where "echo_run rd parts hin hout base fuel d1 = Some (rest d1, d2, Some Echo_Done)" ..
    moreover have "write_chunk parts hout base 64 bytes = (bytes, Some (Set_Value (of_nat (length bytes))))"
      using write_chunk_all [OF assms(2) False, of 64] r(3) by simp
    ultimately show ?thesis using read False r(2) by simp
  qed (use read r in auto)
qed simp

text \<open>A pipe that holds bytes.\<close>

definition pipe_read :: "u8 list reader" where
  "pipe_read off len d = (Inr (take len d), drop len d)"

text \<open>A system that writes a byte, and then the others.\<close>

definition one_and_rest :: "nat \<Rightarrow> int list" where
  "one_and_rest n = (if n \<le> 1 then [int n] else [1, int (n - 1)])"

lemma pipe_source: "stream_source pipe_read (\<lambda>d. d)"
  by (auto simp: stream_source_def pipe_read_def)

lemma one_and_rest_writes: "writes_all one_and_rest"
  unfolding writes_all_def
proof (intro allI impI)
  fix n :: nat assume "0 < n"
  then show "\<exists>rs. one_and_rest n = map int rs \<and> rs \<noteq> [] \<and> (\<forall>r \<in> set rs. 0 < r) \<and> sum_list rs = n"
    by (intro exI [of _ "if n \<le> 1 then [n] else [1, n - 1]"]) (auto simp: one_and_rest_def)
qed

theorem echo_copies_witness:
  "\<exists>d'. echo_run pipe_read one_and_rest \<lparr>h_context = Some (), h_fd = 0\<rparr> \<lparr>h_context = Some (), h_fd = 1\<rparr> 4096 101
     (replicate 100 7) = Some (replicate 100 7, d', Some Echo_Done)"
  by (rule echo_copies [OF pipe_source one_and_rest_writes]) simp_all

text \<open>Remark (echo_file). With a regular file that is not empty as input, the program never returns: every read is at offset zero,
  so that the first 64 bytes are written again and again.\<close>

theorem echo_file_forever:
  assumes "file_source rd content" "content d \<noteq> []" "writes_all parts" "h_context hin = Some c"
  shows "echo_run rd parts hin hout base fuel d = Some (concat (replicate fuel (take 64 (content d))), d, None)"
proof (induction fuel)
  case (Suc fuel)
  let ?bytes = "take 64 (content d)"
  have "rd 0 64 d = (Inr ?bytes, d)" using assms(1) by (simp add: file_source_def)
  then have "read_chunk rd hin base 64 d = Some (Inr ?bytes, d)"
    using read_chunk_submits [OF assms(4), of 64 rd base d] by simp
  moreover have "write_chunk parts hout base 64 ?bytes = (?bytes, Some (Set_Value (of_nat (length ?bytes))))"
    using assms(2) by (intro write_chunk_all [OF assms(3)]) simp_all
  ultimately show ?case using Suc assms(2) by simp
qed simp

definition file_read :: "u8 list reader" where
  "file_read off len d = (Inr (take len (drop (unat off) d)), d)"

theorem echo_file_forever_witness:
  "echo_run file_read one_and_rest \<lparr>h_context = Some (), h_fd = 0\<rparr> \<lparr>h_context = Some (), h_fd = 1\<rparr> 4096 3
     [1, 2] = Some ([1, 2, 1, 2, 1, 2], [1, 2], None)"
  using echo_file_forever [of file_read "\<lambda>d. d" "[1, 2]" one_and_rest "\<lparr>h_context = Some (), h_fd = 0\<rparr>" "()"
      "\<lparr>h_context = Some (), h_fd = 1\<rparr>" 4096 3] one_and_rest_writes
  by (simp add: file_source_def file_read_def eval_nat_numeral)

text \<open>Remark (echo_connection). The server writes to a connection exactly the bytes that it reads from it, until the peer closes its
  end, and then closes the connection; when reading fails, the connection is closed too.\<close>

theorem echo_connection_closes:
  assumes "writes_all parts" "h_context h = Some c"
  shows "stream_source rd rest \<Longrightarrow> length (rest d) < fuel \<Longrightarrow>
      echo_connection rd parts h base fuel d = Some (rest d, [close_submit (h_fd h)], Some Echo_Done)"
    and "rd 0 1024 d = (Inl e, d1) \<Longrightarrow> 0 < fuel \<Longrightarrow>
      echo_connection rd parts h base fuel d = Some ([], [close_submit (h_fd h)], Some (Echo_Error (Inl (Inl e))))"
proof -
  assume src: "stream_source rd rest" and "length (rest d) < fuel"
  have "\<exists>d'. echo_input rd parts h base fuel d = Some (rest d, d', Some Echo_Done)"
    using \<open>length (rest d) < fuel\<close>
  proof (induction fuel arbitrary: d)
    case (Suc fuel)
    obtain bytes d1 where r: "rd 0 1024 d = (Inr bytes, d1)" "rest d = bytes @ rest d1" "length bytes \<le> 1024"
      "bytes = [] \<longrightarrow> rest d = []"
      using src unfolding stream_source_def by (metis zero_less_numeral)
    have read: "read_chunk rd h base 1024 d = Some (Inr bytes, d1)"
      using read_chunk_submits [OF assms(2), of 1024 rd base d] r(1) by simp
    show ?case
    proof (cases "bytes = []")
      case False
      then have "length (rest d1) < fuel" using Suc.prems r(2) by (cases bytes) auto
      from Suc.IH [OF this] obtain d2 where "echo_input rd parts h base fuel d1 = Some (rest d1, d2, Some Echo_Done)" ..
      moreover have "write_chunk parts h base 1024 bytes = (bytes, Some (Set_Value (of_nat (length bytes))))"
        using write_chunk_all [OF assms(1) False, of 1024] r(3) by simp
      moreover have "(of_nat (length bytes) :: u64) \<noteq> 0"
      proof
        assume "(of_nat (length bytes) :: u64) = 0"
        then have "unat (of_nat (length bytes) :: u64) = 0" by (simp only: unat_0)
        then show False using False r(3) by (simp add: unat_of_nat)
      qed
      ultimately show ?thesis using read False r(2) by simp
    qed (use read r in auto)
  qed simp
  then show "echo_connection rd parts h base fuel d = Some (rest d, [close_submit (h_fd h)], Some Echo_Done)"
    by (auto simp: echo_connection_def handle_close_def)
next
  assume "rd 0 1024 d = (Inl e, d1)" "0 < fuel"
  then show "echo_connection rd parts h base fuel d = Some ([], [close_submit (h_fd h)], Some (Echo_Error (Inl (Inl e))))"
    using read_chunk_submits [OF assms(2), of 1024 rd base d]
    by (cases fuel) (simp_all add: echo_connection_def handle_close_def)
qed

theorem echo_connection_closes_witness:
  "echo_connection pipe_read one_and_rest \<lparr>h_context = Some (), h_fd = 5\<rparr> 4096 9 [1, 2, 3] =
     Some ([1, 2, 3], [close_submit 5], Some Echo_Done)"
  using echo_connection_closes(1) [OF one_and_rest_writes _ pipe_source, of "\<lparr>h_context = Some (), h_fd = 5\<rparr>" "()" "[1, 2, 3]" 9 4096]
  by simp

text \<open>Remark (write_all). A loop over \<^verbatim>\<open>write_some\<close> writes a buffer at the current position, each part where the one before ended.\<close>

theorem write_all_tiles:
  assumes "\<forall>r \<in> set rs. r > 0" "sum_list rs = unat (cb_size b)" "h_context h = Some c"
  shows "write_all h (map int rs) b = Some (map (\<lambda>k. (sqe_zero Op_Write)\<lparr>sqe_fd := h_fd h, sqe_off := - 1,
      sqe_addr := cb_data b + of_nat (sum_list (take k rs)),
      sqe_len := ucast (cb_size b - of_nat (sum_list (take k rs)))\<rparr>) [0..<length rs], Some Echo_Done)"
  using assms(1,2)
proof (induction rs arbitrary: b)
  case (Cons r rs)
  have r: "0 < r" "r \<le> unat (cb_size b)" using Cons.prems by auto
  then have rw: "unat (of_nat r :: u64) = r" using unat_less64 [of "cb_size b"] by (simp add: unat_of_nat)
  have le: "of_nat r \<le> cb_size b" using r rw by (simp add: word_le_nat_alt)
  then have sz: "unat (cb_size b - of_nat r) = unat (cb_size b) - r" by (simp add: unat_sub rw)
  let ?b = "cb_make (cb_data b + of_nat r) (cb_size b - of_nat r)"
  have "sum_list rs = unat (cb_size ?b)" using Cons.prems(2) sz by (simp add: cb_make_def)
  from Cons.IH [OF _ this] Cons.prems(1)
  have IH: "write_all h (map int rs) ?b = Some (map (\<lambda>k. (sqe_zero Op_Write)\<lparr>sqe_fd := h_fd h, sqe_off := - 1,
      sqe_addr := cb_data b + of_nat (r + sum_list (take k rs)),
      sqe_len := ucast (cb_size b - of_nat (r + sum_list (take k rs)))\<rparr>) [0..<length rs], Some Echo_Done)"
    by (simp add: cb_make_def algebra_simps)
  have up: "[0..<length (r # rs)] = 0 # map Suc [0..<length rs]"
    by (simp add: map_Suc_upt upt_conv_Cons del: upt_Suc)
  have "\<not> cb_empty b" using r by (auto simp: cb_empty_def)
  moreover have "write_sender_submit \<lparr>io_context = c, io_buffers = b, io_fd = h_fd h, io_offset = - 1\<rparr> =
      (sqe_zero Op_Write)\<lparr>sqe_fd := h_fd h, sqe_off := - 1, sqe_addr := cb_data b, sqe_len := ucast (cb_size b)\<rparr>"
    by (simp add: write_sender_submit_def write_submit_single_def)
  ultimately show ?case
    using IH le assms(3) unfolding up
    by (subst write_all.simps) (simp add: io_complete_nat write_some_def io_sender_of_def comp_def not_less)
next
  case Nil
  then have "cb_empty b" by (simp add: cb_empty_def unat_eq_zero)
  then show ?case by (subst write_all.simps) simp
qed

theorem write_all_tiles_witness:
  "\<exists>qs. write_all \<lparr>h_context = Some (), h_fd = 1\<rparr> (map int [2, 3]) (cb_make 1000 5) = Some (qs, Some Echo_Done)"
  by (subst write_all_tiles) (simp_all add: cb_make_def)

end
