(* ===== verification/Spec2Isabelle.thy ===== *)
theory Spec2Isabelle
  imports
    Memory_Pool_Safety Memory_Pool_Sizes Pool_Clients Allocator_Concepts
    Io_Uring_Operations
    Scan_Reduce Sequence_Adaptors Fork_Items Zip
    Async_Mutex Channel_System Async_Resource
    Use_Resources_Correct Item_Operations Each_Adaptors
    Ip_Text Resolve_Calls
    Io_Concepts Signatures Environments
    Batched_Plan Batched_Threads Echo
begin

text \<open>
  A model of senders-io, a C++ library of asynchronous input and output over senders and sequence
  senders, with the theorems that make it correct. Paths below are relative to
  \<^verbatim>\<open>src/source/sio\<close>, those of the programs to \<^verbatim>\<open>src\<close>.

  \<^bold>\<open>How the program is built.\<close> A sender is connected with a receiver to an operation state; starting the
  operation makes it complete, once, with a value, an error or a stop signal. A sequence sender gives its
  receiver many item senders (\<^verbatim>\<open>set_next\<close>) before it completes. The library adds to the senders of a
  third-party library: containers whose links live in the operation states (an intrusive queue and an
  intrusive list); a pool of memory blocks, an asynchronous mutex and a channel, which keep waiting
  operations in these containers; adaptors of sequences (first, last, scan, reduce, repeat, finally, tap,
  merge, fork, zip); descriptions of memory (buffers and spans of buffers) and the sequence that transfers
  all of such a description piece by piece; addresses, endpoints and a resolver; and files and sockets over
  an io_uring, which are resources, that is sequences that open, lend and close a token. Customization points and
  concepts tie the classes together at compile time, completion signatures and environments tie a sender
  to its receiver, and three programs under \<^verbatim>\<open>src/examples\<close> put all of it to use.

  \<^bold>\<open>Which theory models what.\<close>
  \<^item> \<open>Sio_Prelude\<close>: machine words, completion signals, stores of nodes; rules shared by all.
  \<^item> \<open>Fifo_Interface\<close>: what the users of a container rely on (locales \<open>fifo\<close> and \<open>fifo_erase\<close>) and what
    follows for a loop that drains it.
  \<^item> \<open>Intrusive_Queue\<close>, \<open>Intrusive_List\<close>: \<^verbatim>\<open>intrusive_queue.hpp\<close>, \<^verbatim>\<open>intrusive_list.hpp\<close>. A node is an address,
    its links are kept in a store (a map from addresses), and the containers are the pointers that the
    classes hold. The interpretations \<open>iq\<close> and \<open>il\<close> show that they satisfy the interface.
  \<^item> \<open>Upstream_Resource\<close>: what a pool relies on of the resource it takes blocks from (locale
    \<open>upstream_resource\<close>), interpreted for the monotonic buffer of \<^verbatim>\<open>examples/batched_reads.cpp\<close>.
  \<^item> \<open>Log2\<close>, \<open>Memory_Pool\<close>, \<open>Memory_Pool_Correct\<close>, \<open>Memory_Pool_Safety\<close>, \<open>Memory_Pool_Sizes\<close>:
    \<^verbatim>\<open>memory_pool.hpp\<close> and \<^verbatim>\<open>memory_pool.cpp\<close>. The pool keeps for each of 32 classes a free list and a list of
    waiting allocations, and one mutex. Each function is what runs under the mutex; the step relation of
    \<open>Memory_Pool_Safety\<close> interleaves the operations of clients. \<open>Pool_Clients\<close> has the senders that a pool gives to them, and the
    default upstream resource.
  \<^item> \<open>Async_Allocator\<close>: \<^verbatim>\<open>async_allocator.hpp\<close>, \<^verbatim>\<open>deferred.hpp\<close>, and the allocator over a pool.
    \<open>Allocator_Concepts\<close>: its customization points and concepts, and the allocators as instances.
  \<^item> \<open>Const_Buffer\<close>, \<open>Const_Buffer_Span\<close>, \<open>Const_Buffer_Span_Correct\<close>, \<open>Mutable_Buffer\<close>, \<open>Mutable_Buffer_Span\<close>:
    \<^verbatim>\<open>const_buffer.hpp\<close>, \<^verbatim>\<open>const_buffer_span.hpp\<close> and \<^verbatim>\<open>.cpp\<close>, the mutable twins and \<^verbatim>\<open>buffer_algorithms.hpp\<close>. The
    abstraction of a buffer, and of a part of an array of buffers, is the list of the addresses of its bytes.
  \<^item> \<open>Buffered_Sequence\<close>: \<^verbatim>\<open>buffer.hpp\<close> and \<^verbatim>\<open>sequence/buffered_sequence.hpp\<close>. The loop is proved over a locale
    \<open>resumable\<close> (what is left shrinks by what was transferred), interpreted for one buffer and for a span.
  \<^item> \<open>Sequence_Core\<close>, \<open>First_Last\<close>, \<open>Scan_Reduce\<close>, \<open>Sequence_Adaptors\<close>, \<open>Fork\<close>, \<open>Zip\<close>: the headers of \<^verbatim>\<open>sequence\<close>
    and \<^verbatim>\<open>tap.hpp\<close>. An operation state is a record, a receiver's completion a function on it that also
    says which signals it sends. \<open>Fork_Items\<close> adds the storage of the item operations of fork, in which they delete themselves.
  \<^item> \<open>Async_Mutex\<close>, \<open>Async_Channel\<close>, \<open>Channel_Notify\<close>, \<open>Async_Resource\<close>: the headers of these names.
    \<open>Channel_Notify\<close> gives items to the observers of a channel. \<open>Channel_System\<close> is a channel with all its subscriptions, the
    lock operations that wait for its mutex and the items that are spawned; a run is a list of events, each one atomic step.
  \<^item> \<open>Use_Resources\<close>, \<open>Use_Resources_Correct\<close>: \<^verbatim>\<open>use_resources\<close> of \<^verbatim>\<open>async_resource.hpp\<close>, composed of the models of
    resources, of zip and of first; a step is the completion of something outside, and the invariant holds for all orders.
  \<^item> \<open>Sync_Sequences\<close>: sequences whose items complete synchronously are trees (a codatatype), the adaptors make trees of
    trees, and a receiver runs one. Compositions of the adaptors are proved here. \<open>Item_Operations\<close> has the item senders, item
    operations and item receivers that last, scan and a buffered sequence make of each item, and shows that they run such a tree. \<open>Each_Adaptors\<close>: \<^verbatim>\<open>then_each\<close> and \<^verbatim>\<open>let_value_each\<close>.
  \<^item> \<open>Byte_Order\<close>, \<open>Ip_Address\<close>, \<open>Ip_Address_Correct\<close>, \<open>Ip_Text\<close>, \<open>Ip_Endpoint\<close>, \<open>Resolve\<close>, \<open>Resolve_Calls\<close>: \<^verbatim>\<open>ip/address.hpp\<close>,
    \<^verbatim>\<open>ip/endpoint.hpp\<close>, \<^verbatim>\<open>ip/tcp.hpp\<close>, \<^verbatim>\<open>ip/udp.hpp\<close>, \<^verbatim>\<open>ip/resolve.hpp\<close>, and the endpoints and protocols of
    \<^verbatim>\<open>local\<close> and \<^verbatim>\<open>can\<close>. The byte order of the machine is a parameter; addresses are instances of \<open>linorder\<close>.
  \<^item> \<open>Io_Uring\<close>, \<open>Io_Uring_Correct\<close>, \<open>Io_Uring_Socket\<close>: \<^verbatim>\<open>io_uring/file_handle.hpp\<close>, \<^verbatim>\<open>.cpp\<close> and
    \<^verbatim>\<open>io_uring/socket_handle.hpp\<close>: the entry that each operation submits and what it makes of the result.
    \<open>Io_Uring_Operations\<close> has the senders, the operations that connecting them makes, and what running these does.
  \<^item> \<open>Customization\<close>, \<open>Io_Concepts\<close>: the customization points of \<^verbatim>\<open>async_resource.hpp\<close>, \<^verbatim>\<open>io_concepts.hpp\<close> and
    \<^verbatim>\<open>net_concepts.hpp\<close>, and the concepts of resources, streams and factories. A class is what a compiler finds
    when it is asked for a member or a static function with arguments of given categories; a customization
    point is its constraint, its exception specification and its body as functions of that.
  \<^item> \<open>Signatures\<close>: the completion signatures that every sender and sequence declares, against what the
    models of the other theories complete with.
  \<^item> \<open>Environments\<close>: the environments of the receivers of all adaptors, and \<^verbatim>\<open>with_env.hpp\<close>.
  \<^item> \<open>Std_Numbers\<close>, \<open>Batched_Options\<close>, \<open>Batched_State\<close>, \<open>Batched_Plan\<close>, \<open>Batched_Reads\<close>, \<open>Batched_Run\<close>, \<open>Batched_Threads\<close>:
    \<^verbatim>\<open>examples/batched_reads.cpp\<close> and \<^verbatim>\<open>read_batched.hpp\<close>: the command line, the counters and the state of files and
    threads, the division of the work and the report, the reads, over the models of zip and of streams, the threads
    while they run, and the function of a thread.
  \<^item> \<open>Echo\<close>: \<^verbatim>\<open>examples/echo_standard_input.cpp\<close> and \<^verbatim>\<open>examples/tcp_echo_server.cpp\<close>, over the models of streams
    and sockets.
\<close>

text \<open>
  \<^bold>\<open>Conventions.\<close> Where C++ behaviour is undefined (a null pointer is dereferenced, an uninitialised cell is
  read, an empty container is popped) a function gives \<open>None\<close>, so that a theorem with \<open>Some\<close> on the
  right states that this does not happen. Integers have their width: \<open>size_t\<close> and pointers are 64-bit
  words, flags and lengths of submissions 32-bit words. What is not in the repository is a parameter: the
  upstream memory resource, the functions of the C library that parse and resolve addresses, the results of
  system calls, the order in which the library's atomic queue is popped, \<^verbatim>\<open>exec::finally\<close>. Code that runs
  on several threads is an \<open>inductive\<close> step relation with one step for every atomic operation or every
  section under a mutex; its theorems hold for all reachable states.

  \<^bold>\<open>What the theorems show.\<close> The containers refine lists. The pool hands out blocks that are disjoint, never
  undefined for clients that follow its rules, serves waiting allocations in their order, and is
  as before when a block is given back at once. The mutex
  excludes, does not lose operations and keeps their order when its queue does. A channel whose stop requests do not meet
  other steps uses no observer that was destroyed, and ends every subscription once. Buffers, suffixes and prefixes are those of their bytes, on the
  sizes of span where that is so, and the buffered sequence, and with it whole reads and writes of a stream,
  tiles its buffer. The adaptors complete once, with the documented signal, whatever the interleaving, and
  compute folds, rows or the first signal. Addresses and endpoints convert without loss and are ordered
  linearly. Resources are closed when they were used, also when several are used together, in whatever order they open, close
  and complete. Calls that a customization point admits compile, the
  library's classes satisfy its concepts, and \<open>Signatures\<close> says which senders keep their signatures. The
  programs copy their input, and read whole blocks from inside the file into storage of their own; the report of the
  batched reads is right when it ends.

  \<^bold>\<open>What they also show\<close> is where the code does not keep such a contract: those theorems exhibit a run or an
  input and are stated for the code as it is (the pool's upstream allocation leaks a block, the default upstream resource cannot take its blocks back, a stop request
  can deadlock or complete an allocation twice, a file is never created, \<^verbatim>\<open>use_resources\<close> loses an error, the first item of a repeated sequence never arrives,
  an item operation of fork over a pool and an observer of a channel are read after they were destroyed, the port of a result is swapped,
  a file that is echoed or that is smaller than a block is read for ever, and others).

  \<^bold>\<open>Termination and bounds.\<close> Loops over containers and over the buffers of a span are
  \<open>partial_function (option)\<close> or functions with a measure; that they return is part of the theorems about
  them. The loop of a buffered sequence takes the list of the results of its items, which bounds it: a
  sequence over one buffer returns after at most as many items as bytes when each item makes progress, and
  repeats itself without end when one does not. The loop of the mutex is a program counter. The buffered
  sequence of \<open>Item_Operations\<close> has fuel, one unit for each item that is connected after the first; its theorem is for some fuel,
  and that none is enough is just when the tree does not end. The echo programs
  have fuel, one unit for each read: one more than there are bytes is enough, and no fuel is where the
  program does not return.

  \<^bold>\<open>What is not modelled\<close>: the thin headers that only name senders of the third-party library. \<^verbatim>\<open>first\<close> of a lock-step
  sequence asks the third-party holder of its result for an index, which is left out, and so is the lock-step \<^verbatim>\<open>last\<close>, which is the
  other one without its mutex; no sequence of the library is lock-step for them. The order in which the queue of the mutex is popped is a parameter, and
  completing a receiver is taken to destroy its subscription, which the caller may but need not do. Of the programs, the
  rates that the report computes in floating point, the random numbers (a function with the bounds of the
  distribution), the operating system (results of calls) and the threads' scheduling are arguments. Memory
  orders weaker than sequential consistency are not modelled.
\<close>

end
